(* ===== verification/Prelude.thy ===== *)
theory Prelude
  imports Main "HOL-Library.Word" "HOL-Library.Multiset" "HOL-Library.AList"
begin

text \<open>
  Shared vocabulary of the development: the machine integers of the Rust sources as
  fixed-width words, time as nanosecond counts, fallible results as sums, and the few
  standard-library operations on vectors that several components use
  (\<^verbatim>\<open>iter_mut().find\<close>, \<^verbatim>\<open>min_by_key\<close>, \<^verbatim>\<open>swap_remove\<close>,
  saturating arithmetic). A \<^verbatim>\<open>HashMap\<close> is an association list with distinct keys,
  whose order stands for the unspecified iteration order.
\<close>

section \<open>Types\<close>

type_synonym u8 = "8 word"
type_synonym u16 = "16 word"
type_synonym u32 = "32 word"
type_synonym u64 = "64 word"

text \<open>The immutable and growable byte buffers of the \<^verbatim>\<open>bytes\<close> crate, by their contents.\<close>

type_synonym bytes = "u8 list"

text \<open>A reading of the monotonic clock and a span of time, both in nanoseconds.\<close>

type_synonym instant = nat
type_synonym duration = nat

text \<open>\<^verbatim>\<open>Result<'a, 'e>\<close>: the error on the left.\<close>

type_synonym ('e, 'a) res = "'e + 'a"

named_theorems res_simps \<open>evaluation of the error-propagating sequencing of results\<close>
named_theorems vec_simps \<open>contents and lengths of vectors after the standard operations\<close>
named_theorems store_simps \<open>reads of the shared store after a write\<close>

section \<open>Durations and saturating arithmetic\<close>

definition from_millis :: "u64 \<Rightarrow> duration" where
  "from_millis n = unat n * 1000000"

definition from_secs :: "u64 \<Rightarrow> duration" where
  "from_secs n = unat n * 1000000000"

definition sat_add :: "'w::len word \<Rightarrow> 'w word \<Rightarrow> 'w word" where
  "sat_add a b = (if unat a + unat b < 2 ^ LENGTH('w) then a + b else - 1)"

definition sat_sub :: "'w::len word \<Rightarrow> 'w word \<Rightarrow> 'w word" where
  "sat_sub a b = (if a < b then 0 else a - b)"

lemma unat_minus_one_max: "unat (- 1 :: 'w::len word) = 2 ^ LENGTH('w) - 1"
  by (simp add: unat_eq_nat_uint unsigned_minus_1_eq_mask mask_eq_exp_minus_1
      nat_diff_distrib nat_power_eq)

lemma unat_sat_add: "unat (sat_add a b) = min (unat a + unat b) (2 ^ LENGTH('w) - 1)"
  for a b :: "'w::len word"
proof (cases "unat a + unat b < 2 ^ LENGTH('w)")
  case True
  then have "unat (a + b) = unat a + unat b"
    by (simp add: unat_word_ariths)
  with True show ?thesis by (simp add: sat_add_def)
next
  case False
  then show ?thesis by (simp add: sat_add_def unat_minus_one_max)
qed

lemma sat_add_code [code]: "sat_add a b = (if a + b < a then - 1 else a + b)"
  for a b :: "'w::len word"
proof (cases "unat a + unat b < 2 ^ LENGTH('w)")
  case True
  then have "unat (a + b) = unat a + unat b" by (rule unat_add_lem [THEN iffD1])
  with True show ?thesis by (simp add: sat_add_def word_less_nat_alt)
next
  case False
  have a: "unat a < 2 ^ LENGTH('w)" and b: "unat b < 2 ^ LENGTH('w)" by (rule unsigned_less)+
  then have "unat a + unat b - 2 ^ LENGTH('w) < 2 ^ LENGTH('w)" by linarith
  with False have "unat (a + b) = unat a + unat b - 2 ^ LENGTH('w)"
    by (simp add: unat_word_ariths le_mod_geq mod_less)
  with False a b have "unat (a + b) < unat a" by linarith
  with False show ?thesis by (simp add: sat_add_def word_less_nat_alt)
qed

lemma sat_add_exact: "unat a + unat b < 2 ^ LENGTH('w) \<Longrightarrow> unat (sat_add a b) = unat a + unat b"
  for a b :: "'w::len word"
  by (simp add: unat_sat_add)

lemma sat_add_0 [simp]: "sat_add a 0 = a"
  by (simp add: sat_add_def)

lemma sat_add_assoc: "sat_add (sat_add a b) c = sat_add a (sat_add b c)"
  by (rule word_unat_eq_iff [THEN iffD2]) (simp add: unat_sat_add)

lemma unat_u8_less: "unat (b :: u8) < 256"
proof -
  have "unat b < 2 ^ LENGTH(8)" by (rule unsigned_less)
  then show ?thesis by simp
qed

lemma unat_u64_less: "unat (c :: u64) < 2 ^ 64"
proof -
  have "unat c < 2 ^ LENGTH(64)" by (rule unsigned_less)
  then show ?thesis by simp
qed

lemma unat_sat_sub: "unat (sat_sub a b) = unat a - unat b"
  by (simp add: sat_sub_def unat_sub_if_size word_less_nat_alt)

section \<open>Results\<close>

text \<open>The \<^verbatim>\<open>?\<close> operator: go on with the value, or return the error at once.\<close>

definition and_then :: "('e, 'a) res \<Rightarrow> ('a \<Rightarrow> ('e, 'b) res) \<Rightarrow> ('e, 'b) res" where
  "and_then r f = (case r of Inl e \<Rightarrow> Inl e | Inr a \<Rightarrow> f a)"

lemma and_then_simps [simp, res_simps]:
  "and_then (Inl e) f = Inl e"
  "and_then (Inr a) f = f a"
  by (simp_all add: and_then_def)

lemma and_then_eq_Inr: "and_then r f = Inr b \<longleftrightarrow> (\<exists>a. r = Inr a \<and> f a = Inr b)"
  by (cases r) auto

lemma and_then_eq_Inl: "and_then r f = Inl e \<longleftrightarrow> r = Inl e \<or> (\<exists>a. r = Inr a \<and> f a = Inl e)"
  by (cases r) auto

text \<open>\<^verbatim>\<open>Result::map_err\<close>.\<close>

definition map_err :: "('e \<Rightarrow> 'f) \<Rightarrow> ('e, 'a) res \<Rightarrow> ('f, 'a) res" where
  "map_err f r = (case r of Inl e \<Rightarrow> Inl (f e) | Inr a \<Rightarrow> Inr a)"

lemma map_err_simps [simp]: "map_err f (Inl e) = Inl (f e)" "map_err f (Inr a) = Inr a"
  by (simp_all add: map_err_def)

lemma map_err_eq_Inr [simp]: "map_err f r = Inr a \<longleftrightarrow> r = Inr a"
  by (cases r) simp_all

definition ok_or :: "'a option \<Rightarrow> 'e \<Rightarrow> ('e, 'a) res" where
  "ok_or x e = (case x of None \<Rightarrow> Inl e | Some a \<Rightarrow> Inr a)"

lemma ok_or_simps [simp, res_simps]:
  "ok_or None e = Inl e"
  "ok_or (Some a) e = Inr a"
  by (simp_all add: ok_or_def)

lemma ok_or_eq_Inr [simp]: "ok_or x e = Inr a \<longleftrightarrow> x = Some a"
  by (cases x) auto

section \<open>Vectors\<close>

text \<open>Mutate the first element that satisfies a predicate (\<^verbatim>\<open>iter_mut().find(..)\<close>).\<close>

fun update_first :: "('a \<Rightarrow> bool) \<Rightarrow> ('a \<Rightarrow> 'a) \<Rightarrow> 'a list \<Rightarrow> 'a list" where
  "update_first P f [] = []"
| "update_first P f (x # xs) = (if P x then f x # xs else x # update_first P f xs)"

text \<open>
  \<^verbatim>\<open>iter().enumerate().min_by_key(..)\<close>: the index of a least element, the first of
  them when several are least.
\<close>

fun min_index :: "('a \<Rightarrow> nat) \<Rightarrow> 'a list \<Rightarrow> nat option" where
  "min_index f [] = None"
| "min_index f (x # xs) =
     (case min_index f xs of
        None \<Rightarrow> Some 0
      | Some i \<Rightarrow> if f x \<le> f (xs ! i) then Some 0 else Some (Suc i))"

text \<open>\<^verbatim>\<open>Vec::swap_remove\<close> at an index in range: the last element takes the hole.\<close>

definition swap_remove :: "nat \<Rightarrow> 'a list \<Rightarrow> 'a list" where
  "swap_remove i xs = butlast (xs[i := last xs])"

lemma length_update_first [simp, vec_simps]: "length (update_first P f xs) = length xs"
  by (induction xs) auto

lemma map_update_first: "(\<And>x. P x \<Longrightarrow> g (f x) = g x) \<Longrightarrow> map g (update_first P f xs) = map g xs"
  by (induction xs) auto

lemma update_first_id: "\<forall>x \<in> set xs. \<not> P x \<Longrightarrow> update_first P f xs = xs"
  by (induction xs) auto

lemma set_update_first_distinct:
  assumes "distinct (map k xs)" and "x \<in> set xs" and "k x = a"
  shows "set (update_first (\<lambda>e. k e = a) f xs) = insert (f x) (set xs - {x})"
  using assms by (induction xs) (auto simp: image_iff)

lemma find_None_key: "find (\<lambda>e. k e = a) xs = None \<longleftrightarrow> a \<notin> k ` set xs"
  by (auto simp: find_None_iff)

lemma min_index_None [simp]: "min_index f xs = None \<longleftrightarrow> xs = []"
  by (cases xs) (auto split: option.splits)

lemma min_index_Some:
  "min_index f xs = Some i \<Longrightarrow> i < length xs \<and> (\<forall>x \<in> set xs. f (xs ! i) \<le> f x)"
proof (induction xs arbitrary: i)
  case Nil
  then show ?case by simp
next
  case (Cons x xs)
  show ?case
  proof (cases "min_index f xs")
    case None
    with Cons.prems show ?thesis by simp
  next
    case (Some j)
    with Cons.IH have "j < length xs" and "\<forall>y \<in> set xs. f (xs ! j) \<le> f y" by auto
    with Some Cons.prems show ?thesis by (auto split: if_splits)
  qed
qed

lemma min_index_first: "min_index f xs = Some i \<Longrightarrow> j < i \<Longrightarrow> f (xs ! i) < f (xs ! j)"
proof (induction xs arbitrary: i j)
  case Nil
  then show ?case by simp
next
  case (Cons x xs)
  then obtain k where k: "min_index f xs = Some k" and i: "i = Suc k" and lt: "f (xs ! k) < f x"
    by (auto split: option.splits if_splits)
  show ?case
  proof (cases j)
    case 0
    with i lt show ?thesis by simp
  next
    case (Suc l)
    with Cons.IH [OF k] Cons.prems(2) i show ?thesis by simp
  qed
qed

lemma mset_swap_remove: "i < length xs \<Longrightarrow> mset (swap_remove i xs) = mset xs - {# xs ! i #}"
proof -
  assume i: "i < length xs"
  then obtain ys y where xs: "xs = ys @ [y]" by (cases xs rule: rev_cases) auto
  show ?thesis
  proof (cases "i < length ys")
    case True
    then show ?thesis by (simp add: swap_remove_def xs list_update_append nth_append mset_update)
  next
    case False
    with i xs have "i = length ys" by simp
    then show ?thesis by (simp add: swap_remove_def xs)
  qed
qed

lemma length_swap_remove [vec_simps]: "i < length xs \<Longrightarrow> length (swap_remove i xs) = length xs - 1"
  by (simp add: swap_remove_def)

lemma set_swap_remove_distinct:
  assumes "i < length xs" and "distinct xs"
  shows "set (swap_remove i xs) = set xs - {xs ! i}"
proof -
  have "set_mset (mset (swap_remove i xs)) = set_mset (mset xs - {# xs ! i #})"
    by (simp add: mset_swap_remove assms(1))
  also have "\<dots> = set xs - {xs ! i}"
    using assms by (auto simp: in_diff_count distinct_count_atmost_1 split: if_splits dest: in_diffD)
  finally show ?thesis by simp
qed

lemma swap_remove_subset: "i < length xs \<Longrightarrow> set (swap_remove i xs) \<subseteq> set xs"
  using mset_swap_remove [of i xs] by (metis diff_subset_eq_self set_mset_mono set_mset_mset)

lemma distinct_subseteq_mset:
  assumes "mset ys \<subseteq># mset xs" and "distinct xs"
  shows "distinct ys"
proof -
  have le: "count (mset ys) a \<le> count (mset xs) a" for a
    using assms(1) by (rule mset_subset_eq_count)
  have "count (mset xs) a \<le> 1" for a
    using assms(2) by (simp add: distinct_count_atmost_1)
  with le have "count (mset ys) a \<le> 1" for a by (rule order_trans)
  moreover have "a \<in> set ys \<Longrightarrow> count (mset ys) a \<ge> 1" for a
    by (simp add: count_list_0_iff Suc_le_eq)
  moreover have "a \<notin> set ys \<Longrightarrow> count (mset ys) a = 0" for a
    by (simp add: count_list_0_iff)
  ultimately show ?thesis
    by (simp add: distinct_count_atmost_1 le_antisym)
qed

lemma distinct_map_swap_remove:
  assumes "i < length xs" and "distinct (map k xs)"
  shows "distinct (map k (swap_remove i xs))"
proof -
  have "mset (map k (swap_remove i xs)) \<subseteq># mset (map k xs)"
    using assms(1) by (simp add: mset_swap_remove image_mset_subseteq_mono)
  then show ?thesis
    using assms(2) by (rule distinct_subseteq_mset)
qed

section \<open>Association lists as hash maps\<close>

declare map_of_eq_Some_iff [simp del]

lemma distinct_map_fst_update: "distinct (map fst al) \<Longrightarrow> distinct (map fst (AList.update k v al))"
  by (rule AList.distinct_update)

lemma distinct_map_fst_delete: "distinct (map fst al) \<Longrightarrow> distinct (map fst (AList.delete k al))"
  by (rule AList.distinct_delete)

lemma map_of_update: "map_of (AList.update k v al) k' = (if k' = k then Some v else map_of al k')"
  by (simp add: update_conv')

lemma map_of_alist_delete: "map_of (AList.delete k al) k' = (if k' = k then None else map_of al k')"
  by (simp add: delete_conv')

lemma map_of_some_in: "map_of al k = Some v \<Longrightarrow> (k, v) \<in> set al"
  by (rule map_of_SomeD)

end
