(* ===== verification/Lru.thy ===== *)
theory Lru
  imports Prelude
begin

text \<open>
  Tables with least-recently-used eviction. The learn table of the router and the sequence
  tracker of the readers share the same discipline: a bounded vector of entries with a key and
  a time of last use, where a touch refreshes the entry of a known key, and makes room for a
  new one by dropping an entry with the oldest time. The locale states this contract once and
  draws the conclusions from it.
\<close>

section \<open>The specification: most recently used first\<close>

definition mru_touch :: "nat \<Rightarrow> 'k \<Rightarrow> 'k list \<Rightarrow> 'k list" where
  "mru_touch c k l = take c (k # removeAll k l)"

definition most_recent :: "nat \<Rightarrow> 'k list \<Rightarrow> 'k list" where
  "most_recent c hist = take c (rev (remdups hist))"

lemma remdups_snoc: "remdups (xs @ [k]) = removeAll k (remdups xs) @ [k]"
  by (induction xs) auto

lemma take_removeAll_take:
  "distinct l \<Longrightarrow> take n (removeAll k (take (Suc n) l)) = take n (removeAll k l)"
proof (induction l arbitrary: n)
  case (Cons x l)
  show ?case
  proof (cases "x = k")
    case True
    with Cons.prems have "k \<notin> set l" by auto
    moreover from this have "k \<notin> set (take n l)" by (meson in_set_takeD)
    ultimately show ?thesis using True by (simp add: removeAll_id)
  next
    case False
    with Cons show ?thesis by (cases n) simp_all
  qed
qed simp

lemma most_recent_snoc: "0 < c \<Longrightarrow> most_recent c (hist @ [k]) = mru_touch c k (most_recent c hist)"
proof -
  assume "0 < c"
  then obtain n where c: "c = Suc n" by (cases c) auto
  have "distinct (rev (remdups hist))" by simp
  from take_removeAll_take [OF this, of n k] show ?thesis
    by (simp add: most_recent_def mru_touch_def remdups_snoc c removeAll_filter_not_eq rev_filter)
qed

section \<open>The interface\<close>

text \<open>The invariant of a table: one entry per key, at most the capacity, and a usable capacity.\<close>

definition lru_ok :: "('t \<Rightarrow> ('k \<times> instant) list) \<Rightarrow> ('t \<Rightarrow> nat) \<Rightarrow> 't \<Rightarrow> bool" where
  "lru_ok seen cap t \<longleftrightarrow> distinct (map fst (seen t)) \<and> length (seen t) \<le> cap t \<and> 0 < cap t"

text \<open>The entries of a table, ordered from the newest to the oldest.\<close>

definition by_age :: "('t \<Rightarrow> ('k \<times> instant) list) \<Rightarrow> 't \<Rightarrow> ('k \<times> instant) list \<Rightarrow> bool" where
  "by_age seen t L \<longleftrightarrow> mset L = mset (seen t) \<and> sorted_wrt (\<lambda>p q. snd q < snd p) L"

lemma by_age_set: "by_age seen t L \<Longrightarrow> set L = set (seen t)"
  by (auto simp: by_age_def dest: mset_eq_setD)

lemma sorted_age_last_least:
  "sorted_wrt (\<lambda>p q. snd q < snd p) L \<Longrightarrow> p \<in> set L \<Longrightarrow> \<forall>q \<in> set L. snd p \<le> (snd q :: nat) \<Longrightarrow> p = last L"
proof (induction L)
  case (Cons x L)
  show ?case
  proof (cases "L = []")
    case True
    with Cons.prems show ?thesis by simp
  next
    case False
    then have "snd (last L) < snd x" using Cons.prems(1) by simp
    with Cons.prems(3) False have "p \<noteq> x" by (auto simp: not_le [symmetric])
    with Cons False show ?thesis by simp
  qed
qed simp

lemma mset_filter_key:
  "distinct (map fst L) \<Longrightarrow> (k, s) \<in> set L \<Longrightarrow> mset (filter (\<lambda>p. fst p \<noteq> k) L) = mset L - {#(k, s)#}"
proof (induction L)
  case (Cons x L)
  show ?case
  proof (cases "fst x = k")
    case True
    with Cons.prems have "x = (k, s)" and "filter (\<lambda>p. fst p \<noteq> k) L = L"
      by (auto simp: image_iff filter_id_conv)
    with True show ?thesis by simp
  next
    case False
    with Cons have "(k, s) \<in> set L" by auto
    with Cons False show ?thesis by (auto simp: diff_add_mset_swap)
  qed
qed simp

text \<open>What dropping the oldest entry does to a vector of entries.\<close>

lemma drop_oldest_mset:
  assumes "min_index age xs = Some i"
  shows "\<exists>p \<in> (\<lambda>e. (k e, age e)) ` set xs. (\<forall>q \<in> (\<lambda>e. (k e, age e)) ` set xs. snd p \<le> snd q)
    \<and> mset (map (\<lambda>e. (k e, age e)) (swap_remove i xs)) = mset (map (\<lambda>e. (k e, age e)) xs) - {#p#}"
proof (intro bexI conjI)
  from min_index_Some [OF assms] have i: "i < length xs" "\<forall>x \<in> set xs. age (xs ! i) \<le> age x" by auto
  then show "(k (xs ! i), age (xs ! i)) \<in> (\<lambda>e. (k e, age e)) ` set xs" by auto
  show "\<forall>q \<in> (\<lambda>e. (k e, age e)) ` set xs. snd (k (xs ! i), age (xs ! i)) \<le> snd q" using i by auto
  show "mset (map (\<lambda>e. (k e, age e)) (swap_remove i xs))
      = mset (map (\<lambda>e. (k e, age e)) xs) - {#(k (xs ! i), age (xs ! i))#}"
    using i by (simp add: mset_swap_remove image_mset_Diff)
qed

lemma refresh_mset:
  assumes "distinct (map k xs)" and "e \<in> set xs" and "k e = a"
  shows "mset (map g (update_first (\<lambda>e. k e = a) f xs)) = add_mset (g (f e)) (mset (map g xs) - {#g e#})"
  using assms
proof (induction xs)
  case (Cons y ys)
  show ?case
  proof (cases "k y = a")
    case True
    with Cons.prems have "y = e" by (auto simp: image_iff)
    with True show ?thesis by simp
  next
    case False
    with Cons.prems have e: "e \<in> set ys" by auto
    then have "g e \<in># mset (map g ys)" by auto
    then obtain N where "mset (map g ys) = add_mset (g e) N" by (meson multi_member_split)
    with Cons e False show ?thesis by simp
  qed
qed simp

locale lru_table =
  fixes seen :: "'t \<Rightarrow> ('k \<times> instant) list"
    and cap :: "'t \<Rightarrow> nat"
    and touch_at :: "'k \<Rightarrow> 'a \<Rightarrow> instant \<Rightarrow> 't \<Rightarrow> 't"
  assumes touch_cap: "cap (touch_at k a now t) = cap t"
    and touch_hit: "distinct (map fst (seen t)) \<Longrightarrow> (k, s) \<in> set (seen t) \<Longrightarrow>
          mset (seen (touch_at k a now t)) = add_mset (k, now) (mset (seen t) - {#(k, s)#})"
    and touch_room: "k \<notin> fst ` set (seen t) \<Longrightarrow> length (seen t) < cap t \<Longrightarrow>
          mset (seen (touch_at k a now t)) = add_mset (k, now) (mset (seen t))"
    and touch_evict: "k \<notin> fst ` set (seen t) \<Longrightarrow> cap t \<le> length (seen t) \<Longrightarrow> seen t \<noteq> [] \<Longrightarrow>
          \<exists>p \<in> set (seen t). (\<forall>q \<in> set (seen t). snd p \<le> snd q)
            \<and> mset (seen (touch_at k a now t)) = add_mset (k, now) (mset (seen t) - {#p#})"
begin

lemma touch_forms:
  assumes "lru_ok seen cap t"
  obtains (hit) s where "(k, s) \<in> set (seen t)"
      "mset (seen (touch_at k a now t)) = add_mset (k, now) (mset (seen t) - {#(k, s)#})"
    | (room) "k \<notin> fst ` set (seen t)" "length (seen t) < cap t"
      "mset (seen (touch_at k a now t)) = add_mset (k, now) (mset (seen t))"
    | (evict) p where "k \<notin> fst ` set (seen t)" "length (seen t) = cap t" "p \<in> set (seen t)"
      "\<forall>q \<in> set (seen t). snd p \<le> snd q"
      "mset (seen (touch_at k a now t)) = add_mset (k, now) (mset (seen t) - {#p#})"
proof (cases "k \<in> fst ` set (seen t)")
  case True
  then obtain s where "(k, s) \<in> set (seen t)" by auto
  with touch_hit [of t k s] assms show thesis by (intro hit) (auto simp: lru_ok_def)
next
  case False
  show thesis
  proof (cases "length (seen t) < cap t")
    case True
    with False touch_room [of k t] show thesis by (intro room) auto
  next
    case full: False
    with assms have "length (seen t) = cap t" "seen t \<noteq> []" by (auto simp: lru_ok_def)
    with touch_evict [OF False, of a now] obtain p where "p \<in> set (seen t)"
      "\<forall>q \<in> set (seen t). snd p \<le> snd q"
      "mset (seen (touch_at k a now t)) = add_mset (k, now) (mset (seen t) - {#p#})" by auto
    with False \<open>length (seen t) = cap t\<close> show thesis by (rule evict)
  qed
qed

lemma touch_ok:
  assumes "lru_ok seen cap t"
  shows "lru_ok seen cap (touch_at k a now t)"
proof -
  let ?t = "touch_at k a now t"
  have fresh: "distinct (map fst (seen ?t)) \<and> length (seen ?t) \<le> cap t"
    if S: "mset (seen ?t) = add_mset (k, now) M" and "M \<subseteq># mset (seen t)"
      and "k \<notin> fst ` set_mset M" and "size M < cap t" for M
  proof -
    obtain L where L: "mset L = M" using ex_mset by auto
    have "mset (map fst L) \<subseteq># mset (map fst (seen t))"
      using that(2) L by (simp add: image_mset_subseteq_mono)
    then have "distinct (map fst L)"
      by (rule distinct_subseteq_mset) (use assms in \<open>simp add: lru_ok_def\<close>)
    with that(3) L have "distinct (map fst ((k, now) # L))" by auto
    moreover have "mset (seen ?t) = mset ((k, now) # L)" using S L by simp
    ultimately have "distinct (map fst (seen ?t))" by (metis distinct_subseteq_mset mset_map subset_mset.order_refl)
    moreover have "length (seen ?t) = Suc (size M)" using S by (metis size_add_mset size_mset)
    ultimately show ?thesis using that(4) by simp
  qed
  from assms have "distinct (map fst (seen ?t)) \<and> length (seen ?t) \<le> cap t"
  proof (cases rule: touch_forms [of t k a now])
    case (hit s)
    have "k \<notin> fst ` set_mset (mset (seen t) - {#(k, s)#})"
    proof -
      have "mset (seen t) - {#(k, s)#} = mset (filter (\<lambda>p. fst p \<noteq> k) (seen t))"
        using hit(1) assms mset_filter_key [of "seen t" k s] by (simp add: lru_ok_def)
      then show ?thesis by auto
    qed
    moreover have "0 < size (mset (seen t))" using hit(1) by (metis length_pos_if_in_set size_mset)
    ultimately show ?thesis
      using hit assms by (intro fresh) (auto simp: lru_ok_def size_Diff_singleton)
  next
    case room
    then show ?thesis by (intro fresh) auto
  next
    case (evict p)
    then show ?thesis using assms
      by (intro fresh) (auto simp: lru_ok_def size_Diff_singleton dest!: in_diffD intro: rev_image_eqI)
  qed
  then show ?thesis using assms by (simp add: lru_ok_def touch_cap)
qed

lemma touch_present: "lru_ok seen cap t \<Longrightarrow> (k, now) \<in> set (seen (touch_at k a now t))"
  by (cases rule: touch_forms [of t k a now])
    (auto simp: set_mset_mset [symmetric] simp del: set_mset_mset)

lemma touch_entries:
  assumes "lru_ok seen cap t"
  shows "set (seen (touch_at k a now t)) \<subseteq> insert (k, now) (set (seen t))"
  using assms by (cases rule: touch_forms [of t k a now])
    (auto simp: set_mset_mset [symmetric] simp del: set_mset_mset dest: in_diffD)

lemma touch_times:
  "lru_ok seen cap t \<Longrightarrow> snd ` set (seen (touch_at k a now t)) \<subseteq> insert now (snd ` set (seen t))"
  using touch_entries [of t k a now] by auto

lemma touch_keys:
  "lru_ok seen cap t \<Longrightarrow> fst ` set (seen (touch_at k a now t)) \<subseteq> insert k (fst ` set (seen t))"
  using touch_entries [of t k a now] by auto

lemma touch_keys_room:
  assumes "lru_ok seen cap t" and "length (seen t) < cap t \<or> k \<in> fst ` set (seen t)"
  shows "fst ` set (seen (touch_at k a now t)) = insert k (fst ` set (seen t))"
  using assms(1)
proof (cases rule: touch_forms [of t k a now])
  case (hit s)
  have "mset (seen t) = add_mset (k, s) (mset (seen t) - {#(k, s)#})" using hit(1) by simp
  then have "set (seen t) = insert (k, s) (set_mset (mset (seen t) - {#(k, s)#}))"
    by (metis set_mset_add_mset_insert set_mset_mset)
  moreover have "set (seen (touch_at k a now t)) = insert (k, now) (set_mset (mset (seen t) - {#(k, s)#}))"
    using hit(2) by (metis set_mset_add_mset_insert set_mset_mset)
  ultimately show ?thesis by auto
next
  case room
  then have "set (seen (touch_at k a now t)) = insert (k, now) (set (seen t))"
    by (metis set_mset_add_mset_insert set_mset_mset)
  then show ?thesis by simp
next
  case (evict p)
  with assms(2) show ?thesis by simp
qed

lemma touch_by_age:
  assumes ok: "lru_ok seen cap t" and age: "by_age seen t L" and later: "\<forall>p \<in> set (seen t). snd p < now"
  obtains L' where "by_age seen (touch_at k a now t) L'"
    and "map fst L' = mru_touch (cap t) k (map fst L)"
proof -
  have L: "mset L = mset (seen t)" "sorted_wrt (\<lambda>p q. snd q < snd p) L" "set L = set (seen t)"
    using age by (auto simp: by_age_def dest: mset_eq_setD)
  have dL: "distinct (map fst L)"
    using ok L(1) by (metis distinct_subseteq_mset lru_ok_def mset_map subset_mset.order_refl)
  have len: "length L = length (seen t)" using L(1) by (metis size_mset)
  from ok show thesis
  proof (cases rule: touch_forms [of t k a now])
    case (hit s)
    let ?L = "(k, now) # filter (\<lambda>p. fst p \<noteq> k) L"
    have "mset ?L = mset (seen (touch_at k a now t))"
      using hit mset_filter_key [OF dL, of k s] L by simp
    moreover have "length (filter (\<lambda>p. fst p \<noteq> k) L) < length L"
      using hit(1) L(3) by (intro length_filter_less) auto
    moreover have "removeAll k (map fst L) = map fst (filter (\<lambda>p. fst p \<noteq> k) L)"
      by (induction L) auto
    ultimately show thesis using L later ok len
      by (intro that [of ?L]) (auto simp: by_age_def lru_ok_def mru_touch_def sorted_wrt_filter)
  next
    case room
    have "removeAll k (map fst L) = map fst L" using room(1) L(3) by (auto simp: removeAll_id)
    with room L later ok len show thesis
      by (intro that [of "(k, now) # L"]) (auto simp: by_age_def lru_ok_def mru_touch_def)
  next
    case (evict p)
    have p: "p = last L" and ne: "L \<noteq> []" using evict L sorted_age_last_least [of L p] by auto
    then have bl: "L = butlast L @ [p]" by simp
    then have "mset L = add_mset p (mset (butlast L))"
      by (metis add_mset_add_single mset.simps(1,2) mset_append)
    then have "mset (seen (touch_at k a now t)) = mset ((k, now) # butlast L)"
      using evict(5) L(1) by simp
    moreover have "sorted_wrt (\<lambda>p q. snd q < snd p) (butlast L)"
      using L(2) bl by (metis sorted_wrt_append)
    moreover have "map fst ((k, now) # butlast L) = mru_touch (cap t) k (map fst L)"
    proof -
      have "removeAll k (map fst L) = map fst L" using evict(1) L(3) by (auto simp: removeAll_id)
      moreover have "cap t = Suc (length L - 1)" using evict(2) len ne by (cases L) auto
      ultimately show ?thesis by (simp add: mru_touch_def butlast_conv_take take_map)
    qed
    ultimately show thesis using later L(3)
      by (intro that [of "(k, now) # butlast L"]) (auto simp: by_age_def dest: in_set_butlastD)
  qed
qed

lemma touches_ok:
  "lru_ok seen cap t \<Longrightarrow> lru_ok seen cap (fold (\<lambda>(k, a, now). touch_at k a now) hs t)"
  by (induction hs arbitrary: t) (auto intro: touch_ok)

lemma touches_cap: "cap (fold (\<lambda>(k, a, now). touch_at k a now) hs t) = cap t"
  by (induction hs arbitrary: t) (auto simp: touch_cap)

lemma touches_most_recent:
  assumes "seen t = []" and "0 < cap t" and "sorted_wrt (<) (map (snd \<circ> snd) hs)"
  shows "\<exists>L. by_age seen (fold (\<lambda>(k, a, now). touch_at k a now) hs t) L
      \<and> map fst L = most_recent (cap t) (map fst hs) \<and> snd ` set L \<subseteq> snd ` snd ` set hs"
  using assms(3)
proof (induction hs rule: rev_induct)
  case Nil
  show ?case using assms(1) by (simp add: by_age_def most_recent_def)
next
  case (snoc h hs)
  obtain k a now where h: "h = (k, a, now)" by (cases h)
  let ?t = "fold (\<lambda>(k, a, now). touch_at k a now) hs t"
  from snoc obtain L where L: "by_age seen ?t L" "map fst L = most_recent (cap t) (map fst hs)"
    "snd ` set L \<subseteq> snd ` snd ` set hs" by (auto simp: sorted_wrt_append)
  have set_L: "set L = set (seen ?t)" using L(1) by (auto simp: by_age_def dest: mset_eq_setD)
  have "\<forall>p \<in> set (seen ?t). snd p < now"
    using snoc.prems L(3) h set_L by (force simp: sorted_wrt_append)
  moreover have ok: "lru_ok seen cap ?t" using assms by (intro touches_ok) (simp add: lru_ok_def)
  ultimately obtain L' where L': "by_age seen (touch_at k a now ?t) L'"
    "map fst L' = mru_touch (cap ?t) k (map fst L)" using L(1) touch_by_age by metis
  have "set L' = set (seen (touch_at k a now ?t))"
    using L'(1) by (auto simp: by_age_def dest: mset_eq_setD)
  then have "snd ` set L' \<subseteq> insert now (snd ` set L)" using touch_times [OF ok, of k a now] set_L by blast
  also have "\<dots> \<subseteq> insert now (snd ` snd ` set hs)" using L(3) by (rule insert_mono)
  also have "\<dots> = snd ` snd ` set (hs @ [h])" by (simp add: h)
  finally have "snd ` set L' \<subseteq> snd ` snd ` set (hs @ [h])" .
  with L' L(2) h assms(2) show ?case
    by (intro exI [of _ L']) (simp add: most_recent_snoc touches_cap)
qed

end

end
