(* ===== verification/Mav_Crc.thy ===== *)
theory Mav_Crc
  imports Prelude
begin

unbundle bit_operations_syntax

text \<open>
  The frame checksum, \<^verbatim>\<open>src/mavlink/crc.rs\<close>: the byte-at-a-time update step, the
  streaming accumulator, and their relation to the bit-serial definition of
  CRC-16-MCRF4XX (reflected polynomial \<open>0x8408\<close>, initial value \<open>0xFFFF\<close>, no final
  complement).
\<close>

section \<open>The routine of the source\<close>

definition CRC_INIT :: u16 where
  "CRC_INIT = 0xFFFF"

definition crc16_update :: "u16 \<Rightarrow> u8 \<Rightarrow> u16" where
  "crc16_update crc byte =
     (let tmp = byte XOR (ucast (crc AND 0xFF) :: u8);
          tmp = tmp XOR push_bit 4 tmp;
          tmp16 = (ucast tmp :: u16)
      in drop_bit 8 crc XOR push_bit 8 tmp16 XOR push_bit 3 tmp16 XOR drop_bit 4 tmp16)"

datatype crc16 = Crc16 (crc_value: u16)

definition crc_new :: crc16 where
  "crc_new = Crc16 CRC_INIT"

definition crc_update :: "crc16 \<Rightarrow> u8 \<Rightarrow> crc16" where
  "crc_update c byte = Crc16 (crc16_update (crc_value c) byte)"

fun crc_update_slice :: "crc16 \<Rightarrow> bytes \<Rightarrow> crc16" where
  "crc_update_slice c [] = c"
| "crc_update_slice c (byte # rest) = crc_update_slice (crc_update c byte) rest"

definition crc_finalize :: "crc16 \<Rightarrow> u16" where
  "crc_finalize c = crc_value c"

section \<open>The bit-serial definition\<close>

definition crc_bit :: "u16 \<Rightarrow> u16" where
  "crc_bit c = (if bit c 0 then drop_bit 1 c XOR 0x8408 else drop_bit 1 c)"

definition crc_byte :: "u16 \<Rightarrow> u8 \<Rightarrow> u16" where
  "crc_byte c byte = (crc_bit ^^ 8) (c XOR ucast byte)"

lemma drop_bit_xor_word: "drop_bit n (a XOR b) = drop_bit n a XOR drop_bit n b" for a b :: "'w::len word"
  by (rule bit_word_eqI) (simp add: bit_simps)

lemma push_bit_xor_word: "push_bit n (a XOR b) = push_bit n a XOR push_bit n b" for a b :: "'w::len word"
  by (rule bit_word_eqI) (auto simp add: bit_simps)

lemma ucast_xor_word: "(ucast (a XOR b) :: 'v::len word) = ucast a XOR ucast b" for a b :: "'w::len word"
  by (rule bit_word_eqI) (auto simp add: bit_simps)

lemma xor_cancel_word: "a XOR c = b XOR c \<longleftrightarrow> a = b" for a b c :: "'w::len word"
  by (auto simp: bit_eq_iff bit_simps)

lemma ucast_word_inj:
  fixes a b :: "'w::len word"
  assumes "LENGTH('w) \<le> LENGTH('v)" and "(ucast a :: 'v::len word) = ucast b"
  shows "a = b"
proof (rule bit_word_eqI)
  fix n
  assume "n < LENGTH('w)"
  moreover from assms(2) have "bit (ucast a :: 'v word) n = bit (ucast b :: 'v word) n" by simp
  ultimately show "bit a n = bit b n" using assms(1) by (simp add: bit_simps)
qed

lemma crc_bit_xor: "crc_bit (a XOR b) = crc_bit a XOR crc_bit b"
  by (auto simp add: crc_bit_def drop_bit_xor_word bit_simps ac_simps)

lemma crc_bits_xor: "(crc_bit ^^ n) (a XOR b) = (crc_bit ^^ n) a XOR (crc_bit ^^ n) b"
  by (induction n) (simp_all add: crc_bit_xor)

lemma take_bit_Suc_xor: "take_bit (Suc n) t = take_bit n t XOR (if bit t n then 2 ^ n else 0)"
  for t :: "'w::len word"
  by (rule bit_word_eqI) (auto simp add: bit_simps less_Suc_eq)

lemma xor_linear_ext:
  fixes f g :: "'w::len word \<Rightarrow> 'v::len word"
  assumes f: "\<And>a b. f (a XOR b) = f a XOR f b" and g: "\<And>a b. g (a XOR b) = g a XOR g b"
    and basis: "\<And>k. k < LENGTH('w) \<Longrightarrow> f (2 ^ k) = g (2 ^ k)"
  shows "f t = g t"
proof -
  have zero: "f 0 = 0" "g 0 = 0"
    using f [of 0 0] g [of 0 0] by simp_all
  have "n \<le> LENGTH('w) \<Longrightarrow> f (take_bit n t) = g (take_bit n t)" for n
  proof (induction n)
    case 0
    then show ?case by (simp add: zero)
  next
    case (Suc n)
    then show ?case by (simp add: take_bit_Suc_xor f g basis zero)
  qed
  from this [of "LENGTH('w)"] show ?thesis by (simp add: take_bit_word_eq_self)
qed

lemma crc_bits8: "(crc_bit ^^ 8) c =
    crc_bit (crc_bit (crc_bit (crc_bit (crc_bit (crc_bit (crc_bit (crc_bit c)))))))"
proof -
  have "(8::nat) = Suc (Suc (Suc (Suc (Suc (Suc (Suc (Suc 0)))))))" by simp
  then show ?thesis by (simp only: funpow.simps comp_apply id_apply)
qed

text \<open>
  Both sides of the next two lemmas are linear over XOR, so they agree everywhere as soon
  as they agree on the powers of two.
\<close>

definition crc_fold8 :: "u8 \<Rightarrow> u16" where
  "crc_fold8 t =
     (let tmp = t XOR push_bit 4 t; tmp16 = (ucast tmp :: u16)
      in push_bit 8 tmp16 XOR push_bit 3 tmp16 XOR drop_bit 4 tmp16)"

lemma crc_bits_low: "(crc_bit ^^ 8) (ucast t) = crc_fold8 t"
proof (rule xor_linear_ext [where f = "\<lambda>t. (crc_bit ^^ 8) (ucast t)" and g = crc_fold8])
  fix k :: nat
  assume "k < LENGTH(8)"
  then have "k \<in> {0, 1, 2, 3, 4, 5, 6, 7}" by auto
  then show "(crc_bit ^^ 8) (ucast (2 ^ k :: u8)) = crc_fold8 (2 ^ k)"
    by (elim insertE emptyE; simp only: crc_bits8; code_simp)
qed (simp_all add: ucast_xor_word crc_bits_xor crc_fold8_def Let_def drop_bit_xor_word
    push_bit_xor_word ac_simps)

lemma crc_bits_high: "(\<And>k. k < n \<Longrightarrow> \<not> bit c k) \<Longrightarrow> (crc_bit ^^ n) c = drop_bit n c"
proof (induction n)
  case 0
  then show ?case by simp
next
  case (Suc n)
  then have "(crc_bit ^^ Suc n) c = crc_bit (drop_bit n c)" by simp
  also have "\<dots> = drop_bit 1 (drop_bit n c)"
    using Suc.prems [of n] by (simp add: crc_bit_def bit_simps)
  finally show ?case by simp
qed

lemma low_high_split: "c = ucast (ucast (c AND 0xFF) :: u8) XOR push_bit 8 (drop_bit 8 c)" for c :: u16
proof (rule bit_word_eqI)
  fix n
  assume "n < LENGTH(16)"
  have "bit (0xFF :: u16) n \<longleftrightarrow> n < 8"
    using bit_mask_iff [where 'a = "16 word", of 8 n] \<open>n < LENGTH(16)\<close>
    by (simp add: mask_eq_exp_minus_1)
  with \<open>n < LENGTH(16)\<close>
  show "bit c n = bit (ucast (ucast (c AND 0xFF) :: u8) XOR push_bit 8 (drop_bit 8 c)) n"
    by (auto simp add: bit_simps)
qed

lemma crc16_update_fold8:
  "crc16_update c b = drop_bit 8 c XOR crc_fold8 (b XOR ucast (c AND 0xFF))"
  by (simp add: crc16_update_def crc_fold8_def Let_def ac_simps)

lemma crc_byte_fold8: "crc_byte c b = drop_bit 8 c XOR crc_fold8 (b XOR ucast (c AND 0xFF))"
proof -
  let ?hi = "push_bit 8 (drop_bit 8 c)" and ?lo = "b XOR ucast (c AND 0xFF)"
  have "c XOR ucast b = ucast ?lo XOR ?hi"
    by (subst (1) low_high_split) (simp add: ucast_xor_word ac_simps)
  then have "crc_byte c b = crc_fold8 ?lo XOR (crc_bit ^^ 8) ?hi"
    by (simp add: crc_byte_def crc_bits_xor crc_bits_low)
  also have "(crc_bit ^^ 8) ?hi = drop_bit 8 ?hi"
    by (rule crc_bits_high) (simp add: bit_simps)
  also have "drop_bit 8 ?hi = drop_bit 8 c"
    by (rule bit_word_eqI) (auto simp add: bit_simps dest: bit_imp_le_length)
  finally show ?thesis by (simp add: ac_simps)
qed

subsection \<open>Injectivity of one step\<close>

lemma crc_bit_inj: "crc_bit a = crc_bit b \<Longrightarrow> a = b"
proof -
  assume eq: "crc_bit a = crc_bit b"
  have top: "bit (crc_bit c) 15 = bit c 0" for c
    by (auto simp add: crc_bit_def bit_simps dest: bit_imp_le_length)
  from eq have b0: "bit a 0 = bit b 0" by (metis top)
  with eq have "drop_bit 1 a = drop_bit 1 b"
    by (auto simp: crc_bit_def xor_cancel_word)
  then have "bit a (Suc n) = bit b (Suc n)" for n
    by (metis bit_drop_bit_eq comp_apply plus_1_eq_Suc)
  with b0 show "a = b" by (metis bit_word_eqI not0_implies_Suc)
qed

lemma crc_bits_inj: "(crc_bit ^^ n) a = (crc_bit ^^ n) b \<Longrightarrow> a = b"
  by (induction n) (auto dest: crc_bit_inj)

lemma crc16_update_byte: "crc16_update c b = crc_byte c b"
  by (simp add: crc16_update_fold8 crc_byte_fold8)

lemma crc16_update_inj_crc: "crc16_update c b = crc16_update d b \<Longrightarrow> c = d"
  by (auto simp: crc16_update_byte crc_byte_def xor_cancel_word dest!: crc_bits_inj)

lemma crc16_update_inj_byte: "crc16_update c a = crc16_update c b \<Longrightarrow> a = b"
  by (auto simp: crc16_update_byte crc_byte_def xor_cancel_word xor.commute [of c]
      dest!: crc_bits_inj intro: ucast_word_inj [where 'v = 16])

subsection \<open>The accumulator\<close>

lemma crc_update_slice_append [simp]:
  "crc_update_slice c (xs @ ys) = crc_update_slice (crc_update_slice c xs) ys"
  by (induction xs arbitrary: c) simp_all

lemma crc_update_slice_inj: "crc_update_slice c xs = crc_update_slice d xs \<Longrightarrow> c = d"
proof (induction xs arbitrary: c d)
  case Nil
  then show ?case by simp
next
  case (Cons x xs)
  from Cons.prems have "crc_update c x = crc_update d x" by (auto dest: Cons.IH)
  then show ?case
    by (cases c; cases d) (auto simp: crc_update_def dest: crc16_update_inj_crc)
qed

lemma crc_published_vector:
  "crc_finalize (crc_update_slice crc_new (map of_char ''123456789'')) = 0x6F91"
  by code_simp

section \<open>Properties\<close>

text \<open>
  C22. The byte-at-a-time routine of \<^verbatim>\<open>crc.rs\<close> computes the bit-serial
  CRC-16-MCRF4XX: over any slice, the accumulator holds what eight shift-and-subtract steps
  of the reflected polynomial \<open>0x8408\<close> per byte leave.
\<close>

theorem crc_slice_is_mcrf4xx:
  "crc_finalize (crc_update_slice c bs) = fold (\<lambda>b r. crc_byte r b) bs (crc_finalize c)"
  by (induction bs arbitrary: c) (simp_all add: crc_finalize_def crc_update_def crc16_update_byte)

text \<open>
  C25. Two messages that differ in exactly one byte never have the same checksum: a
  corruption confined to one byte of a frame is always detected.
\<close>

theorem crc_detects_one_byte_error:
  assumes "a \<noteq> b"
  shows "crc_finalize (crc_update_slice crc_new (xs @ a # ys))
       \<noteq> crc_finalize (crc_update_slice crc_new (xs @ b # ys))"
proof
  assume "crc_finalize (crc_update_slice crc_new (xs @ a # ys))
        = crc_finalize (crc_update_slice crc_new (xs @ b # ys))"
  then have "crc_update (crc_update_slice crc_new xs) a = crc_update (crc_update_slice crc_new xs) b"
    by (auto simp: crc_finalize_def intro: crc_update_slice_inj crc16.expand)
  with assms show False by (auto simp: crc_update_def dest: crc16_update_inj_byte)
qed

theorem crc_detects_one_byte_error_witness:
  "(1 :: u8) \<noteq> 2
   \<and> crc_finalize (crc_update_slice crc_new ([0xFE] @ 1 # [7]))
     \<noteq> crc_finalize (crc_update_slice crc_new ([0xFE] @ 2 # [7]))"
proof -
  have h: "(1 :: u8) \<noteq> 2" by simp
  show ?thesis using h crc_detects_one_byte_error [OF h, of "[0xFE]" "[7]"] by blast
qed

end
