(* ===== verification/Mav_Frame.thy ===== *)
theory Mav_Frame
  imports Mav_Crc
begin

text \<open>
  Wire-format types and constants (\<^verbatim>\<open>src/mavlink/frame.rs\<close>) and the compile-time
  message table with its binary search (\<^verbatim>\<open>src/mavlink/msgid_table.rs\<close>). The table itself
  is generated by the build, so it is an argument of every definition that consults it.
\<close>

section \<open>Versions, start bytes, headers\<close>

datatype version = Version_V1 | Version_V2

definition STX_V1 :: u8 where
  "STX_V1 = 0xFE"

definition STX_V2 :: u8 where
  "STX_V2 = 0xFD"

definition V2_IFLAG_SIGNED :: u8 where
  "V2_IFLAG_SIGNED = 0x01"

definition V2_SIGNATURE_LEN :: nat where
  "V2_SIGNATURE_LEN = 13"

definition V1_HEADER_LEN :: nat where
  "V1_HEADER_LEN = 6"

definition V2_HEADER_LEN :: nat where
  "V2_HEADER_LEN = 10"

definition CRC_LEN :: nat where
  "CRC_LEN = 2"

lemmas frame_consts =
  STX_V1_def STX_V2_def V2_IFLAG_SIGNED_def V2_SIGNATURE_LEN_def V1_HEADER_LEN_def
  V2_HEADER_LEN_def CRC_LEN_def

datatype stx = Stx_V1 | Stx_V2

definition stx_from_byte :: "u8 \<Rightarrow> stx option" where
  "stx_from_byte byte =
     (if byte = STX_V1 then Some Stx_V1 else if byte = STX_V2 then Some Stx_V2 else None)"

fun stx_header_len :: "stx \<Rightarrow> nat" where
  "stx_header_len Stx_V1 = V1_HEADER_LEN"
| "stx_header_len Stx_V2 = V2_HEADER_LEN"

record node_id =
  node_sys :: u8
  node_comp :: u8

definition node_new :: "u8 \<Rightarrow> u8 \<Rightarrow> node_id" where
  "node_new s c = \<lparr>node_sys = s, node_comp = c\<rparr>"

record parsed_header =
  hdr_version :: version
  hdr_source :: node_id
  hdr_msgid :: u32
  hdr_seq :: u8
  hdr_payload_len :: u8
  hdr_target_system :: "u8 option"
  hdr_target_component :: "u8 option"

definition payload_start :: "parsed_header \<Rightarrow> nat" where
  "payload_start h =
     (case hdr_version h of Version_V1 \<Rightarrow> V1_HEADER_LEN | Version_V2 \<Rightarrow> V2_HEADER_LEN)"

section \<open>The message table\<close>

record msg_entry =
  crc_extra :: u8
  target_sys_offset :: "u8 option"
  target_comp_offset :: "u8 option"

type_synonym msg_table = "(u32 \<times> msg_entry) list"

text \<open>
  The loop of \<^verbatim>\<open>slice::binary_search_by\<close>: halve the window, keeping its base at or below
  the position searched for. The window always lies inside the table, which the lemmas below
  establish, so no read is out of range.
\<close>

function bsearch_base :: "msg_table \<Rightarrow> u32 \<Rightarrow> nat \<Rightarrow> nat \<Rightarrow> nat" where
  "bsearch_base tbl key base n =
     (if n \<le> 1 then base
      else let half = n div 2; mid = base + half
           in bsearch_base tbl key (if fst (tbl ! mid) > key then base else mid) (n - half))"
  by pat_completeness auto
termination
  by (relation "measure (\<lambda>(tbl, key, base, n). n)") auto

declare bsearch_base.simps [simp del]

definition binary_search_by_key :: "msg_table \<Rightarrow> u32 \<Rightarrow> nat option" where
  "binary_search_by_key tbl key =
     (if tbl = [] then None
      else let base = bsearch_base tbl key 0 (length tbl)
           in if fst (tbl ! base) = key then Some base else None)"

definition msg_lookup :: "msg_table \<Rightarrow> u32 \<Rightarrow> msg_entry option" where
  "msg_lookup tbl msgid = map_option (\<lambda>i. snd (tbl ! i)) (binary_search_by_key tbl msgid)"

definition table_sorted :: "msg_table \<Rightarrow> bool" where
  "table_sorted tbl \<longleftrightarrow> sorted_wrt (<) (map fst tbl)"

lemma bsearch_base_in_range:
  "0 < n \<Longrightarrow> base \<le> bsearch_base tbl key base n \<and> bsearch_base tbl key base n < base + n"
proof (induction tbl key base n rule: bsearch_base.induct)
  case (1 tbl key base n)
  show ?case
  proof (cases "n \<le> 1")
    case True
    with "1.prems" show ?thesis by (simp add: bsearch_base.simps [of tbl key base n])
  next
    case False
    let ?b = "if fst (tbl ! (base + n div 2)) > key then base else base + n div 2"
    from False have "0 < n - n div 2" by linarith
    from "1.IH" [OF False refl refl this]
    have "?b \<le> bsearch_base tbl key ?b (n - n div 2)
        \<and> bsearch_base tbl key ?b (n - n div 2) < ?b + (n - n div 2)" .
    then have "?b \<le> bsearch_base tbl key base n
        \<and> bsearch_base tbl key base n < ?b + (n - n div 2)"
      using False by (simp add: bsearch_base.simps [of tbl key base n] Let_def)
    moreover have "?b + (n - n div 2) \<le> base + n" using False by (auto split: if_splits)
    moreover have "base \<le> ?b" by simp
    ultimately show ?thesis by linarith
  qed
qed

text \<open>
  On a sorted table the window keeps the property that everything from its end on is above
  the key, and everything up to its base, if the base moved, is not.
\<close>

lemma bsearch_base_finds:
  assumes "sorted_wrt (<) (map fst tbl)" and "base + n \<le> length tbl" and "base \<le> i"
    and "i < base + n" and "fst (tbl ! i) = key"
  shows "bsearch_base tbl key base n = i"
  using assms
proof (induction tbl key base n rule: bsearch_base.induct)
  case (1 tbl key base n)
  have less: "fst (tbl ! j) < fst (tbl ! k)" if "j < k" "k < length tbl" for j k
    using sorted_wrt_nth_less [OF "1.prems"(1), of j k] that by simp
  show ?case
  proof (cases "n \<le> 1")
    case True
    with "1.prems" show ?thesis by (simp add: bsearch_base.simps [of tbl key base n])
  next
    case False
    let ?mid = "base + n div 2"
    let ?b = "if fst (tbl ! ?mid) > key then base else ?mid"
    have mid: "?mid < length tbl" using False "1.prems"(2) by linarith
    have "?b \<le> i \<and> i < ?b + (n - n div 2)"
    proof (cases "fst (tbl ! ?mid) > key")
      case True
      have "i < ?mid"
      proof (rule ccontr)
        assume "\<not> i < ?mid"
        then have "?mid = i \<or> ?mid < i" by linarith
        with less [of ?mid i] "1.prems"(2,4,5) True show False by (auto simp: not_less_iff_gr_or_eq)
      qed
      with True "1.prems"(3) show ?thesis by simp
    next
      case no: False
      have "?mid \<le> i"
      proof (rule ccontr)
        assume "\<not> ?mid \<le> i"
        with less [of i ?mid] mid "1.prems"(5) no show False by simp
      qed
      with no "1.prems"(4) show ?thesis by simp
    qed
    moreover have "?b + (n - n div 2) \<le> length tbl" using "1.prems"(2) by (simp, linarith)
    ultimately have "bsearch_base tbl key ?b (n - n div 2) = i"
      using "1.IH" [OF False refl refl "1.prems"(1)] "1.prems"(5) by blast
    with False show ?thesis by (simp add: bsearch_base.simps [of tbl key base n] Let_def)
  qed
qed

lemma msg_lookup_Some_in: "msg_lookup tbl m = Some e \<Longrightarrow> (m, e) \<in> set tbl"
proof -
  assume "msg_lookup tbl m = Some e"
  then obtain i where "binary_search_by_key tbl m = Some i" and e: "e = snd (tbl ! i)"
    by (auto simp: msg_lookup_def)
  then have "tbl \<noteq> []" and "i = bsearch_base tbl m 0 (length tbl)" and "fst (tbl ! i) = m"
    by (auto simp: binary_search_by_key_def Let_def split: if_splits)
  moreover from this(1) bsearch_base_in_range [of "length tbl" 0 tbl m] this(2)
  have "i < length tbl" by simp
  ultimately show ?thesis using e by (metis nth_mem prod.collapse)
qed

section \<open>Properties\<close>

text \<open>
  On a table sorted by message id, which the build produces, the binary search returns
  the entry of exactly the id asked for: it is the plain search through the table.
\<close>

theorem msg_lookup_is_map_of:
  assumes "table_sorted tbl"
  shows "msg_lookup tbl m = map_of tbl m"
proof (cases "map_of tbl m")
  case None
  have "msg_lookup tbl m = None"
  proof (rule ccontr)
    assume "msg_lookup tbl m \<noteq> None"
    then obtain e where "(m, e) \<in> set tbl" using msg_lookup_Some_in by fastforce
    with None show False by (force simp: map_of_eq_None_iff)
  qed
  with None show ?thesis by simp
next
  case (Some e)
  from assms have sorted: "sorted_wrt (<) (map fst tbl)" by (simp add: table_sorted_def)
  from Some have "(m, e) \<in> set tbl" by (rule map_of_SomeD)
  then obtain i where i: "i < length tbl" "tbl ! i = (m, e)" by (auto simp: in_set_conv_nth)
  with bsearch_base_finds [OF sorted, of 0 "length tbl" i m]
  have "bsearch_base tbl m 0 (length tbl) = i" by simp
  with i have "binary_search_by_key tbl m = Some i" by (auto simp: binary_search_by_key_def)
  with i Some show ?thesis by (simp add: msg_lookup_def)
qed

theorem msg_lookup_is_map_of_witness:
  "table_sorted [(0, \<lparr>crc_extra = 50, target_sys_offset = None, target_comp_offset = None\<rparr>),
                 (4, \<lparr>crc_extra = 237, target_sys_offset = Some 12, target_comp_offset = Some 13\<rparr>)]
   \<and> msg_lookup [(0, \<lparr>crc_extra = 50, target_sys_offset = None, target_comp_offset = None\<rparr>),
                 (4, \<lparr>crc_extra = 237, target_sys_offset = Some 12, target_comp_offset = Some 13\<rparr>)] 4
     = Some \<lparr>crc_extra = 237, target_sys_offset = Some 12, target_comp_offset = Some 13\<rparr>"
proof -
  let ?tbl = "[(0, \<lparr>crc_extra = 50, target_sys_offset = None, target_comp_offset = None\<rparr>),
    (4, \<lparr>crc_extra = 237, target_sys_offset = Some 12, target_comp_offset = Some 13\<rparr>)]"
  have h: "table_sorted ?tbl" by (simp add: table_sorted_def)
  show ?thesis using h msg_lookup_is_map_of [OF h, of 4] by simp
qed

end
