(* ===== verification/Learn.thy ===== *)
theory Learn
  imports Lru Mav_Frame
begin

text \<open>
  The learn table, \<^verbatim>\<open>src/router/learn.rs\<close>: which MAVLink nodes were heard on an endpoint,
  bounded, with the entry not heard for the longest time dropped first.
\<close>

section \<open>The table\<close>

record learn_entry =
  le_node :: node_id
  le_last_seen :: instant

record learn_table =
  lt_entries :: "learn_entry list"
  lt_capacity :: nat

definition learn_new :: "nat \<Rightarrow> learn_table" where
  "learn_new capacity = \<lparr>lt_entries = [], lt_capacity = max capacity 1\<rparr>"

definition learn_find :: "learn_table \<Rightarrow> node_id \<Rightarrow> learn_entry option" where
  "learn_find t node = find (\<lambda>entry. le_node entry = node) (lt_entries t)"

definition learn_evict_oldest :: "learn_table \<Rightarrow> learn_table" where
  "learn_evict_oldest t =
     (case min_index le_last_seen (lt_entries t) of
        None \<Rightarrow> t
      | Some index \<Rightarrow> t\<lparr>lt_entries := swap_remove index (lt_entries t)\<rparr>)"

text \<open>The mutable borrow of \<^verbatim>\<open>find_mut\<close> is a write through \<^const>\<open>update_first\<close>.\<close>

definition learn_touch :: "node_id \<Rightarrow> instant \<Rightarrow> learn_table \<Rightarrow> learn_table \<times> bool" where
  "learn_touch node now t =
     (case learn_find t node of
        Some _ \<Rightarrow>
          (t\<lparr>lt_entries := update_first (\<lambda>entry. le_node entry = node)
               (\<lambda>entry. entry\<lparr>le_last_seen := now\<rparr>) (lt_entries t)\<rparr>, False)
      | None \<Rightarrow>
          let t' = (if lt_capacity t \<le> length (lt_entries t) then learn_evict_oldest t else t)
          in (t'\<lparr>lt_entries := lt_entries t' @ [\<lparr>le_node = node, le_last_seen = now\<rparr>]\<rparr>, True))"

definition learn_contains :: "learn_table \<Rightarrow> node_id \<Rightarrow> bool" where
  "learn_contains t node = (learn_find t node \<noteq> None)"

definition learn_contains_sys :: "learn_table \<Rightarrow> u8 \<Rightarrow> bool" where
  "learn_contains_sys t s = list_ex (\<lambda>entry. node_sys (le_node entry) = s) (lt_entries t)"

definition learn_len :: "learn_table \<Rightarrow> nat" where
  "learn_len t = length (lt_entries t)"

section \<open>The table is an LRU table\<close>

definition learn_seen :: "learn_table \<Rightarrow> (node_id \<times> instant) list" where
  "learn_seen t = map (\<lambda>entry. (le_node entry, le_last_seen entry)) (lt_entries t)"

definition learned :: "learn_table \<Rightarrow> node_id set" where
  "learned t = le_node ` set (lt_entries t)"

lemma learn_find_None: "learn_find t node = None \<longleftrightarrow> node \<notin> learned t"
  by (simp add: learn_find_def find_None_key learned_def)

lemma learn_contains_learned: "learn_contains t node \<longleftrightarrow> node \<in> learned t"
  by (simp add: learn_contains_def learn_find_None)

lemma learn_contains_sys_learned: "learn_contains_sys t s \<longleftrightarrow> (\<exists>node \<in> learned t. node_sys node = s)"
  by (auto simp: learn_contains_sys_def list_ex_iff learned_def)

lemma learned_seen: "learned t = fst ` set (learn_seen t)"
  by (auto simp: learned_def learn_seen_def image_iff)

lemma learned_new [simp]: "learned (learn_new c) = {}"
  by (simp add: learned_def learn_new_def)

lemma learn_evict_simps [simp]: "lt_capacity (learn_evict_oldest t) = lt_capacity t"
  by (simp add: learn_evict_oldest_def split: option.split)

lemma keys_seen: "map fst (learn_seen t) = map le_node (lt_entries t)"
  by (simp add: learn_seen_def o_def)

interpretation learn_lru: lru_table learn_seen lt_capacity "\<lambda>node (_ :: unit) now t. fst (learn_touch node now t)"
proof unfold_locales
  fix node :: node_id and a :: unit and now s :: instant and t :: learn_table
  show "lt_capacity (fst (learn_touch node now t)) = lt_capacity t"
    by (simp add: learn_touch_def Let_def split: option.split)
  show "mset (learn_seen (fst (learn_touch node now t))) = add_mset (node, now) (mset (learn_seen t) - {#(node, s)#})"
    if "distinct (map fst (learn_seen t))" "(node, s) \<in> set (learn_seen t)"
  proof -
    from that(2) obtain e where e: "e \<in> set (lt_entries t)" "le_node e = node" "le_last_seen e = s"
      by (auto simp: learn_seen_def)
    then have "learn_find t node \<noteq> None" by (auto simp: learn_find_None learned_def)
    moreover from that(1) have "distinct (map le_node (lt_entries t))" by (simp add: keys_seen)
    note refresh_mset [OF this e(1,2), of "\<lambda>entry. (le_node entry, le_last_seen entry)" "\<lambda>entry. entry\<lparr>le_last_seen := now\<rparr>"]
    ultimately show ?thesis using e by (auto simp: learn_touch_def learn_seen_def)
  qed
  assume new: "node \<notin> fst ` set (learn_seen t)"
  then have none: "learn_find t node = None" by (simp add: learn_find_None learned_seen)
  show "mset (learn_seen (fst (learn_touch node now t))) = add_mset (node, now) (mset (learn_seen t))"
    if "length (learn_seen t) < lt_capacity t"
    using that none by (simp add: learn_touch_def learn_seen_def)
  show "\<exists>p \<in> set (learn_seen t). (\<forall>q \<in> set (learn_seen t). snd p \<le> snd q)
      \<and> mset (learn_seen (fst (learn_touch node now t))) = add_mset (node, now) (mset (learn_seen t) - {#p#})"
    if full: "lt_capacity t \<le> length (learn_seen t)" and ne: "learn_seen t \<noteq> []"
  proof -
    from ne obtain i where i: "min_index le_last_seen (lt_entries t) = Some i"
      by (cases "min_index le_last_seen (lt_entries t)") (auto simp: learn_seen_def)
    from drop_oldest_mset [OF i, of le_node] full none i show ?thesis
      by (auto simp: learn_touch_def learn_evict_oldest_def learn_seen_def Let_def)
  qed
qed

abbreviation learn_ok :: "learn_table \<Rightarrow> bool" where
  "learn_ok \<equiv> lru_ok learn_seen lt_capacity"

lemma learn_new_ok [simp]: "learn_ok (learn_new c)"
  by (simp add: lru_ok_def learn_new_def learn_seen_def)

lemma learn_touch_ok [intro]: "learn_ok t \<Longrightarrow> learn_ok (fst (learn_touch node now t))"
  using learn_lru.touch_ok by simp

lemma learned_touch_self: "learn_ok t \<Longrightarrow> node \<in> learned (fst (learn_touch node now t))"
  using learn_lru.touch_present [of t node now] by (force simp: learned_seen)

lemma learned_touch_subset: "learn_ok t \<Longrightarrow> learned (fst (learn_touch node now t)) \<subseteq> insert node (learned t)"
  using learn_lru.touch_keys [of t node now] by (simp add: learned_seen)

lemma learn_touch_new: "snd (learn_touch node now t) \<longleftrightarrow> node \<notin> learned t"
  by (simp add: learn_touch_def learn_find_None [symmetric] Let_def split: option.split)

section \<open>Properties\<close>

text \<open>
  C10. The learn table holds exactly the nodes heard most recently: after any history of
  sightings at increasing times, a node is in the table if and only if it is among the
  \<^verbatim>\<open>capacity\<close> most recently sighted distinct nodes (a capacity of 0 counts as 1).
\<close>

theorem learn_table_holds_most_recent:
  assumes "sorted_wrt (<) (map snd sightings)"
  shows "learn_contains (fold (\<lambda>(node, now) t. fst (learn_touch node now t)) sightings (learn_new capacity)) node
    \<longleftrightarrow> node \<in> set (most_recent (max capacity 1) (map fst sightings))"
proof -
  let ?hs = "map (\<lambda>(node, now). (node, (), now)) sightings"
  let ?t = "fold (\<lambda>(node, now) t. fst (learn_touch node now t)) sightings (learn_new capacity)"
  have f: "fold (\<lambda>(k, a, now) t. fst (learn_touch k now t)) ?hs t
      = fold (\<lambda>(node, now) t. fst (learn_touch node now t)) sightings t" for t
    by (induction sightings arbitrary: t) auto
  have m: "map (snd \<circ> snd) ?hs = map snd sightings" "map fst ?hs = map fst sightings"
    by (induction sightings) auto
  have n: "learn_seen (learn_new capacity) = []" "lt_capacity (learn_new capacity) = max capacity 1"
    by (simp_all add: learn_new_def learn_seen_def)
  from learn_lru.touches_most_recent [of "learn_new capacity" ?hs, unfolded f m n] assms
  obtain L where "by_age learn_seen ?t L" "map fst L = most_recent (max capacity 1) (map fst sightings)"
    by (auto simp: less_max_iff_disj)
  moreover from this(1) have "learned ?t = set (map fst L)" by (simp add: learned_seen by_age_set)
  ultimately show ?thesis by (simp add: learn_contains_learned)
qed

theorem learn_table_holds_most_recent_witness:
  "learn_contains (fold (\<lambda>(node, now) t. fst (learn_touch node now t))
     [(node_new 1 1, 10), (node_new 2 1, 20), (node_new 1 1, 30), (node_new 3 1, 40)] (learn_new 2)) (node_new 1 1)
   \<and> \<not> learn_contains (fold (\<lambda>(node, now) t. fst (learn_touch node now t))
     [(node_new 1 1, 10), (node_new 2 1, 20), (node_new 1 1, 30), (node_new 3 1, 40)] (learn_new 2)) (node_new 2 1)"
  using learn_table_holds_most_recent
      [of "[(node_new 1 1, 10), (node_new 2 1, 20), (node_new 1 1, 30), (node_new 3 1, 40)]" 2 "node_new 1 1"]
    learn_table_holds_most_recent
      [of "[(node_new 1 1, 10), (node_new 2 1, 20), (node_new 1 1, 30), (node_new 3 1, 40)]" 2 "node_new 2 1"]
  by (simp add: most_recent_def node_new_def)

end
