(* ===== verification/Spec_Error.thy ===== *)
theory Spec_Error
  imports Rust_Text
begin

text \<open>
  Endpoint schemes and the errors of the endpoint grammar (\<^verbatim>\<open>src/endpoint/spec/mod.rs\<close>,
  \<^verbatim>\<open>error.rs\<close>, \<^verbatim>\<open>bounds.rs\<close>), and the value checks that several keys share.
\<close>

section \<open>Schemes\<close>

datatype scheme = Scheme_Serial | Scheme_UdpServer | Scheme_UdpClient | Scheme_TcpServer | Scheme_TcpClient

fun scheme_as_str :: "scheme \<Rightarrow> string" where
  "scheme_as_str Scheme_Serial = ''serial''"
| "scheme_as_str Scheme_UdpServer = ''udps''"
| "scheme_as_str Scheme_UdpClient = ''udpc''"
| "scheme_as_str Scheme_TcpServer = ''tcps''"
| "scheme_as_str Scheme_TcpClient = ''tcpc''"

definition scheme_try_from_str :: "string \<Rightarrow> scheme option" where
  "scheme_try_from_str raw =
     (if raw = ''serial'' then Some Scheme_Serial
      else if raw = ''udps'' then Some Scheme_UdpServer
      else if raw = ''udpc'' then Some Scheme_UdpClient
      else if raw = ''tcps'' then Some Scheme_TcpServer
      else if raw = ''tcpc'' then Some Scheme_TcpClient
      else None)"

section \<open>Errors\<close>

datatype spec_error =
    MissingScheme string
  | UnknownScheme string
  | InvalidName string
  | UnknownQueryKey scheme string "string option"
  | MalformedQuery string
  | DuplicateQueryKey string
  | MalformedBody scheme string string
  | InvalidQueryValue string string

definition fmt_suggestion :: "string option \<Rightarrow> string" where
  "fmt_suggestion s = (case s of Some t \<Rightarrow> '' (did you mean '' @ quoted t @ ''?)'' | None \<Rightarrow> '''')"

fun spec_error_display :: "spec_error \<Rightarrow> string" where
  "spec_error_display (MissingScheme s) =
     ''missing scheme in '' @ quoted s @ '' (expected one of: 'serial:', 'udps:', 'udpc:', 'tcps:', 'tcpc:')''"
| "spec_error_display (UnknownScheme s) =
     ''unknown scheme '' @ quoted s @ '' (valid: serial, udps, udpc, tcps, tcpc)''"
| "spec_error_display (InvalidName s) =
     ''invalid endpoint name '' @ quoted s @ '': must match [A-Za-z0-9_-]+''"
| "spec_error_display (UnknownQueryKey scheme key suggestion) =
     ''unknown query key '' @ quoted key @ '' for scheme '' @ quoted (scheme_as_str scheme)
     @ fmt_suggestion suggestion"
| "spec_error_display (MalformedQuery s) = ''malformed query string: '' @ s"
| "spec_error_display (DuplicateQueryKey s) = ''duplicate query key '' @ quoted s"
| "spec_error_display (MalformedBody scheme body reason) =
     ''malformed body for scheme '' @ quoted (scheme_as_str scheme) @ '': '' @ quoted body
     @ '' ('' @ reason @ '')''"
| "spec_error_display (InvalidQueryValue key reason) =
     ''invalid value for '' @ quoted key @ '': '' @ reason"

section \<open>Shared value checks\<close>

definition scheme_from_cli_prefix :: "string \<Rightarrow> (spec_error, scheme) res" where
  "scheme_from_cli_prefix raw = ok_or (scheme_try_from_str raw) (UnknownScheme raw)"

definition check_u64_range :: "u64 \<Rightarrow> string \<Rightarrow> u64 \<Rightarrow> u64 \<Rightarrow> (spec_error, u64) res" where
  "check_u64_range value key lo hi =
     (if value < lo \<or> value > hi
      then Inl (InvalidQueryValue key
             (''must be in '' @ dec_word lo @ ''..='' @ dec_word hi @ '', got '' @ dec_word value))
      else Inr value)"

definition name_matches_regex :: "string \<Rightarrow> bool" where
  "name_matches_regex name =
     (name \<noteq> [] \<and> list_all (\<lambda>c. is_ascii_alphanumeric c \<or> c = CHR ''_'' \<or> c = CHR ''-'') name)"

definition validate_name :: "string \<Rightarrow> (spec_error, unit) res" where
  "validate_name name = (if \<not> name_matches_regex name then Inl (InvalidName name) else Inr ())"

definition validate_name_value :: "string \<Rightarrow> string \<Rightarrow> (spec_error, unit) res" where
  "validate_name_value value key =
     (if name_matches_regex value then Inr ()
      else Inl (InvalidQueryValue key (quoted value @ '': must match [A-Za-z0-9_-]+'')))"

definition sanitize_for_name :: "string \<Rightarrow> string" where
  "sanitize_for_name text =
     map (\<lambda>ch. if is_ascii_alphanumeric ch \<or> ch = CHR ''_'' \<or> ch = CHR ''-'' then ch else CHR ''_'') text"

definition parse_bool :: "string \<Rightarrow> string \<Rightarrow> (spec_error, bool) res" where
  "parse_bool value key =
     (if value = ''true'' then Inr True
      else if value = ''false'' then Inr False
      else Inl (InvalidQueryValue key (''expected 'true' or 'false', got '' @ quoted value)))"

definition parse_u64_value :: "string \<Rightarrow> string \<Rightarrow> (spec_error, u64) res" where
  "parse_u64_value value key =
     ok_or (parse_u64 value) (InvalidQueryValue key (''expected a non-negative integer, got '' @ quoted value))"

lemma scheme_round_trip: "scheme_try_from_str (scheme_as_str s) = Some s"
  by (cases s) (simp_all add: scheme_try_from_str_def)

lemma scheme_try_from_str_Some: "scheme_try_from_str raw = Some s \<longleftrightarrow> raw = scheme_as_str s"
  by (cases s) (auto simp: scheme_try_from_str_def)

lemma sanitize_matches: "text \<noteq> [] \<Longrightarrow> name_matches_regex (sanitize_for_name text)"
  by (auto simp: name_matches_regex_def sanitize_for_name_def list_all_iff)

end
