(* ===== verification/Filters.thy ===== *)
theory Filters
  imports Spec_Error Mav_Frame
begin

text \<open>
  The filter lists of an endpoint and their text form, \<^verbatim>\<open>src/endpoint/filters.rs\<close>, and the
  identity bundle around them, \<^verbatim>\<open>src/endpoint/identity_flags.rs\<close>.
\<close>

section \<open>Ranges and lists\<close>

record msgid_range =
  mr_lo :: u32
  mr_hi :: u32

definition msgid_single :: "u32 \<Rightarrow> msgid_range" where
  "msgid_single value = \<lparr>mr_lo = value, mr_hi = value\<rparr>"

definition msgid_contains :: "msgid_range \<Rightarrow> u32 \<Rightarrow> bool" where
  "msgid_contains r value = (mr_lo r \<le> value \<and> value \<le> mr_hi r)"

record u8_range =
  ur_lo :: u8
  ur_hi :: u8

definition u8_single :: "u8 \<Rightarrow> u8_range" where
  "u8_single value = \<lparr>ur_lo = value, ur_hi = value\<rparr>"

definition u8_contains :: "u8_range \<Rightarrow> u8 \<Rightarrow> bool" where
  "u8_contains r value = (ur_lo r \<le> value \<and> value \<le> ur_hi r)"

record filters =
  allow_msgid_in :: "msgid_range list"
  block_msgid_in :: "msgid_range list"
  allow_msgid_out :: "msgid_range list"
  block_msgid_out :: "msgid_range list"
  allow_src_sys_in :: "u8_range list"
  block_src_sys_in :: "u8_range list"
  allow_src_sys_out :: "u8_range list"
  block_src_sys_out :: "u8_range list"
  allow_src_comp_in :: "u8_range list"
  block_src_comp_in :: "u8_range list"
  allow_src_comp_out :: "u8_range list"
  block_src_comp_out :: "u8_range list"
  allow_src_endpoint_out :: "string list"
  block_src_endpoint_out :: "string list"

definition filters_default :: filters where
  "filters_default = \<lparr>allow_msgid_in = [], block_msgid_in = [], allow_msgid_out = [], block_msgid_out = [], allow_src_sys_in = [], block_src_sys_in = [], allow_src_sys_out = [], block_src_sys_out = [], allow_src_comp_in = [], block_src_comp_in = [], allow_src_comp_out = [], block_src_comp_out = [], allow_src_endpoint_out = [], block_src_endpoint_out = []\<rparr>"

definition FILTER_KEYS :: "string list" where
  "FILTER_KEYS =
     [''allow_msgid_in'',
      ''allow_msgid_out'',
      ''allow_src_comp_in'',
      ''allow_src_comp_out'',
      ''allow_src_endpoint_out'',
      ''allow_src_sys_in'',
      ''allow_src_sys_out'',
      ''block_msgid_in'',
      ''block_msgid_out'',
      ''block_src_comp_in'',
      ''block_src_comp_out'',
      ''block_src_endpoint_out'',
      ''block_src_sys_in'',
      ''block_src_sys_out'']"

section \<open>Decisions\<close>

definition pass_msgid_axis :: "u32 \<Rightarrow> msgid_range list \<Rightarrow> msgid_range list \<Rightarrow> bool" where
  "pass_msgid_axis value allow block =
     (if allow \<noteq> [] \<and> \<not> list_ex (\<lambda>r. msgid_contains r value) allow then False
      else \<not> list_ex (\<lambda>r. msgid_contains r value) block)"

definition pass_u8_axis :: "u8 \<Rightarrow> u8_range list \<Rightarrow> u8_range list \<Rightarrow> bool" where
  "pass_u8_axis value allow block =
     (if allow \<noteq> [] \<and> \<not> list_ex (\<lambda>r. u8_contains r value) allow then False
      else \<not> list_ex (\<lambda>r. u8_contains r value) block)"

definition pass_src_endpoint_axis :: "string \<Rightarrow> string list \<Rightarrow> string list \<Rightarrow> bool" where
  "pass_src_endpoint_axis name allow block =
     (if allow \<noteq> [] \<and> \<not> list_ex (\<lambda>entry. entry = name) allow then False
      else \<not> list_ex (\<lambda>entry. entry = name) block)"

definition passes_in_filter :: "filters \<Rightarrow> u32 \<Rightarrow> node_id \<Rightarrow> bool" where
  "passes_in_filter f msgid src =
     (pass_msgid_axis msgid (allow_msgid_in f) (block_msgid_in f)
      \<and> pass_u8_axis (node_sys src) (allow_src_sys_in f) (block_src_sys_in f)
      \<and> pass_u8_axis (node_comp src) (allow_src_comp_in f) (block_src_comp_in f))"

definition passes_out_filter :: "filters \<Rightarrow> u32 \<Rightarrow> node_id \<Rightarrow> string \<Rightarrow> bool" where
  "passes_out_filter f msgid src src_endpoint_name =
     (pass_msgid_axis msgid (allow_msgid_out f) (block_msgid_out f)
      \<and> pass_u8_axis (node_sys src) (allow_src_sys_out f) (block_src_sys_out f)
      \<and> pass_u8_axis (node_comp src) (allow_src_comp_out f) (block_src_comp_out f)
      \<and> pass_src_endpoint_axis src_endpoint_name (allow_src_endpoint_out f) (block_src_endpoint_out f))"

definition src_endpoint_out_entries :: "filters \<Rightarrow> (string \<times> string) list" where
  "src_endpoint_out_entries f =
     map (\<lambda>entry. (''allow_src_endpoint_out'', entry)) (allow_src_endpoint_out f)
     @ map (\<lambda>entry. (''block_src_endpoint_out'', entry)) (block_src_endpoint_out f)"

section \<open>Parsing\<close>

definition parse_range_pair_u32 :: "string \<Rightarrow> string \<Rightarrow> (spec_error, u32 \<times> u32) res" where
  "parse_range_pair_u32 item key =
     and_then
       (case split_once CHR ''-'' item of
          Some (lo_text, hi_text) \<Rightarrow>
            and_then (ok_or (parse_u32 (trim lo_text))
              (InvalidQueryValue key (''range lower bound '' @ quoted lo_text @ '' is not a decimal integer'')))
            (\<lambda>lo. and_then (ok_or (parse_u32 (trim hi_text))
              (InvalidQueryValue key (''range upper bound '' @ quoted hi_text @ '' is not a decimal integer'')))
            (\<lambda>hi. Inr (lo, hi)))
        | None \<Rightarrow>
            and_then (ok_or (parse_u32 item)
              (InvalidQueryValue key (quoted item @ '' is not a decimal integer or 'lo-hi' range'')))
            (\<lambda>value. Inr (value, value)))
       (\<lambda>(lo, hi).
          if lo > hi
          then Inl (InvalidQueryValue key (''range '' @ dec_word lo @ ''-'' @ dec_word hi @ '' has lo > hi''))
          else Inr (lo, hi))"

definition parse_msgid_ranges :: "string \<Rightarrow> string \<Rightarrow> (spec_error, msgid_range list) res" where
  "parse_msgid_ranges value key =
     collect (\<lambda>item.
       let item = trim item
       in if item = [] then Inl (InvalidQueryValue key (''empty entry in '' @ quoted value))
          else and_then (parse_range_pair_u32 item key) (\<lambda>(lo, hi). Inr \<lparr>mr_lo = lo, mr_hi = hi\<rparr>))
       (split_on CHR '','' value)"

definition parse_u8_ranges :: "string \<Rightarrow> string \<Rightarrow> (spec_error, u8_range list) res" where
  "parse_u8_ranges value key =
     collect (\<lambda>item.
       let item = trim item
       in if item = [] then Inl (InvalidQueryValue key (''empty entry in '' @ quoted value))
          else and_then (parse_range_pair_u32 item key) (\<lambda>(lo, hi).
            if lo > 255 \<or> hi > 255
            then Inl (InvalidQueryValue key (''value out of u8 range in '' @ quoted item))
            else Inr \<lparr>ur_lo = ucast lo, ur_hi = ucast hi\<rparr>))
       (split_on CHR '','' value)"

definition parse_endpoint_name_list :: "string \<Rightarrow> string \<Rightarrow> (spec_error, string list) res" where
  "parse_endpoint_name_list value key =
     collect (\<lambda>item.
       let item = trim item
       in if item = [] then Inl (InvalidQueryValue key (''empty entry in '' @ quoted value))
          else and_then (validate_name_value item key) (\<lambda>_. Inr item))
       (split_on CHR '','' value)"

definition filters_apply :: "string \<Rightarrow> string \<Rightarrow> filters \<Rightarrow> (spec_error, filters \<times> bool) res" where
  "filters_apply key value f =
     (if key = ''allow_msgid_in'' then
        and_then (parse_msgid_ranges value key) (\<lambda>xs. Inr (f\<lparr>allow_msgid_in := xs\<rparr>, True))
      else if key = ''block_msgid_in'' then
        and_then (parse_msgid_ranges value key) (\<lambda>xs. Inr (f\<lparr>block_msgid_in := xs\<rparr>, True))
      else if key = ''allow_msgid_out'' then
        and_then (parse_msgid_ranges value key) (\<lambda>xs. Inr (f\<lparr>allow_msgid_out := xs\<rparr>, True))
      else if key = ''block_msgid_out'' then
        and_then (parse_msgid_ranges value key) (\<lambda>xs. Inr (f\<lparr>block_msgid_out := xs\<rparr>, True))
      else if key = ''allow_src_sys_in'' then
        and_then (parse_u8_ranges value key) (\<lambda>xs. Inr (f\<lparr>allow_src_sys_in := xs\<rparr>, True))
      else if key = ''block_src_sys_in'' then
        and_then (parse_u8_ranges value key) (\<lambda>xs. Inr (f\<lparr>block_src_sys_in := xs\<rparr>, True))
      else if key = ''allow_src_sys_out'' then
        and_then (parse_u8_ranges value key) (\<lambda>xs. Inr (f\<lparr>allow_src_sys_out := xs\<rparr>, True))
      else if key = ''block_src_sys_out'' then
        and_then (parse_u8_ranges value key) (\<lambda>xs. Inr (f\<lparr>block_src_sys_out := xs\<rparr>, True))
      else if key = ''allow_src_comp_in'' then
        and_then (parse_u8_ranges value key) (\<lambda>xs. Inr (f\<lparr>allow_src_comp_in := xs\<rparr>, True))
      else if key = ''block_src_comp_in'' then
        and_then (parse_u8_ranges value key) (\<lambda>xs. Inr (f\<lparr>block_src_comp_in := xs\<rparr>, True))
      else if key = ''allow_src_comp_out'' then
        and_then (parse_u8_ranges value key) (\<lambda>xs. Inr (f\<lparr>allow_src_comp_out := xs\<rparr>, True))
      else if key = ''block_src_comp_out'' then
        and_then (parse_u8_ranges value key) (\<lambda>xs. Inr (f\<lparr>block_src_comp_out := xs\<rparr>, True))
      else if key = ''allow_src_endpoint_out'' then
        and_then (parse_endpoint_name_list value key) (\<lambda>xs. Inr (f\<lparr>allow_src_endpoint_out := xs\<rparr>, True))
      else if key = ''block_src_endpoint_out'' then
        and_then (parse_endpoint_name_list value key) (\<lambda>xs. Inr (f\<lparr>block_src_endpoint_out := xs\<rparr>, True))
      else Inr (f, False))"

section \<open>Identity\<close>

definition LEARN_CAPACITY :: nat where
  "LEARN_CAPACITY = 32"

definition SEQ_TRACKER_CAPACITY :: nat where
  "SEQ_TRACKER_CAPACITY = 32"

record identity_flags =
  if_filters :: filters
  if_sniffer :: bool
  if_group :: "string option"

definition identity_default :: identity_flags where
  "identity_default = \<lparr>if_filters = filters_default, if_sniffer = False, if_group = None\<rparr>"

definition IDENTITY_KEYS :: "string list" where
  "IDENTITY_KEYS = [''group'', ''sniffer'']"

definition identity_apply :: "string \<Rightarrow> string \<Rightarrow> identity_flags \<Rightarrow> (spec_error, identity_flags \<times> bool) res" where
  "identity_apply key value i =
     and_then (filters_apply key value (if_filters i)) (\<lambda>(f, consumed).
       let i = i\<lparr>if_filters := f\<rparr>
       in if consumed then Inr (i, True)
          else if key = ''sniffer'' then
            and_then (parse_bool value ''sniffer'') (\<lambda>b. Inr (i\<lparr>if_sniffer := b\<rparr>, True))
          else if key = ''group'' then
            and_then (validate_name_value value ''group'') (\<lambda>_. Inr (i\<lparr>if_group := Some value\<rparr>, True))
          else Inr (i, False))"

section \<open>What the lists mean\<close>

text \<open>The values a pair of lists lets through, as a set: the allowed ones (all, when none is listed) less the blocked ones.\<close>

definition admitted :: "('r \<Rightarrow> 'v \<Rightarrow> bool) \<Rightarrow> 'r list \<Rightarrow> 'r list \<Rightarrow> 'v set" where
  "admitted inside allow block =
     (if allow = [] then UNIV else {v. \<exists>r \<in> set allow. inside r v}) - {v. \<exists>r \<in> set block. inside r v}"

lemma pass_axis_admitted:
  "pass_msgid_axis m allow_m block_m \<longleftrightarrow> m \<in> admitted msgid_contains allow_m block_m"
  "pass_u8_axis u allow_u block_u \<longleftrightarrow> u \<in> admitted u8_contains allow_u block_u"
  "pass_src_endpoint_axis n allow_n block_n \<longleftrightarrow> n \<in> admitted (=) allow_n block_n"
  by (auto simp: pass_msgid_axis_def pass_u8_axis_def pass_src_endpoint_axis_def admitted_def list_ex_iff)

lemma admitted_block: "admitted inside allow (block @ block') = admitted inside allow block - {v. \<exists>r \<in> set block'. inside r v}"
  by (auto simp: admitted_def)

definition show_msgid_range :: "msgid_range \<Rightarrow> string" where
  "show_msgid_range r =
     (if mr_lo r = mr_hi r then dec_word (mr_lo r) else dec_word (mr_lo r) @ CHR ''-'' # dec_word (mr_hi r))"

definition show_msgid_ranges :: "msgid_range list \<Rightarrow> string" where
  "show_msgid_ranges rs = join_with CHR '','' (map show_msgid_range rs)"

lemma show_range_chars: "c \<in> set (show_msgid_range r) \<Longrightarrow> is_ascii_digit c \<or> c = CHR ''-''"
  using dec_digits by (auto simp: show_msgid_range_def dec_word_def list_all_iff split: if_splits)

lemma show_range_ne [simp]: "show_msgid_range r \<noteq> []"
  by (simp add: show_msgid_range_def dec_word_def)

lemma show_range_trim [simp]: "trim (show_msgid_range r) = show_msgid_range r"
proof -
  have "\<not> is_whitespace c" if "c \<in> set (show_msgid_range r)" for c
    using show_range_chars [OF that] by (auto simp: is_whitespace_def is_ascii_digit_def Let_def)
  then show ?thesis by (intro trim_id) simp
qed

lemma parse_show_range:
  assumes "mr_lo r \<le> mr_hi r"
  shows "parse_range_pair_u32 (show_msgid_range r) key = Inr (mr_lo r, mr_hi r)"
proof (cases "mr_lo r = mr_hi r")
  case True
  have "CHR ''-'' \<notin> set (dec (unat (mr_hi r)))" by (rule dec_no) simp
  with True have "split_once CHR ''-'' (show_msgid_range r) = None"
    by (simp add: show_msgid_range_def dec_word_def split_once_None)
  with True show ?thesis
    by (simp add: parse_range_pair_u32_def show_msgid_range_def parse_dec_word)
next
  case False
  have "CHR ''-'' \<notin> set (dec (unat (mr_lo r)))" by (rule dec_no) simp
  with False have "split_once CHR ''-'' (show_msgid_range r) = Some (dec_word (mr_lo r), dec_word (mr_hi r))"
    by (simp add: show_msgid_range_def dec_word_def split_once_append)
  with False assms show ?thesis
    by (simp add: parse_range_pair_u32_def show_msgid_range_def dec_word_def)
      (simp flip: dec_word_def add: parse_dec_word)
qed

lemma parse_show_ranges:
  assumes "rs \<noteq> []" and "\<forall>r \<in> set rs. mr_lo r \<le> mr_hi r"
  shows "parse_msgid_ranges (show_msgid_ranges rs) key = Inr rs"
proof -
  have "CHR '','' \<notin> set (show_msgid_range r)" for r
    using show_range_chars [of "CHR '',''" r] by (auto simp: is_ascii_digit_def)
  then have "split_on CHR '','' (show_msgid_ranges rs) = map show_msgid_range rs"
    using assms(1) by (simp add: show_msgid_ranges_def split_on_join)
  then show ?thesis using assms(2)
    by (simp add: parse_msgid_ranges_def, intro collect_map) (simp add: parse_show_range Let_def)
qed

section \<open>Properties\<close>

text \<open>
  A block list written as text takes effect exactly as written: printing any non-empty
  list of message-id ranges and applying it as \<^verbatim>\<open>block_msgid_in\<close> is accepted, and the
  resulting filter rejects precisely the frames whose id lies in one of the ranges, on top of
  what the other lists reject; a block wins over an allow entry.
\<close>

theorem block_list_text_takes_effect:
  assumes "rs \<noteq> []" and "\<forall>r \<in> set rs. mr_lo r \<le> mr_hi r"
  shows "\<exists>f'. filters_apply ''block_msgid_in'' (show_msgid_ranges rs) f = Inr (f', True)
    \<and> (\<forall>m src. passes_in_filter f' m src \<longleftrightarrow>
          passes_in_filter (f\<lparr>block_msgid_in := []\<rparr>) m src \<and> \<not> (\<exists>r \<in> set rs. mr_lo r \<le> m \<and> m \<le> mr_hi r))"
proof (intro exI conjI allI)
  show "filters_apply ''block_msgid_in'' (show_msgid_ranges rs) f = Inr (f\<lparr>block_msgid_in := rs\<rparr>, True)"
    using parse_show_ranges [OF assms] by (simp add: filters_apply_def)
  show "passes_in_filter (f\<lparr>block_msgid_in := rs\<rparr>) m src \<longleftrightarrow>
      passes_in_filter (f\<lparr>block_msgid_in := []\<rparr>) m src \<and> \<not> (\<exists>r \<in> set rs. mr_lo r \<le> m \<and> m \<le> mr_hi r)" for m src
    by (auto simp: passes_in_filter_def pass_axis_admitted admitted_def msgid_contains_def)
qed

theorem block_list_text_takes_effect_witness:
  "\<exists>f'. filters_apply ''block_msgid_in'' ''33,100-150'' filters_default = Inr (f', True)
     \<and> \<not> passes_in_filter f' 120 (node_new 1 1) \<and> passes_in_filter f' 34 (node_new 1 1)"
proof -
  let ?rs = "[\<lparr>mr_lo = 33, mr_hi = 33\<rparr>, \<lparr>mr_lo = 100, mr_hi = 150\<rparr>]"
  have "show_msgid_ranges ?rs = ''33,100-150''" by code_simp
  with block_list_text_takes_effect [of ?rs filters_default]
  obtain f' where f': "filters_apply ''block_msgid_in'' ''33,100-150'' filters_default = Inr (f', True)"
    "\<forall>m src. passes_in_filter f' m src \<longleftrightarrow> passes_in_filter (filters_default\<lparr>block_msgid_in := []\<rparr>) m src
      \<and> \<not> (\<exists>r \<in> set ?rs. mr_lo r \<le> m \<and> m \<le> mr_hi r)"
    by auto
  have "passes_in_filter (filters_default\<lparr>block_msgid_in := []\<rparr>) 34 (node_new 1 1)" by code_simp
  with f' show ?thesis by simp
qed

lemma parse_range_pair_sound: "parse_range_pair_u32 item key = Inr (lo, hi) \<Longrightarrow> lo \<le> hi"
  by (auto simp: parse_range_pair_u32_def and_then_eq_Inr split: option.splits if_splits)

text \<open>
  The accepted keys are the documented ones: a query key is consumed, or its value
  rejected, exactly when it is one of \<^verbatim>\<open>IdentityFlags::KEYS\<close> or \<^verbatim>\<open>Filters::KEYS\<close>, and an
  unknown key leaves the identity untouched.
\<close>

theorem identity_keys_are_complete:
  "identity_apply key value i = Inr (i, False) \<longleftrightarrow> key \<notin> set (IDENTITY_KEYS @ FILTER_KEYS)"
proof -
  have unknown: "filters_apply key value f = Inr (f', c) \<Longrightarrow> c = (key \<in> set FILTER_KEYS) \<and> (c \<or> f' = f)" for f f' c
    by (auto simp: filters_apply_def FILTER_KEYS_def and_then_eq_Inr split: if_splits)
  show ?thesis
  proof (cases "key \<in> set FILTER_KEYS")
    case True
    then show ?thesis
      by (auto simp: identity_apply_def and_then_eq_Inr Let_def dest!: unknown)
  next
    case False
    then have "filters_apply key value (if_filters i) = Inr (if_filters i, False)"
      by (simp add: filters_apply_def FILTER_KEYS_def)
    with False show ?thesis
      by (auto simp: identity_apply_def and_then_eq_Inr IDENTITY_KEYS_def)
  qed
qed

end
