(* ===== verification/Decide.thy ===== *)
theory Decide
  imports Learn Filters
begin

text \<open>The decision for one destination, \<^verbatim>\<open>src/router/decide.rs\<close>: sniffer, loop prevention, egress filter, target.\<close>

datatype decision = Admit | LoopBlocked | OutFilterBlocked | TargetMismatch

definition target_match :: "parsed_header \<Rightarrow> learn_table \<Rightarrow> bool" where
  "target_match header learn =
     (case hdr_target_system header of
        None \<Rightarrow> True
      | Some target_sys \<Rightarrow>
          if target_sys = 0 then True
          else (case hdr_target_component header of
                  None \<Rightarrow> learn_contains_sys learn target_sys
                | Some tcomp \<Rightarrow>
                    if tcomp = 0 then learn_contains_sys learn target_sys
                    else learn_contains learn (node_new target_sys tcomp)))"

definition decide :: "parsed_header \<Rightarrow> learn_table \<Rightarrow> identity_flags \<Rightarrow> string \<Rightarrow> decision" where
  "decide header dest_learn dest_identity src_endpoint_name =
     (if if_sniffer dest_identity then Admit
      else if learn_contains dest_learn (hdr_source header) then LoopBlocked
      else if \<not> passes_out_filter (if_filters dest_identity) (hdr_msgid header) (hdr_source header) src_endpoint_name
        then OutFilterBlocked
      else if \<not> target_match header dest_learn then TargetMismatch
      else Admit)"

section \<open>Who is addressed\<close>

text \<open>The nodes a frame is addressed to: all of them, all components of a system, or one node.\<close>

definition addressees :: "parsed_header \<Rightarrow> node_id set option" where
  "addressees header =
     (case hdr_target_system header of
        None \<Rightarrow> None
      | Some s \<Rightarrow>
          if s = 0 then None
          else if hdr_target_component header \<in> {None, Some 0} then Some {n. node_sys n = s}
          else Some {node_new s (the (hdr_target_component header))})"

lemma target_match_addressees:
  "target_match header learn \<longleftrightarrow> (case addressees header of None \<Rightarrow> True | Some N \<Rightarrow> learned learn \<inter> N \<noteq> {})"
  by (auto simp: target_match_def addressees_def learn_contains_sys_learned learn_contains_learned
      split: option.splits)

lemma decide_Admit:
  "decide header learn ident name = Admit \<longleftrightarrow>
     if_sniffer ident
     \<or> (hdr_source header \<notin> learned learn
        \<and> passes_out_filter (if_filters ident) (hdr_msgid header) (hdr_source header) name
        \<and> (case addressees header of None \<Rightarrow> True | Some N \<Rightarrow> learned learn \<inter> N \<noteq> {}))"
  by (simp add: decide_def learn_contains_learned target_match_addressees)

lemma decide_OutFilterBlocked:
  "decide header learn ident name = OutFilterBlocked \<longleftrightarrow>
     \<not> if_sniffer ident \<and> hdr_source header \<notin> learned learn
     \<and> \<not> passes_out_filter (if_filters ident) (hdr_msgid header) (hdr_source header) name"
  by (simp add: decide_def learn_contains_learned)

end
