(* ===== verification/Group_Registry.thy ===== *)
theory Group_Registry
  imports Learn
begin

text \<open>
  The registry of endpoint groups, \<^verbatim>\<open>src/router/group.rs\<close>: endpoints of one named group share
  a learn table, which lives as long as the group has members. Hash maps are association lists
  with distinct keys, in the unspecified order of iteration.
\<close>

section \<open>Reference counts\<close>

text \<open>What the router relies on: joining adds one member to a name, leaving takes one away.\<close>

locale refcounts =
  fixes members :: "'g \<Rightarrow> 'n \<Rightarrow> nat"
    and join_op :: "'n \<Rightarrow> 'a \<Rightarrow> 'g \<Rightarrow> 'g"
    and leave_op :: "'n \<Rightarrow> 'g \<Rightarrow> 'g"
    and good :: "'g \<Rightarrow> bool"
  assumes join_good: "good g \<Longrightarrow> good (join_op n a g)"
    and leave_good: "good g \<Longrightarrow> good (leave_op n g)"
    and members_join: "good g \<Longrightarrow> members (join_op n a g) n' = members g n' + (if n' = n then 1 else 0)"
    and members_leave: "good g \<Longrightarrow> members (leave_op n g) n' = members g n' - (if n' = n then 1 else 0)"
begin

lemma join_tracks:
  assumes "good g" and "\<forall>n. members g n = count M n"
  shows "\<forall>n'. members (join_op n a g) n' = count (add_mset n M) n'"
  using assms by (simp add: members_join)

lemma leave_tracks:
  assumes "good g" and "\<forall>n. members g n = count M n"
  shows "\<forall>n'. members (leave_op n g) n' = count (M - {#n#}) n'"
  using assms by (simp add: members_leave)

end

section \<open>The registry\<close>

record group_learn =
  gl_learn :: learn_table
  gl_members :: nat

type_synonym group_registry = "(string \<times> group_learn) list"

definition group_join :: "string \<Rightarrow> nat \<Rightarrow> group_registry \<Rightarrow> group_registry \<times> nat" where
  "group_join name capacity gs =
     (let entry = (case map_of gs name of
                     Some e \<Rightarrow> e
                   | None \<Rightarrow> \<lparr>gl_learn = learn_new capacity, gl_members = 0\<rparr>);
          entry' = entry\<lparr>gl_members := gl_members entry + 1\<rparr>
      in (AList.update name entry' gs, gl_members entry'))"

definition group_leave :: "string \<Rightarrow> group_registry \<Rightarrow> group_registry" where
  "group_leave name gs =
     (case map_of gs name of
        None \<Rightarrow> gs
      | Some entry \<Rightarrow>
          let entry' = entry\<lparr>gl_members := gl_members entry - 1\<rparr>
          in if gl_members entry' = 0 then AList.delete name (AList.update name entry' gs)
             else AList.update name entry' gs)"

definition group_get :: "string \<Rightarrow> group_registry \<Rightarrow> group_learn option" where
  "group_get name gs = map_of gs name"

text \<open>A write through \<^verbatim>\<open>get_mut\<close>.\<close>

definition group_put_learn :: "string \<Rightarrow> learn_table \<Rightarrow> group_registry \<Rightarrow> group_registry" where
  "group_put_learn name t gs =
     (case map_of gs name of None \<Rightarrow> gs | Some entry \<Rightarrow> AList.update name (entry\<lparr>gl_learn := t\<rparr>) gs)"

definition group_members :: "group_registry \<Rightarrow> string \<Rightarrow> nat" where
  "group_members gs name = (case map_of gs name of None \<Rightarrow> 0 | Some e \<Rightarrow> gl_members e)"

text \<open>Every group in the registry has a member and a well-formed learn table.\<close>

definition groups_ok :: "group_registry \<Rightarrow> bool" where
  "groups_ok gs \<longleftrightarrow> distinct (map fst gs)
     \<and> (\<forall>name e. map_of gs name = Some e \<longrightarrow> 0 < gl_members e \<and> learn_ok (gl_learn e))"

lemma groups_ok_Nil [simp]: "groups_ok []"
  by (simp add: groups_ok_def)

lemma group_members_pos: "groups_ok gs \<Longrightarrow> 0 < group_members gs name \<longleftrightarrow> map_of gs name \<noteq> None"
  by (auto simp: groups_ok_def group_members_def split: option.split)

lemma group_join_ok: "groups_ok gs \<Longrightarrow> groups_ok (fst (group_join name c gs))"
  by (auto simp: groups_ok_def group_join_def Let_def distinct_update map_of_update split: option.splits if_splits)

lemma group_leave_ok: "groups_ok gs \<Longrightarrow> groups_ok (group_leave name gs)"
  by (auto simp: groups_ok_def group_leave_def Let_def distinct_update distinct_delete
      map_of_update map_of_alist_delete split: option.splits if_splits)

lemma group_put_learn_ok: "groups_ok gs \<Longrightarrow> learn_ok t \<Longrightarrow> groups_ok (group_put_learn name t gs)"
  by (auto simp: groups_ok_def group_put_learn_def distinct_update map_of_update split: option.splits if_splits)

lemma group_members_put_learn [simp]: "group_members (group_put_learn name t gs) = group_members gs"
  by (auto simp: group_members_def group_put_learn_def map_of_update fun_eq_iff split: option.split)

lemma group_get_put_learn:
  "group_get n (group_put_learn name t gs) =
     (if n = name then map_option (\<lambda>e. e\<lparr>gl_learn := t\<rparr>) (group_get n gs) else group_get n gs)"
  by (auto simp: group_get_def group_put_learn_def map_of_update split: option.split)

interpretation group_counts: refcounts group_members "\<lambda>name c gs. fst (group_join name c gs)" group_leave groups_ok
proof unfold_locales
  fix gs :: group_registry and n n' :: string and c :: nat
  assume ok: "groups_ok gs"
  show "groups_ok (fst (group_join n c gs))" "groups_ok (group_leave n gs)"
    using ok by (simp_all add: group_join_ok group_leave_ok)
  show "group_members (fst (group_join n c gs)) n' = group_members gs n' + (if n' = n then 1 else 0)"
    by (auto simp: group_members_def group_join_def Let_def map_of_update split: option.split)
  show "group_members (group_leave n gs) n' = group_members gs n' - (if n' = n then 1 else 0)"
    by (auto simp: group_members_def group_leave_def Let_def map_of_update map_of_alist_delete split: option.split)
qed

end
