(* ===== verification/Dedup.thy ===== *)
theory Dedup
  imports Prelude
begin

text \<open>
  The duplicate-suppression window of the router, \<^verbatim>\<open>src/router/dedup.rs\<close>: a first-in
  first-out ring of frame hashes with deadlines, and a hash set kept in step with it. The
  64-bit frame hash (crate \<^verbatim>\<open>twox-hash\<close>) is a parameter.
\<close>

section \<open>The window\<close>

record dedup_entry =
  de_hash :: u64
  de_deadline :: instant

record dedup_window =
  dw_ring :: "dedup_entry list"
  dw_set :: "u64 set"
  dw_capacity :: nat
  dw_ttl :: duration

definition dedup_new :: "duration \<Rightarrow> nat \<Rightarrow> dedup_window" where
  "dedup_new ttl capacity = \<lparr>dw_ring = [], dw_set = {}, dw_capacity = max capacity 1, dw_ttl = ttl\<rparr>"

definition dedup_is_enabled :: "dedup_window \<Rightarrow> bool" where
  "dedup_is_enabled w = (dw_ttl w \<noteq> 0)"

fun expire_ring :: "instant \<Rightarrow> dedup_entry list \<Rightarrow> u64 set \<Rightarrow> dedup_entry list \<times> u64 set" where
  "expire_ring now [] hs = ([], hs)"
| "expire_ring now (front # ring) hs =
     (if de_deadline front > now then (front # ring, hs)
      else expire_ring now ring (hs - {de_hash front}))"

definition expire_stale :: "instant \<Rightarrow> dedup_window \<Rightarrow> dedup_window" where
  "expire_stale now w =
     (let (ring, hs) = expire_ring now (dw_ring w) (dw_set w) in w\<lparr>dw_ring := ring, dw_set := hs\<rparr>)"

definition dedup_evict_oldest :: "dedup_window \<Rightarrow> dedup_window" where
  "dedup_evict_oldest w =
     (case dw_ring w of
        [] \<Rightarrow> w
      | victim # ring \<Rightarrow> w\<lparr>dw_ring := ring, dw_set := dw_set w - {de_hash victim}\<rparr>)"

definition check_and_insert :: "(bytes \<Rightarrow> u64) \<Rightarrow> bytes \<Rightarrow> instant \<Rightarrow> dedup_window \<Rightarrow> dedup_window \<times> bool" where
  "check_and_insert hash_of frame now w =
     (if \<not> dedup_is_enabled w then (w, False)
      else
        let w1 = expire_stale now w;
            h = hash_of frame
        in if h \<in> dw_set w1 then (w1, True)
           else
             let w2 = (if dw_capacity w1 \<le> length (dw_ring w1) then dedup_evict_oldest w1 else w1)
             in (w2\<lparr>dw_ring := dw_ring w2 @ [\<lparr>de_hash = h, de_deadline = now + dw_ttl w2\<rparr>],
                    dw_set := insert h (dw_set w2)\<rparr>, False))"

section \<open>The ring and the set agree\<close>

definition dedup_ok :: "dedup_window \<Rightarrow> bool" where
  "dedup_ok w \<longleftrightarrow> dw_set w = de_hash ` set (dw_ring w) \<and> distinct (map de_hash (dw_ring w))
     \<and> length (dw_ring w) \<le> dw_capacity w \<and> 0 < dw_capacity w"

lemma dedup_new_ok [simp]: "dedup_ok (dedup_new ttl c)"
  by (simp add: dedup_ok_def dedup_new_def)

lemma expire_ring_dropWhile:
  "distinct (map de_hash ring) \<Longrightarrow> hs = de_hash ` set ring \<Longrightarrow>
   expire_ring now ring hs =
     (let ring' = dropWhile (\<lambda>e. de_deadline e \<le> now) ring in (ring', de_hash ` set ring'))"
proof (induction ring arbitrary: hs)
  case (Cons e ring)
  show ?case
  proof (cases "now < de_deadline e")
    case True
    with Cons.prems show ?thesis by (simp add: not_le)
  next
    case False
    have "hs - {de_hash e} = de_hash ` set ring" using Cons.prems by auto
    with Cons False show ?thesis by (simp add: not_less)
  qed
qed simp

lemma expire_stale_ring:
  assumes "dedup_ok w"
  shows "dw_ring (expire_stale now w) = dropWhile (\<lambda>e. de_deadline e \<le> now) (dw_ring w)"
    and "dedup_ok (expire_stale now w)"
    and "dw_ttl (expire_stale now w) = dw_ttl w" and "dw_capacity (expire_stale now w) = dw_capacity w"
proof -
  let ?r = "dropWhile (\<lambda>e. de_deadline e \<le> now) (dw_ring w)"
  have e: "expire_stale now w = w\<lparr>dw_ring := ?r, dw_set := de_hash ` set ?r\<rparr>"
    using assms expire_ring_dropWhile [of "dw_ring w" "dw_set w" now]
    by (simp add: expire_stale_def dedup_ok_def Let_def)
  show "dw_ring (expire_stale now w) = ?r" "dw_ttl (expire_stale now w) = dw_ttl w"
    "dw_capacity (expire_stale now w) = dw_capacity w" by (simp_all add: e)
  have "length ?r \<le> length (dw_ring w)" by (rule length_dropWhile_le)
  moreover have "distinct (map de_hash ?r)"
    using assms by (simp add: dedup_ok_def distinct_map distinct_dropWhile)
      (meson inj_on_subset set_dropWhileD subsetI)
  ultimately show "dedup_ok (expire_stale now w)" using assms by (simp add: e dedup_ok_def)
qed

lemma dedup_evict_ring:
  assumes "dedup_ok w"
  shows "dw_ring (dedup_evict_oldest w) = tl (dw_ring w)"
    and "dw_set (dedup_evict_oldest w) = de_hash ` set (tl (dw_ring w))"
    and "dw_ttl (dedup_evict_oldest w) = dw_ttl w" and "dw_capacity (dedup_evict_oldest w) = dw_capacity w"
  using assms
  by (auto simp: dedup_evict_oldest_def dedup_ok_def split: list.split) (metis imageI)

lemma check_and_insert_enabled:
  assumes "dedup_ok w" and "0 < dw_ttl w"
    and r_def: "r = dropWhile (\<lambda>e. de_deadline e \<le> now) (dw_ring w)"
  shows "snd (check_and_insert hash_of frame now w) \<longleftrightarrow> hash_of frame \<in> de_hash ` set r"
    and "dw_ring (fst (check_and_insert hash_of frame now w)) =
      (if hash_of frame \<in> de_hash ` set r then r
       else (if dw_capacity w \<le> length r then tl r else r)
         @ [\<lparr>de_hash = hash_of frame, de_deadline = now + dw_ttl w\<rparr>])"
    and "dw_ttl (fst (check_and_insert hash_of frame now w)) = dw_ttl w"
    and "dw_capacity (fst (check_and_insert hash_of frame now w)) = dw_capacity w"
proof -
  note ex = expire_stale_ring [OF assms(1), of now]
  have s: "dw_set (expire_stale now w) = de_hash ` set r" using ex by (simp add: dedup_ok_def r_def)
  show "snd (check_and_insert hash_of frame now w) \<longleftrightarrow> hash_of frame \<in> de_hash ` set r"
    using assms(2) s by (simp add: check_and_insert_def dedup_is_enabled_def Let_def)
  show "dw_ring (fst (check_and_insert hash_of frame now w)) =
      (if hash_of frame \<in> de_hash ` set r then r
       else (if dw_capacity w \<le> length r then tl r else r)
         @ [\<lparr>de_hash = hash_of frame, de_deadline = now + dw_ttl w\<rparr>])"
    using assms(2) s ex dedup_evict_ring [OF ex(2)]
    by (auto simp: check_and_insert_def dedup_is_enabled_def Let_def r_def)
  show "dw_ttl (fst (check_and_insert hash_of frame now w)) = dw_ttl w"
    "dw_capacity (fst (check_and_insert hash_of frame now w)) = dw_capacity w"
    using ex dedup_evict_ring [OF ex(2)] by (auto simp: check_and_insert_def Let_def)
qed

lemma check_and_insert_ok:
  assumes "dedup_ok w"
  shows "dedup_ok (fst (check_and_insert hash_of frame now w))"
proof -
  note ex = expire_stale_ring [OF assms, of now]
  let ?w = "expire_stale now w"
  have t: "distinct (map de_hash (tl (dw_ring ?w)))" "set (tl (dw_ring ?w)) \<subseteq> set (dw_ring ?w)"
    using ex(2) by (cases "dw_ring ?w"; auto simp: dedup_ok_def)+
  have "length (dw_ring ?w) \<le> dw_capacity w" "0 < dw_capacity w" using ex by (auto simp: dedup_ok_def)
  with assms ex(2) ex(4) t dedup_evict_ring [OF ex(2)] show ?thesis
    by (auto simp: check_and_insert_def dedup_ok_def Let_def)
qed

section \<open>The specification\<close>

text \<open>
  The frames let through so far, newest first, with the time of each: a frame is a duplicate
  when one of the last \<^verbatim>\<open>capacity\<close> frames let through has its hash and is younger than
  the time to live.
\<close>

definition is_dup :: "duration \<Rightarrow> nat \<Rightarrow> (u64 \<times> instant) list \<Rightarrow> u64 \<Rightarrow> instant \<Rightarrow> bool" where
  "is_dup ttl c acc h now = list_ex (\<lambda>(h', t). h' = h \<and> now < t + ttl) (take c acc)"

fun dedup_spec :: "duration \<Rightarrow> nat \<Rightarrow> (u64 \<times> instant) list \<Rightarrow> (u64 \<times> instant) list \<Rightarrow> bool list" where
  "dedup_spec ttl c acc [] = []"
| "dedup_spec ttl c acc ((h, now) # xs) =
     is_dup ttl c acc h now
     # dedup_spec ttl c (if is_dup ttl c acc h now then acc else (h, now) # acc) xs"

fun dedup_run :: "(bytes \<Rightarrow> u64) \<Rightarrow> (bytes \<times> instant) list \<Rightarrow> dedup_window \<Rightarrow> bool list" where
  "dedup_run hash_of [] w = []"
| "dedup_run hash_of ((frame, now) # xs) w =
     (let (w', dup) = check_and_insert hash_of frame now w in dup # dedup_run hash_of xs w')"

definition ring_of :: "duration \<Rightarrow> (u64 \<times> instant) list \<Rightarrow> dedup_entry list" where
  "ring_of ttl acc = rev (map (\<lambda>(h, t). \<lparr>de_hash = h, de_deadline = t + ttl\<rparr>) acc)"

definition live :: "duration \<Rightarrow> instant \<Rightarrow> u64 \<times> instant \<Rightarrow> bool" where
  "live ttl now p \<longleftrightarrow> now < snd p + ttl"

definition newest_first :: "(u64 \<times> instant) list \<Rightarrow> bool" where
  "newest_first acc \<longleftrightarrow> sorted_wrt (\<lambda>p q. snd q \<le> snd p) acc"

lemma newest_first_takeWhile:
  "newest_first acc \<Longrightarrow> filter (live ttl now) acc = takeWhile (live ttl now) acc"
proof (induction acc)
  case (Cons p acc)
  show ?case
  proof (cases "live ttl now p")
    case True
    with Cons show ?thesis by (simp add: newest_first_def)
  next
    case False
    then have "filter (live ttl now) acc = []"
      using Cons.prems by (fastforce simp: newest_first_def live_def filter_empty_conv)
    with False show ?thesis by simp
  qed
qed simp

lemma dropWhile_ring_of:
  assumes "newest_first acc"
  shows "dropWhile (\<lambda>e. de_deadline e \<le> now) (ring_of ttl acc) = ring_of ttl (filter (live ttl now) acc)"
  using assms
proof (induction acc rule: rev_induct)
  case Nil
  show ?case by (simp add: ring_of_def)
next
  case (snoc p acc)
  show ?case
  proof (cases "live ttl now p")
    case True
    then have "\<forall>q \<in> set acc. live ttl now q"
      using snoc.prems by (fastforce simp: newest_first_def live_def sorted_wrt_append)
    with True have "filter (live ttl now) (acc @ [p]) = acc @ [p]" by (simp add: filter_id_conv)
    moreover from True have "now < snd p + ttl" by (simp add: live_def)
    ultimately show ?thesis by (simp add: ring_of_def case_prod_unfold)
  next
    case False
    with snoc show ?thesis
      by (simp add: ring_of_def live_def case_prod_unfold newest_first_def sorted_wrt_append not_less)
  qed
qed

text \<open>The window implements the specification: its ring holds the live ones among the last frames.\<close>

definition dedup_rel :: "duration \<Rightarrow> nat \<Rightarrow> (u64 \<times> instant) list \<Rightarrow> instant \<Rightarrow> dedup_window \<Rightarrow> bool" where
  "dedup_rel ttl c acc t0 w \<longleftrightarrow> dedup_ok w \<and> dw_ttl w = ttl \<and> dw_capacity w = c
     \<and> newest_first acc \<and> (\<forall>p \<in> set acc. snd p \<le> t0)
     \<and> dw_ring w = ring_of ttl (filter (live ttl t0) (take c acc))"

lemma ring_of_hash: "h \<in> de_hash ` set (ring_of ttl acc) \<longleftrightarrow> h \<in> fst ` set acc"
  by (force simp: ring_of_def)

lemma newest_first_take: "newest_first acc \<Longrightarrow> newest_first (take n acc)"
  by (simp add: newest_first_def sorted_wrt_take)

lemma newest_first_filter: "newest_first acc \<Longrightarrow> newest_first (filter P acc)"
  by (simp add: newest_first_def sorted_wrt_filter)

lemma take_filter_full:
  assumes "newest_first acc" and "length (filter (live ttl now) (take (Suc n) acc)) = Suc n"
  shows "filter (live ttl now) (take (Suc n) acc) = take (Suc n) acc"
proof -
  have "length (take (Suc n) acc) \<le> Suc n" by simp
  with assms(2) length_filter_le [of "live ttl now" "take (Suc n) acc"]
  have "length (filter (live ttl now) (take (Suc n) acc)) = length (take (Suc n) acc)" by linarith
  then show ?thesis by (metis filter_id_conv length_filter_less less_irrefl)
qed

lemma filter_take_notfull:
  assumes "newest_first acc" and "length (filter (live ttl now) (take (Suc n) acc)) < Suc n"
  shows "filter (live ttl now) (take (Suc n) acc) = filter (live ttl now) (take n acc)"
proof (cases "n < length acc")
  case True
  have split: "take (Suc n) acc = take n acc @ [acc ! n]" using True by (rule take_Suc_conv_app_nth)
  have "\<not> live ttl now (acc ! n)"
  proof
    assume l: "live ttl now (acc ! n)"
    have "\<forall>q \<in> set (take (Suc n) acc). snd (acc ! n) \<le> snd q"
      using newest_first_take [OF assms(1), of "Suc n"] split by (auto simp: newest_first_def sorted_wrt_append)
    with l have "filter (live ttl now) (take (Suc n) acc) = take (Suc n) acc"
      by (fastforce simp: filter_id_conv live_def)
    with assms(2) True show False by simp
  qed
  with split show ?thesis by simp
qed simp

lemma check_and_insert_refines:
  assumes rel: "dedup_rel ttl c acc t0 w" and "0 < ttl" and "t0 \<le> now"
  shows "snd (check_and_insert hash_of frame now w) = is_dup ttl c acc (hash_of frame) now"
    and "dedup_rel ttl c (if is_dup ttl c acc (hash_of frame) now then acc else (hash_of frame, now) # acc) now
          (fst (check_and_insert hash_of frame now w))"
proof -
  let ?h = "hash_of frame"
  let ?live = "filter (live ttl now) (take c acc)"
  have ok: "dedup_ok w" and ttl: "dw_ttl w = ttl" and c: "dw_capacity w = c" "0 < c"
    and nf: "newest_first acc" and old: "\<forall>p \<in> set acc. snd p \<le> t0"
    and ring: "dw_ring w = ring_of ttl (filter (live ttl t0) (take c acc))"
    using rel by (auto simp: dedup_rel_def dedup_ok_def)
  have "filter (live ttl now) (filter (live ttl t0) (take c acc)) = ?live"
    using assms(3) by (auto simp: live_def intro!: filter_cong)
  then have r: "ring_of ttl ?live = dropWhile (\<lambda>e. de_deadline e \<le> now) (dw_ring w)"
    using nf ring by (simp add: dropWhile_ring_of newest_first_take newest_first_filter)
  note step = check_and_insert_enabled [OF ok _ r, unfolded ttl c, OF assms(2), of hash_of frame]
  have dup: "?h \<in> de_hash ` set (ring_of ttl ?live) \<longleftrightarrow> is_dup ttl c acc ?h now"
    by (force simp: ring_of_hash is_dup_def list_ex_iff live_def)
  show "snd (check_and_insert hash_of frame now w) = is_dup ttl c acc ?h now" using step(1) dup by simp
  obtain n where n: "c = Suc n" using c(2) by (cases c) auto
  have len: "length ?live \<le> Suc n" by (metis length_filter_le length_take min.bounded_iff n)
  have "(if c \<le> length (ring_of ttl ?live) then tl (ring_of ttl ?live) else ring_of ttl ?live)
      = ring_of ttl (filter (live ttl now) (take n acc))"
  proof (cases "length ?live = Suc n")
    case True
    with take_filter_full [OF nf, of ttl now n] n have "?live = take (Suc n) acc" "Suc n \<le> length acc"
      by (auto simp: min_def split: if_splits)
    moreover from this have split: "take (Suc n) acc = take n acc @ [acc ! n]" by (simp add: take_Suc_conv_app_nth)
    moreover from this \<open>?live = _\<close> n have "\<forall>q \<in> set (take n acc @ [acc ! n]). live ttl now q"
      by (metis filter_id_conv)
    then have "filter (live ttl now) (take n acc) = take n acc" by (simp add: filter_id_conv)
    ultimately show ?thesis using True n by (simp add: ring_of_def)
  next
    case False
    with len filter_take_notfull [OF nf, of ttl now n] n show ?thesis by (simp add: ring_of_def)
  qed
  with step n assms(2) check_and_insert_ok [OF ok] nf old assms(3) dup show
    "dedup_rel ttl c (if is_dup ttl c acc ?h now then acc else (?h, now) # acc) now
      (fst (check_and_insert hash_of frame now w))"
    by (auto simp: dedup_rel_def newest_first_def live_def ring_of_def)
qed

lemma dedup_run_spec:
  "dedup_rel ttl c acc t0 w \<Longrightarrow> 0 < ttl \<Longrightarrow> sorted (t0 # map snd xs) \<Longrightarrow>
   dedup_run hash_of xs w = dedup_spec ttl c acc (map (\<lambda>(frame, now). (hash_of frame, now)) xs)"
proof (induction xs arbitrary: acc t0 w)
  case (Cons x xs)
  obtain frame now where x: "x = (frame, now)" by (cases x)
  with Cons.prems have "t0 \<le> now" by simp
  note step = check_and_insert_refines [OF Cons.prems(1,2) this, of hash_of frame]
  from Cons.prems(3) have "sorted (now # map snd xs)" by (simp add: x)
  from Cons.IH [OF step(2) Cons.prems(2) this] step(1) show ?case
    by (simp add: x case_prod_unfold Let_def)
qed simp

section \<open>Properties\<close>

text \<open>
  C9. The window suppresses exactly the duplicates: over any sequence of frames checked at
  non-decreasing times, a frame is reported as a duplicate if and only if one of the last
  \<^verbatim>\<open>capacity\<close> frames that were let through has the same hash and was let through less than
  the time to live ago. Duplicates do not extend the lifetime of an entry.
\<close>

theorem dedup_window_meets_spec:
  assumes "sorted (map snd frames)" and "0 < ttl"
  shows "dedup_run hash_of frames (dedup_new ttl capacity) =
    dedup_spec ttl (max capacity 1) [] (map (\<lambda>(frame, now). (hash_of frame, now)) frames)"
proof -
  have "dedup_rel ttl (max capacity 1) [] 0 (dedup_new ttl capacity)"
    by (simp add: dedup_rel_def newest_first_def ring_of_def) (simp add: dedup_new_def)
  from dedup_run_spec [OF this assms(2)] assms(1) show ?thesis by simp
qed

theorem dedup_window_meets_spec_witness:
  "dedup_run (\<lambda>b. of_nat (length b)) [([1], 0), ([2], 5), ([3], 10), ([4, 4], 11)] (dedup_new 10 2)
     = [False, True, False, False]"
  using dedup_window_meets_spec [of "[([1], 0), ([2], 5), ([3], 10), ([4, 4], 11)]" 10 "\<lambda>b. of_nat (length b)" 2]
  by (simp add: is_dup_def del: dedup_run.simps)

end
