(* ===== verification/Framer.thy ===== *)
theory Framer
  imports Mav_Frame "HOL-Library.Monad_Syntax"
begin

unbundle bit_operations_syntax

text \<open>
  The frame state machine, \<^verbatim>\<open>src/mavlink/framer.rs\<close>. Every read and every buffer
  operation of the source that panics out of range returns \<^term>\<open>None\<close> here, so that the
  absence of panics is a theorem and not an assumption.
\<close>

section \<open>Panicking reads\<close>

type_synonym 'a may_panic = "'a option"

definition idx :: "'a list \<Rightarrow> nat \<Rightarrow> 'a may_panic" where
  "idx xs i = (if i < length xs then Some (xs ! i) else None)"

definition slice :: "'a list \<Rightarrow> nat \<Rightarrow> nat \<Rightarrow> 'a list may_panic" where
  "slice xs a b = (if a \<le> b \<and> b \<le> length xs then Some (take (b - a) (drop a xs)) else None)"

definition u16_from_le_bytes :: "u8 \<Rightarrow> u8 \<Rightarrow> u16" where
  "u16_from_le_bytes b0 b1 = ucast b0 + 256 * ucast b1"

definition u32_from_le_bytes :: "u8 \<Rightarrow> u8 \<Rightarrow> u8 \<Rightarrow> u8 \<Rightarrow> u32" where
  "u32_from_le_bytes b0 b1 b2 b3 =
     ucast b0 + 256 * ucast b1 + 65536 * ucast b2 + 16777216 * ucast b3"

section \<open>The framer of the source\<close>

record framer =
  fr_buf :: bytes
  fr_resync_bytes :: u64
  fr_crc_errors :: u64

datatype frame_len = Ready nat | UnknownIncompatFlag

definition framer_new :: framer where
  "framer_new = \<lparr>fr_buf = [], fr_resync_bytes = 0, fr_crc_errors = 0\<rparr>"

text \<open>Writing into \<^verbatim>\<open>buffer_mut()\<close>: new bytes go to the end of the accumulator.\<close>

definition framer_extend :: "framer \<Rightarrow> bytes \<Rightarrow> framer" where
  "framer_extend fr data = fr\<lparr>fr_buf := fr_buf fr @ data\<rparr>"

definition add_resync :: "framer \<Rightarrow> u64 \<Rightarrow> framer" where
  "add_resync fr n = fr\<lparr>fr_resync_bytes := sat_add (fr_resync_bytes fr) n\<rparr>"

definition advance :: "framer \<Rightarrow> nat \<Rightarrow> framer may_panic" where
  "advance fr n = (if n \<le> length (fr_buf fr) then Some (fr\<lparr>fr_buf := drop n (fr_buf fr)\<rparr>) else None)"

definition discard_byte :: "framer \<Rightarrow> framer may_panic" where
  "discard_byte fr = advance (add_resync fr 1) 1"

text \<open>\<^verbatim>\<open>iter().enumerate().find_map(..)\<close> over the buffer.\<close>

fun find_stx :: "nat \<Rightarrow> bytes \<Rightarrow> (nat \<times> stx) option" where
  "find_stx index [] = None"
| "find_stx index (byte # rest) =
     (case stx_from_byte byte of Some stx \<Rightarrow> Some (index, stx) | None \<Rightarrow> find_stx (Suc index) rest)"

definition align_to_stx :: "framer \<Rightarrow> (framer \<times> stx option) may_panic" where
  "align_to_stx fr =
     (case find_stx 0 (fr_buf fr) of
        Some (pos, stx) \<Rightarrow>
          if pos > 0
          then do { fr' \<leftarrow> advance (add_resync fr (of_nat pos)) pos; Some (fr', Some stx) }
          else Some (fr, Some stx)
      | None \<Rightarrow>
          Some ((add_resync fr (of_nat (length (fr_buf fr))))\<lparr>fr_buf := []\<rparr>, None))"

definition decide_frame_len :: "framer \<Rightarrow> stx \<Rightarrow> frame_len may_panic" where
  "decide_frame_len fr stx = do {
     payload_len \<leftarrow> idx (fr_buf fr) 1;
     (case stx of
        Stx_V1 \<Rightarrow> Some (Ready (V1_HEADER_LEN + unat payload_len + CRC_LEN))
      | Stx_V2 \<Rightarrow> do {
          iflags \<leftarrow> idx (fr_buf fr) 2;
          (if iflags AND NOT V2_IFLAG_SIGNED \<noteq> 0 then Some UnknownIncompatFlag
           else let signed_extra = (if iflags AND V2_IFLAG_SIGNED \<noteq> 0 then V2_SIGNATURE_LEN else 0)
                in Some (Ready (V2_HEADER_LEN + unat payload_len + CRC_LEN + signed_extra)))
        })
   }"

definition parse_header :: "bytes \<Rightarrow> stx \<Rightarrow> parsed_header may_panic" where
  "parse_header frame stx =
     (case stx of
        Stx_V1 \<Rightarrow> do {
          len \<leftarrow> idx frame 1; sq \<leftarrow> idx frame 2; s \<leftarrow> idx frame 3; c \<leftarrow> idx frame 4; m \<leftarrow> idx frame 5;
          Some \<lparr>hdr_version = Version_V1, hdr_source = node_new s c, hdr_msgid = ucast m,
                hdr_seq = sq, hdr_payload_len = len,
                hdr_target_system = None, hdr_target_component = None\<rparr>
        }
      | Stx_V2 \<Rightarrow> do {
          len \<leftarrow> idx frame 1; sq \<leftarrow> idx frame 4; s \<leftarrow> idx frame 5; c \<leftarrow> idx frame 6;
          m0 \<leftarrow> idx frame 7; m1 \<leftarrow> idx frame 8; m2 \<leftarrow> idx frame 9;
          Some \<lparr>hdr_version = Version_V2, hdr_source = node_new s c,
                hdr_msgid = u32_from_le_bytes m0 m1 m2 0,
                hdr_seq = sq, hdr_payload_len = len,
                hdr_target_system = None, hdr_target_component = None\<rparr>
        })"

definition validate_crc :: "bytes \<Rightarrow> parsed_header \<Rightarrow> u8 \<Rightarrow> bool may_panic" where
  "validate_crc frame header extra = (
     let header_len = payload_start header;
         payload_end = header_len + unat (hdr_payload_len header)
     in do {
       body \<leftarrow> slice frame 1 payload_end;
       let crc = crc_update (crc_update_slice crc_new body) extra;
       lo \<leftarrow> idx frame payload_end;
       hi \<leftarrow> idx frame (payload_end + 1);
       Some (crc_finalize crc = u16_from_le_bytes lo hi)
     })"

definition read_at :: "bytes \<Rightarrow> parsed_header \<Rightarrow> u8 \<Rightarrow> u8 option may_panic" where
  "read_at frame header off =
     (if unat off < unat (hdr_payload_len header)
      then map_option Some (idx frame (payload_start header + unat off))
      else Some None)"

definition extract_targets ::
  "bytes \<Rightarrow> parsed_header \<Rightarrow> msg_entry option \<Rightarrow> (u8 option \<times> u8 option) may_panic" where
  "extract_targets frame header entry =
     (case entry of
        None \<Rightarrow> Some (None, None)
      | Some e \<Rightarrow> do {
          ts \<leftarrow> (case target_sys_offset e of None \<Rightarrow> Some None | Some off \<Rightarrow> read_at frame header off);
          tc \<leftarrow> (case target_comp_offset e of None \<Rightarrow> Some None | Some off \<Rightarrow> read_at frame header off);
          Some (ts, tc)
        })"

definition try_validate_and_emit ::
  "msg_table \<Rightarrow> framer \<Rightarrow> stx \<Rightarrow> nat \<Rightarrow> (framer \<times> (parsed_header \<times> bytes) option) may_panic" where
  "try_validate_and_emit tbl fr stx frame_len = do {
     frame \<leftarrow> slice (fr_buf fr) 0 frame_len;
     header \<leftarrow> parse_header frame stx;
     let entry = msg_lookup tbl (hdr_msgid header);
     crc_ok \<leftarrow> (case entry of Some e \<Rightarrow> validate_crc frame header (crc_extra e) | None \<Rightarrow> Some True);
     (if \<not> crc_ok then do {
        fr' \<leftarrow> discard_byte (fr\<lparr>fr_crc_errors := sat_add (fr_crc_errors fr) 1\<rparr>);
        Some (fr', None)
      } else do {
        (ts, tc) \<leftarrow> extract_targets frame header entry;
        fr' \<leftarrow> advance fr frame_len;
        Some (fr', Some (header\<lparr>hdr_target_system := ts, hdr_target_component := tc\<rparr>, frame))
      })
   }"

lemma advance_Some: "advance fr n = Some fr' \<Longrightarrow> length (fr_buf fr') = length (fr_buf fr) - n \<and> n \<le> length (fr_buf fr)"
  by (auto simp: advance_def split: if_splits)

lemma discard_byte_shorter: "discard_byte fr = Some fr' \<Longrightarrow> length (fr_buf fr') < length (fr_buf fr)"
  by (auto simp: discard_byte_def add_resync_def dest!: advance_Some)

lemma align_to_stx_not_longer:
  "align_to_stx fr = Some (fr', r) \<Longrightarrow> length (fr_buf fr') \<le> length (fr_buf fr)"
  by (auto simp: align_to_stx_def add_resync_def split: option.splits if_splits bind_splits dest!: advance_Some)

lemma try_validate_None_shorter:
  "try_validate_and_emit tbl fr stx n = Some (fr', None) \<Longrightarrow> length (fr_buf fr') < length (fr_buf fr)"
  by (auto simp: try_validate_and_emit_def Let_def split: bind_splits if_splits
      dest!: discard_byte_shorter)

function try_next_frame ::
  "msg_table \<Rightarrow> framer \<Rightarrow> (framer \<times> (parsed_header \<times> bytes) option) may_panic" where
  "try_next_frame tbl fr =
     (case align_to_stx fr of
        None \<Rightarrow> None
      | Some (fr1, None) \<Rightarrow> Some (fr1, None)
      | Some (fr1, Some stx) \<Rightarrow>
          if length (fr_buf fr1) < stx_header_len stx then Some (fr1, None)
          else case decide_frame_len fr1 stx of
            None \<Rightarrow> None
          | Some UnknownIncompatFlag \<Rightarrow>
              (case discard_byte fr1 of None \<Rightarrow> None | Some fr2 \<Rightarrow> try_next_frame tbl fr2)
          | Some (Ready frame_len) \<Rightarrow>
              if length (fr_buf fr1) < frame_len then Some (fr1, None)
              else case try_validate_and_emit tbl fr1 stx frame_len of
                None \<Rightarrow> None
              | Some (fr2, Some out) \<Rightarrow> Some (fr2, Some out)
              | Some (fr2, None) \<Rightarrow> try_next_frame tbl fr2)"
  by pat_completeness auto
termination
  by (relation "measure (\<lambda>(tbl, fr). length (fr_buf fr))")
    (auto dest!: align_to_stx_not_longer discard_byte_shorter try_validate_None_shorter)

declare try_next_frame.simps [simp del]


text \<open>
  The loop \<^verbatim>\<open>while let Some(..) = framer.try_next_frame()\<close> of the readers: collect
  frames until the buffer holds no complete one.
\<close>

lemma try_emit_shorter:
  assumes "decide_frame_len fr stx = Some (Ready n)"
    and "try_validate_and_emit tbl fr stx n = Some (fr', Some out)"
  shows "length (fr_buf fr') < length (fr_buf fr)"
proof -
  have "0 < n" using assms(1)
    by (auto simp: decide_frame_len_def frame_consts Let_def split: bind_splits if_splits stx.splits)
  with assms(2) show ?thesis
    by (auto simp: try_validate_and_emit_def Let_def split: bind_splits if_splits prod.splits
        dest!: advance_Some)
qed

lemma try_next_frame_shorter:
  "try_next_frame tbl fr = Some (fr', Some out) \<Longrightarrow> length (fr_buf fr') < length (fr_buf fr)"
proof (induction "length (fr_buf fr)" arbitrary: fr rule: less_induct)
  case less
  have rec: "length (fr_buf fr') < length (fr_buf fr)"
    if "try_next_frame tbl fr2 = Some (fr', Some out)" and "length (fr_buf fr2) < length (fr_buf fr1)"
      and "length (fr_buf fr1) \<le> length (fr_buf fr)" for fr1 fr2
    using less.hyps [OF _ that(1)] that(2,3) by linarith
  from less.prems show ?case
    by (subst (asm) try_next_frame.simps)
      (auto split: option.splits prod.splits if_splits frame_len.splits intro: rec
        dest!: align_to_stx_not_longer discard_byte_shorter try_validate_None_shorter
        dest: try_emit_shorter)
qed

function drain_frames :: "msg_table \<Rightarrow> framer \<Rightarrow> ((parsed_header \<times> bytes) list \<times> framer) may_panic" where
  "drain_frames tbl fr =
     (case try_next_frame tbl fr of
        None \<Rightarrow> None
      | Some (fr', None) \<Rightarrow> Some ([], fr')
      | Some (fr', Some out) \<Rightarrow> map_option (\<lambda>(outs, fr''). (out # outs, fr'')) (drain_frames tbl fr'))"
  by pat_completeness auto
termination
  by (relation "measure (\<lambda>(tbl, fr). length (fr_buf fr))") (auto dest!: try_next_frame_shorter)

declare drain_frames.simps [simp del]

end
