(* ===== verification/Framer_Scan.thy ===== *)
theory Framer_Scan
  imports Framer
begin

text \<open>
  A reference scanner that walks the bytes of a stream one at a time, and the proof that the
  framer of \<^verbatim>\<open>src/mavlink/framer.rs\<close> implements it: same frames, same counters, same
  remaining bytes, and never a panic.
\<close>

section \<open>The reference scanner\<close>

text \<open>
  What the bytes mean, independently of the buffer handling: the length announced by a
  header, the header's fields, the checksum condition, and a verdict on the first byte of a
  buffer.
\<close>

definition wire_len :: "bytes \<Rightarrow> nat option" where
  "wire_len b =
     (if b ! 0 = 0xFE then Some (8 + unat (b ! 1))
      else if b ! 2 \<le> 1 then Some (12 + unat (b ! 1) + 13 * unat (b ! 2))
      else None)"

definition wire_start :: "bytes \<Rightarrow> nat" where
  "wire_start b = (if b ! 0 = 0xFE then 6 else 10)"

definition wire_msgid :: "bytes \<Rightarrow> u32" where
  "wire_msgid b =
     (if b ! 0 = 0xFE then ucast (b ! 5)
      else ucast (b ! 7) + 256 * ucast (b ! 8) + 65536 * ucast (b ! 9))"

definition wire_target :: "bytes \<Rightarrow> u8 option \<Rightarrow> u8 option" where
  "wire_target b off =
     (case off of
        None \<Rightarrow> None
      | Some k \<Rightarrow> if unat k < unat (b ! 1) then Some (b ! (wire_start b + unat k)) else None)"

definition wire_header :: "msg_table \<Rightarrow> bytes \<Rightarrow> parsed_header" where
  "wire_header tbl b =
     (let v1 = (b ! 0 = 0xFE); e = msg_lookup tbl (wire_msgid b)
      in \<lparr>hdr_version = (if v1 then Version_V1 else Version_V2),
          hdr_source = (if v1 then node_new (b ! 3) (b ! 4) else node_new (b ! 5) (b ! 6)),
          hdr_msgid = wire_msgid b,
          hdr_seq = (if v1 then b ! 2 else b ! 4),
          hdr_payload_len = b ! 1,
          hdr_target_system = Option.bind e (\<lambda>e. wire_target b (target_sys_offset e)),
          hdr_target_component = Option.bind e (\<lambda>e. wire_target b (target_comp_offset e))\<rparr>)"

definition wire_crc_ok :: "msg_table \<Rightarrow> bytes \<Rightarrow> bool" where
  "wire_crc_ok tbl b =
     (case msg_lookup tbl (wire_msgid b) of
        None \<Rightarrow> True
      | Some e \<Rightarrow>
          let n = wire_start b + unat (b ! 1)
          in crc_finalize (crc_update_slice crc_new (take (n - 1) (drop 1 b) @ [crc_extra e]))
             = ucast (b ! n) + 256 * ucast (b ! (n + 1)))"

datatype verdict = NeedMore | Garbage | Corrupt | Accept parsed_header nat

definition classify :: "msg_table \<Rightarrow> bytes \<Rightarrow> verdict" where
  "classify tbl b =
     (if b = [] then NeedMore
      else if b ! 0 \<noteq> 0xFE \<and> b ! 0 \<noteq> 0xFD then Garbage
      else if length b < wire_start b then NeedMore
      else case wire_len b of
        None \<Rightarrow> Garbage
      | Some n \<Rightarrow>
          if length b < n then NeedMore
          else if wire_crc_ok tbl b then Accept (wire_header tbl b) n
          else Corrupt)"

lemma classify_Nil [simp]: "classify tbl [] = NeedMore"
  by (simp add: classify_def)

lemma classify_nonempty: "classify tbl b \<noteq> NeedMore \<Longrightarrow> b \<noteq> []"
  by auto

lemma wire_len_bounds: "wire_len b = Some n \<Longrightarrow> 8 \<le> n \<and> n \<le> 280"
proof -
  assume n: "wire_len b = Some n"
  have "unat (b ! 1) < 256" by (rule unat_u8_less)
  moreover have "b ! 2 \<le> 1 \<Longrightarrow> unat (b ! 2) \<le> 1" by (simp add: word_le_nat_alt)
  ultimately show ?thesis using n by (auto simp: wire_len_def split: if_splits)
qed

lemma classify_Accept_bounds: "classify tbl b = Accept h n \<Longrightarrow> 8 \<le> n \<and> n \<le> length b"
  by (auto simp: classify_def split: if_splits option.splits dest!: wire_len_bounds)

function scan :: "msg_table \<Rightarrow> bytes \<Rightarrow> nat \<times> nat \<times> (parsed_header \<times> bytes) option \<times> bytes" where
  "scan tbl b =
     (case classify tbl b of
        NeedMore \<Rightarrow> (0, 0, None, b)
      | Garbage \<Rightarrow> (let (s, k, out, r) = scan tbl (tl b) in (s + 1, k, out, r))
      | Corrupt \<Rightarrow> (let (s, k, out, r) = scan tbl (tl b) in (s + 1, k + 1, out, r))
      | Accept h n \<Rightarrow> (0, 0, Some (h, take n b), drop n b))"
  by pat_completeness auto
termination
  by (relation "measure (\<lambda>(tbl, b). length b)") (auto intro!: diff_less dest: classify_nonempty)

function scan_all :: "msg_table \<Rightarrow> bytes \<Rightarrow> (parsed_header \<times> bytes) list \<times> nat \<times> nat \<times> bytes" where
  "scan_all tbl b =
     (case classify tbl b of
        NeedMore \<Rightarrow> ([], 0, 0, b)
      | Garbage \<Rightarrow> (let (fs, s, k, r) = scan_all tbl (tl b) in (fs, s + 1, k, r))
      | Corrupt \<Rightarrow> (let (fs, s, k, r) = scan_all tbl (tl b) in (fs, s + 1, k + 1, r))
      | Accept h n \<Rightarrow> (let (fs, s, k, r) = scan_all tbl (drop n b) in ((h, take n b) # fs, s, k, r)))"
  by pat_completeness auto
termination
  by (relation "measure (\<lambda>(tbl, b). length b)")
    (auto intro!: diff_less dest: classify_nonempty dest!: classify_Accept_bounds)

declare scan.simps [simp del] scan_all.simps [simp del]


section \<open>The framer implements the scanner\<close>

definition sat_bump :: "u64 \<Rightarrow> nat \<Rightarrow> u64" where
  "sat_bump c n = of_nat (min (unat c + n) (2 ^ 64 - 1))"

lemma unat_sat_bump: "unat (sat_bump c n) = min (unat c + n) (2 ^ 64 - 1)"
  by (simp add: sat_bump_def unat_of_nat min_def)

lemma sat_bump_0 [simp]: "sat_bump c 0 = c"
  using unat_u64_less [of c] by (simp add: word_unat_eq_iff unat_sat_bump)

lemma sat_bump_bump [simp]: "sat_bump (sat_bump c n) m = sat_bump c (n + m)"
  by (simp add: word_unat_eq_iff unat_sat_bump)

lemma sat_add_of_nat: "n < 2 ^ 64 \<Longrightarrow> sat_add c (of_nat n) = sat_bump c n"
  by (simp add: word_unat_eq_iff unat_sat_bump unat_sat_add unat_of_nat)

lemma sat_add_1: "sat_add c 1 = sat_bump c 1"
  using sat_add_of_nat [of 1 c] by simp

definition bump :: "framer \<Rightarrow> nat \<Rightarrow> nat \<Rightarrow> bytes \<Rightarrow> framer" where
  "bump fr s k r =
     fr\<lparr>fr_buf := r, fr_resync_bytes := sat_bump (fr_resync_bytes fr) s,
        fr_crc_errors := sat_bump (fr_crc_errors fr) k\<rparr>"

lemma bump_simps [simp]:
  "fr_buf (bump fr s k r) = r"
  "bump (bump fr s k r) s' k' r' = bump fr (s + s') (k + k') r'"
  "bump fr 0 0 (fr_buf fr) = fr"
  by (simp_all add: bump_def)

lemma advance_bump: "n \<le> length (fr_buf fr) \<Longrightarrow> advance fr n = Some (bump fr 0 0 (drop n (fr_buf fr)))"
  by (simp add: advance_def bump_def)

lemma add_resync_bump: "n < 2 ^ 64 \<Longrightarrow> add_resync fr (of_nat n) = bump fr n 0 (fr_buf fr)"
  by (simp add: add_resync_def bump_def sat_add_of_nat)

lemma discard_byte_bump: "fr_buf fr \<noteq> [] \<Longrightarrow> discard_byte fr = Some (bump fr 1 0 (tl (fr_buf fr)))"
proof -
  assume "fr_buf fr \<noteq> []"
  then have "1 \<le> length (fr_buf fr)" by (cases "fr_buf fr") auto
  then show ?thesis
    using add_resync_bump [of 1 fr]
    by (simp add: discard_byte_def advance_bump drop_Suc)
qed

lemma stx_from_byte_None: "stx_from_byte byte = None \<longleftrightarrow> byte \<noteq> 0xFE \<and> byte \<noteq> 0xFD"
  by (auto simp: stx_from_byte_def frame_consts)

lemma find_stx_shift: "find_stx (n + m) b = map_option (\<lambda>(i, s). (i + n, s)) (find_stx m b)"
  by (induction b arbitrary: m) (auto split: option.splits simp flip: add_Suc_right)

lemma find_stx_scan:
  "case find_stx 0 b of
     None \<Rightarrow> scan tbl b = (length b, 0, None, [])
   | Some (p, stx) \<Rightarrow> p < length b \<and> stx_from_byte (b ! p) = Some stx
       \<and> scan tbl b = (let (s, k, out, r) = scan tbl (drop p b) in (p + s, k, out, r))"
proof (induction b)
  case Nil
  show ?case by (simp add: scan.simps)
next
  case (Cons x xs)
  show ?case
  proof (cases "stx_from_byte x")
    case (Some stx)
    then show ?thesis by (simp add: case_prod_unfold)
  next
    case None
    then have "classify tbl (x # xs) = Garbage"
      by (simp add: classify_def stx_from_byte_None)
    then have step: "scan tbl (x # xs) = (let (s, k, out, r) = scan tbl xs in (s + 1, k, out, r))"
      by (simp add: scan.simps [of tbl "x # xs"])
    have shift: "find_stx (Suc 0) xs = map_option (\<lambda>(i, s). (i + 1, s)) (find_stx 0 xs)"
      using find_stx_shift [of 1 0 xs] by simp
    show ?thesis
      using Cons.IH None step
      by (auto simp: shift Let_def split: option.splits prod.splits)
  qed
qed

lemma idx_Some [simp]: "i < length xs \<Longrightarrow> idx xs i = Some (xs ! i)"
  by (simp add: idx_def)

lemma stx_from_byte_Some:
  "stx_from_byte byte = Some stx \<longleftrightarrow> byte = 0xFE \<and> stx = Stx_V1 \<or> byte = 0xFD \<and> stx = Stx_V2"
  by (auto simp: stx_from_byte_def frame_consts)

lemma u8_le_1: "f \<le> 1 \<longleftrightarrow> f = 0 \<or> f = 1" for f :: u8
  using order_antisym_conv word_le_sub1 by auto

lemma iflags_unknown_iff: "f AND NOT 1 = 0 \<longleftrightarrow> f \<le> 1" for f :: u8
proof
  assume "f AND NOT 1 = 0"
  then have "f = f AND 1"
    by (metis (no_types, lifting) and.right_neutral bit.conj_disj_distrib bit.disj_cancel_left
        or.right_neutral word_not_not)
  then show "f \<le> 1" by (metis word_and_le1)
next
  assume "f \<le> 1"
  then show "f AND NOT 1 = 0" by (auto simp: u8_le_1)
qed

lemma iflags_mask_iff: "f AND - 2 = 0 \<longleftrightarrow> f \<le> 1" for f :: u8
  using iflags_unknown_iff [of f] by simp

lemma decide_frame_len_wire:
  assumes "stx_from_byte (fr_buf fr ! 0) = Some stx" and "stx_header_len stx \<le> length (fr_buf fr)"
  shows "decide_frame_len fr stx
       = Some (case wire_len (fr_buf fr) of None \<Rightarrow> UnknownIncompatFlag | Some n \<Rightarrow> Ready n)"
  using assms
  by (auto simp: decide_frame_len_def wire_len_def stx_from_byte_Some frame_consts
      iflags_mask_iff u8_le_1)

definition bare_header :: "bytes \<Rightarrow> parsed_header" where
  "bare_header b =
     (wire_header [] b)\<lparr>hdr_target_system := None, hdr_target_component := None\<rparr>"

lemma bare_header_simps [simp]:
  "hdr_msgid (bare_header b) = wire_msgid b"
  "hdr_payload_len (bare_header b) = b ! 1"
  "payload_start (bare_header b) = wire_start b"
  by (simp_all add: bare_header_def wire_header_def payload_start_def wire_start_def frame_consts Let_def)

lemma parse_header_wire:
  assumes "stx_from_byte (b ! 0) = Some stx" and "wire_start b \<le> n" and "n \<le> length b"
  shows "parse_header (take n b) stx = Some (bare_header b)"
  using assms
  by (auto simp: parse_header_def bare_header_def wire_header_def wire_start_def wire_msgid_def
      stx_from_byte_Some u32_from_le_bytes_def Let_def)

lemma validate_crc_wire:
  assumes "wire_start b + unat (b ! 1) + 2 \<le> n" and "n \<le> length b"
  shows "validate_crc (take n b) (bare_header b) x
       = Some (let m = wire_start b + unat (b ! 1)
               in crc_finalize (crc_update_slice crc_new (take (m - 1) (drop 1 b) @ [x]))
                  = ucast (b ! m) + 256 * ucast (b ! (m + 1)))"
proof -
  have "1 \<le> wire_start b" by (simp add: wire_start_def)
  with assms show ?thesis
    by (simp add: validate_crc_def slice_def Let_def drop_take min_absorb1 u16_from_le_bytes_def)
qed

lemma read_at_wire:
  assumes "wire_start b + unat (b ! 1) \<le> n" and "n \<le> length b"
  shows "read_at (take n b) (bare_header b) off = Some (wire_target b (Some off))"
  using assms by (auto simp: read_at_def wire_target_def)

lemma extract_targets_wire:
  assumes "wire_start b + unat (b ! 1) \<le> n" and "n \<le> length b"
  shows "extract_targets (take n b) (bare_header b) e
       = Some (Option.bind e (\<lambda>e. wire_target b (target_sys_offset e)),
               Option.bind e (\<lambda>e. wire_target b (target_comp_offset e)))"
  using assms
  by (cases e) (auto simp: extract_targets_def read_at_wire wire_target_def split: option.splits)

lemma wire_len_room: "wire_len b = Some n \<Longrightarrow> wire_start b + unat (b ! 1) + 2 \<le> n"
  by (auto simp: wire_len_def wire_start_def split: if_splits)

lemma bare_header_targets:
  "(bare_header b)\<lparr>hdr_target_system := Option.bind (msg_lookup tbl (wire_msgid b)) (\<lambda>e. wire_target b (target_sys_offset e)),
     hdr_target_component := Option.bind (msg_lookup tbl (wire_msgid b)) (\<lambda>e. wire_target b (target_comp_offset e))\<rparr>
   = wire_header tbl b"
  by (simp add: bare_header_def wire_header_def Let_def)

lemma try_validate_wire:
  fixes fr :: framer
  defines "b \<equiv> fr_buf fr"
  assumes stx: "stx_from_byte (b ! 0) = Some stx" and n: "wire_len b = Some n" and len: "n \<le> length b"
  shows "try_validate_and_emit tbl fr stx n
       = Some (if wire_crc_ok tbl b then (bump fr 0 0 (drop n b), Some (wire_header tbl b, take n b))
               else (bump fr 1 1 (tl b), None))"
proof -
  note room = wire_len_room [OF n]
  have frame: "slice b 0 n = Some (take n b)" using len by (simp add: slice_def)
  have hdr: "parse_header (take n b) stx = Some (bare_header b)"
    using parse_header_wire [OF stx _ len] room by simp
  have crc: "(case msg_lookup tbl (wire_msgid b) of
       Some e \<Rightarrow> validate_crc (take n b) (bare_header b) (crc_extra e) | None \<Rightarrow> Some True)
     = Some (wire_crc_ok tbl b)"
    by (simp add: validate_crc_wire [OF room len] wire_crc_ok_def split: option.splits)
  have tgt: "extract_targets (take n b) (bare_header b) e
       = Some (Option.bind e (\<lambda>e. wire_target b (target_sys_offset e)),
               Option.bind e (\<lambda>e. wire_target b (target_comp_offset e)))" for e
    using extract_targets_wire [OF _ len, of e] room by simp
  have "b \<noteq> []" using wire_len_bounds [OF n] len by auto
  then have disc: "discard_byte (fr\<lparr>fr_crc_errors := sat_add (fr_crc_errors fr) 1\<rparr>) = Some (bump fr 1 1 (tl b))"
    by (simp add: discard_byte_bump b_def) (simp add: bump_def sat_add_1)
  have adv: "advance fr n = Some (bump fr 0 0 (drop n b))"
    using len by (simp add: advance_bump b_def)
  show ?thesis
    by (simp add: try_validate_and_emit_def frame hdr crc tgt disc adv bare_header_targets
        flip: b_def)
qed

lemma align_to_stx_scan:
  assumes "length (fr_buf fr) < 2 ^ 64"
  shows "align_to_stx fr =
     (case find_stx 0 (fr_buf fr) of
        None \<Rightarrow> Some (bump fr (length (fr_buf fr)) 0 [], None)
      | Some (p, stx) \<Rightarrow> Some (bump fr p 0 (drop p (fr_buf fr)), Some stx))"
proof (cases "find_stx 0 (fr_buf fr)")
  case None
  with assms show ?thesis by (simp add: align_to_stx_def add_resync_bump) (simp add: bump_def)
next
  case (Some a)
  obtain p stx where a: "a = (p, stx)" by (cases a)
  with Some find_stx_scan [where b = "fr_buf fr" and tbl = "[]"] have p: "p < length (fr_buf fr)" by simp
  with Some a assms show ?thesis by (simp add: align_to_stx_def add_resync_bump advance_bump)
qed

text \<open>One iteration of the loop, once the buffer starts with a start byte, follows the verdict.\<close>

lemma try_next_frame_aligned:
  fixes fr1 :: framer
  defines "b \<equiv> fr_buf fr1"
  assumes align: "align_to_stx fr = Some (fr1, Some stx)"
    and stx: "stx_from_byte (b ! 0) = Some stx" and ne: "b \<noteq> []"
  shows "try_next_frame tbl fr =
     (case classify tbl b of
        NeedMore \<Rightarrow> Some (fr1, None)
      | Garbage \<Rightarrow> try_next_frame tbl (bump fr1 1 0 (tl b))
      | Corrupt \<Rightarrow> try_next_frame tbl (bump fr1 1 1 (tl b))
      | Accept h n \<Rightarrow> Some (bump fr1 0 0 (drop n b), Some (h, take n b)))"
proof -
  have start: "stx_header_len stx = wire_start b"
    using stx by (auto simp: stx_from_byte_Some wire_start_def frame_consts)
  have len: "decide_frame_len fr1 stx
      = Some (case wire_len b of None \<Rightarrow> UnknownIncompatFlag | Some n \<Rightarrow> Ready n)"
    if "wire_start b \<le> length b"
    using decide_frame_len_wire [of fr1 stx] stx start that by (simp add: b_def)
  have emit: "try_validate_and_emit tbl fr1 stx n
     = Some (if wire_crc_ok tbl b then (bump fr1 0 0 (drop n b), Some (wire_header tbl b, take n b))
             else (bump fr1 1 1 (tl b), None))"
    if "wire_len b = Some n" "n \<le> length b" for n
    using try_validate_wire [of fr1 stx n tbl] stx that by (simp add: b_def)
  have disc: "discard_byte fr1 = Some (bump fr1 1 0 (tl b))"
    using discard_byte_bump [of fr1] ne by (simp add: b_def)
  have known: "b ! 0 = 0xFE \<or> b ! 0 = 0xFD" using stx by (auto simp: stx_from_byte_Some)
  show ?thesis
    using align start len emit disc known ne
    by (subst try_next_frame.simps) (auto simp: classify_def b_def [symmetric] split: option.splits)
qed

definition framer_after :: "framer \<Rightarrow> nat \<times> nat \<times> 'o \<times> bytes \<Rightarrow> framer \<times> 'o" where
  "framer_after fr res = (case res of (s, k, out, r) \<Rightarrow> (bump fr s k r, out))"

lemma try_next_frame_scan:
  "length (fr_buf fr) < 2 ^ 64 \<Longrightarrow>
   try_next_frame tbl fr = Some (framer_after fr (scan tbl (fr_buf fr)))"
proof (induction "length (fr_buf fr)" arbitrary: fr rule: less_induct)
  case less
  show ?case
  proof (cases "find_stx 0 (fr_buf fr)")
    case None
    with find_stx_scan [where b = "fr_buf fr" and tbl = tbl] align_to_stx_scan [OF less.prems]
    show ?thesis by (subst try_next_frame.simps) (simp add: framer_after_def)
  next
    case (Some a)
    obtain p stx where a: "a = (p, stx)" by (cases a)
    let ?b = "drop p (fr_buf fr)" and ?fr1 = "bump fr p 0 (drop p (fr_buf fr))"
    from Some a find_stx_scan [where b = "fr_buf fr" and tbl = tbl]
    have p: "p < length (fr_buf fr)" and stx: "stx_from_byte (?b ! 0) = Some stx"
      and scan: "scan tbl (fr_buf fr) = (let (s, k, out, r) = scan tbl ?b in (p + s, k, out, r))"
      by auto
    have align: "align_to_stx fr = Some (?fr1, Some stx)"
      using Some a align_to_stx_scan [OF less.prems] by simp
    have goal: "framer_after fr (scan tbl (fr_buf fr)) = framer_after ?fr1 (scan tbl ?b)"
      by (simp add: scan framer_after_def split: prod.splits)
    have rec: "try_next_frame tbl fr2 = Some (framer_after fr2 (scan tbl (fr_buf fr2)))"
      if "fr_buf fr2 = tl ?b" for fr2
      using less.hyps [of fr2] less.prems that p by simp
    have "try_next_frame tbl fr = Some (framer_after ?fr1 (scan tbl ?b))"
      using rec try_next_frame_aligned [OF align] stx p
      by (simp add: scan.simps [of tbl ?b] framer_after_def split: verdict.splits prod.splits)
    then show ?thesis using goal by simp
  qed
qed

lemma scan_all_scan:
  "scan_all tbl b =
     (case scan tbl b of
        (s, k, None, r) \<Rightarrow> ([], s, k, r)
      | (s, k, Some out, r) \<Rightarrow>
          (let (fs, s', k', r') = scan_all tbl r in (out # fs, s + s', k + k', r')))"
proof (induction "length b" arbitrary: b rule: less_induct)
  case less
  show ?case
  proof (cases "classify tbl b = Garbage \<or> classify tbl b = Corrupt")
    case True
    then have "b \<noteq> []" by auto
    then have "scan_all tbl (tl b) =
     (case scan tbl (tl b) of
        (s, k, None, r) \<Rightarrow> ([], s, k, r)
      | (s, k, Some out, r) \<Rightarrow>
          (let (fs, s', k', r') = scan_all tbl r in (out # fs, s + s', k + k', r')))"
      using less.hyps [of "tl b"] by simp
    with True show ?thesis
      by (auto simp: scan.simps [of tbl b] scan_all.simps [of tbl b] split: prod.splits option.splits)
  next
    case False
    then show ?thesis
      by (cases "classify tbl b")
        (auto simp: scan.simps [of tbl b] scan_all.simps [of tbl b] split: prod.splits)
  qed
qed

lemma scan_rest_shorter: "scan tbl b = (s, k, out, r) \<Longrightarrow> length r \<le> length b"
proof (induction tbl b arbitrary: s k out r rule: scan.induct)
  case (1 tbl b)
  from "1.prems" show ?case
    by (subst (asm) scan.simps) (auto split: verdict.splits prod.splits dest!: "1.IH")
qed

lemma drain_frames_scan_all:
  "length (fr_buf fr) < 2 ^ 64 \<Longrightarrow>
   drain_frames tbl fr =
     Some (case scan_all tbl (fr_buf fr) of (fs, s, k, r) \<Rightarrow> (fs, bump fr s k r))"
proof (induction tbl fr rule: drain_frames.induct)
  case (1 tbl fr)
  note next_frame = try_next_frame_scan [OF "1.prems", of tbl]
  obtain s k out r where sc: "scan tbl (fr_buf fr) = (s, k, out, r)" by (cases "scan tbl (fr_buf fr)")
  show ?case
  proof (cases out)
    case None
    with next_frame sc show ?thesis
      by (subst drain_frames.simps) (simp add: framer_after_def scan_all_scan [of tbl "fr_buf fr"])
  next
    case (Some f)
    have "length r < 2 ^ 64" using scan_rest_shorter [OF sc] "1.prems" by simp
    with "1.IH" [of "(bump fr s k r, out)" "bump fr s k r" out f] next_frame sc Some
    have "drain_frames tbl (bump fr s k r) =
        Some (case scan_all tbl r of (fs, s', k', r') \<Rightarrow> (fs, bump fr (s + s') (k + k') r'))"
      by (simp add: framer_after_def)
    with next_frame sc Some show ?thesis
      by (subst drain_frames.simps)
        (simp add: framer_after_def scan_all_scan [of tbl "fr_buf fr"] split: prod.splits)
  qed
qed

section \<open>Facts about the scanner\<close>

lemma scan_all_cases:
  assumes "scan_all tbl b = (fs, s, k, r)"
  obtains "classify tbl b = NeedMore" "fs = []" "s = 0" "k = 0" "r = b"
  | s' where "classify tbl b = Garbage" "scan_all tbl (tl b) = (fs, s', k, r)" "s = Suc s'"
  | s' k' where "classify tbl b = Corrupt" "scan_all tbl (tl b) = (fs, s', k', r)" "s = Suc s'" "k = Suc k'"
  | h n fs' where "classify tbl b = Accept h n" "scan_all tbl (drop n b) = (fs', s, k, r)"
      "fs = (h, take n b) # fs'"
  using assms by (subst (asm) scan_all.simps) (auto split: verdict.splits prod.splits)

lemma wire_start_append: "b \<noteq> [] \<Longrightarrow> wire_start (b @ c) = wire_start b"
  by (simp add: wire_start_def nth_append)

lemma wire_len_append: "3 \<le> length b \<Longrightarrow> wire_len (b @ c) = wire_len b"
  by (auto simp: wire_len_def nth_append)

lemma wire_msgid_append: "b \<noteq> [] \<Longrightarrow> wire_start b \<le> length b \<Longrightarrow> wire_msgid (b @ c) = wire_msgid b"
  by (auto simp: wire_msgid_def wire_start_def nth_append split: if_splits)

lemma wire_target_append:
  "3 \<le> length b \<Longrightarrow> wire_start b + unat (b ! 1) \<le> length b \<Longrightarrow>
   wire_target (b @ c) off = wire_target b off"
  by (cases "b = []") (auto simp: wire_target_def wire_start_append nth_append split: option.splits)

lemma wire_frame_append:
  assumes "wire_start b \<le> length b" and "wire_start b + unat (b ! 1) + 2 \<le> length b"
  shows "wire_header tbl (b @ c) = wire_header tbl b" and "wire_crc_ok tbl (b @ c) = wire_crc_ok tbl b"
proof -
  have ten: "6 \<le> length b" and v2: "b ! 0 \<noteq> 0xFE \<Longrightarrow> 10 \<le> length b"
    using assms(1) by (auto simp: wire_start_def split: if_splits)
  then have "b \<noteq> []" by auto
  note app = wire_start_append [OF this] wire_msgid_append [OF this assms(1)]
  from ten assms(2) have tgt: "wire_target (b @ c) off = wire_target b off" for off
    by (intro wire_target_append) auto
  show "wire_header tbl (b @ c) = wire_header tbl b"
    using ten v2 by (auto simp: wire_header_def app tgt nth_append Let_def)
  show "wire_crc_ok tbl (b @ c) = wire_crc_ok tbl b"
    using ten assms(2) by (auto simp: wire_crc_ok_def app nth_append Let_def split: option.splits)
qed

lemma classify_append:
  assumes "classify tbl b \<noteq> NeedMore"
  shows "classify tbl (b @ c) = classify tbl b"
proof -
  from assms have ne: "b \<noteq> []" by auto
  then have fst: "(b @ c) ! 0 = b ! 0" by (simp add: nth_append)
  show ?thesis
  proof (cases "b ! 0 \<noteq> 0xFE \<and> b ! 0 \<noteq> 0xFD")
    case True
    with ne fst show ?thesis by (simp add: classify_def)
  next
    case known: False
    with assms ne have start: "wire_start b \<le> length b"
      by (auto simp: classify_def split: if_splits)
    then have "3 \<le> length b" by (auto simp: wire_start_def split: if_splits)
    note app = wire_start_append [OF ne] wire_len_append [OF this]
    show ?thesis
    proof (cases "wire_len b")
      case None
      with known start ne fst app show ?thesis by (simp add: classify_def)
    next
      case (Some n)
      with assms known start ne have n: "n \<le> length b" by (auto simp: classify_def split: if_splits)
      with wire_frame_append [OF start, of tbl c] wire_len_room [OF Some] Some known start ne fst app
      show ?thesis by (auto simp: classify_def)
    qed
  qed
qed

lemma scan_all_append:
  "scan_all tbl b = (fs, s, k, r) \<Longrightarrow>
   scan_all tbl (b @ c) =
     (let (fs', s', k', r') = scan_all tbl (r @ c) in (fs @ fs', s + s', k + k', r'))"
proof (induction "length b" arbitrary: b fs s k rule: less_induct)
  case less
  from less.prems show ?case
  proof (cases rule: scan_all_cases)
    case 1
    then show ?thesis by (simp add: case_prod_unfold)
  next
    case (2 s')
    then have ne: "b \<noteq> []" by auto
    with less.hyps [OF _ 2(2)] classify_append [of tbl b c] 2 show ?thesis
      by (subst scan_all.simps) (simp split: prod.splits)
  next
    case (3 s' k')
    then have ne: "b \<noteq> []" by auto
    with less.hyps [OF _ 3(2)] classify_append [of tbl b c] 3 show ?thesis
      by (subst scan_all.simps) (simp split: prod.splits)
  next
    case (4 h n fs')
    from classify_Accept_bounds [OF 4(1)] have n: "8 \<le> n" "n \<le> length b" by auto
    with less.hyps [OF _ 4(2)] classify_append [of tbl b c] 4 show ?thesis
      by (subst scan_all.simps) (simp split: prod.splits)
  qed
qed

lemma scan_all_rest: "scan_all tbl b = (fs, s, k, r) \<Longrightarrow> classify tbl r = NeedMore"
proof (induction "length b" arbitrary: b fs s k rule: less_induct)
  case less
  from less.prems show ?case
  proof (cases rule: scan_all_cases)
    case (4 h n fs')
    from classify_Accept_bounds [OF 4(1)] less.hyps [OF _ 4(2)] show ?thesis by auto
  next
    case (2 s')
    then have "b \<noteq> []" by auto
    with less.hyps [OF _ 2(2)] show ?thesis by simp
  next
    case (3 s' k')
    then have "b \<noteq> []" by auto
    with less.hyps [OF _ 3(2)] show ?thesis by simp
  qed simp
qed

lemma classify_NeedMore_short: "classify tbl r = NeedMore \<Longrightarrow> length r < 280"
  by (auto simp: classify_def wire_start_def split: if_splits option.splits dest!: wire_len_bounds)

lemma scan_all_length:
  "scan_all tbl b = (fs, s, k, r) \<Longrightarrow> length b = s + sum_list (map (length \<circ> snd) fs) + length r"
proof (induction "length b" arbitrary: b fs s k rule: less_induct)
  case less
  from less.prems show ?case
  proof (cases rule: scan_all_cases)
    case 1
    then show ?thesis by simp
  next
    case (2 s')
    then have "b \<noteq> []" by auto
    with less.hyps [OF _ 2(2)] 2 show ?thesis by (cases b) auto
  next
    case (3 s' k')
    then have "b \<noteq> []" by auto
    with less.hyps [OF _ 3(2)] 3 show ?thesis by (cases b) auto
  next
    case (4 h n fs')
    from classify_Accept_bounds [OF 4(1)] have n: "8 \<le> n" "n \<le> length b" by auto
    then have "length (drop n b) < length b" by simp
    from less.hyps [OF this 4(2)] n 4 show ?thesis by simp
  qed
qed

lemma classify_take:
  assumes "classify tbl b = Accept h n"
  shows "classify tbl (take n b) = Accept h n"
proof -
  from classify_Accept_bounds [OF assms] have n: "8 \<le> n" "n \<le> length b" by auto
  from assms have len: "wire_len b = Some n" and b: "b ! 0 = 0xFE \<or> b ! 0 = 0xFD"
    by (auto simp: classify_def split: if_splits option.splits)
  from n wire_len_append [of "take n b" "drop n b"] len have "wire_len (take n b) = Some n" by simp
  moreover have "wire_start (take n b) \<le> n"
    using n wire_len_room [OF len] by (simp add: wire_start_def)
  ultimately have "classify tbl (take n b) \<noteq> NeedMore" using n b by (auto simp: classify_def)
  from classify_append [OF this, of "drop n b"] assms show ?thesis by simp
qed

lemma scan_all_valid:
  "scan_all tbl b = (fs, s, k, r) \<Longrightarrow> (h, f) \<in> set fs \<Longrightarrow> classify tbl f = Accept h (length f)"
proof (induction "length b" arbitrary: b fs s k rule: less_induct)
  case less
  from less.prems(1) show ?case
  proof (cases rule: scan_all_cases)
    case 1
    with less.prems show ?thesis by simp
  next
    case (2 s')
    then have "b \<noteq> []" by auto
    with less.hyps [OF _ 2(2) less.prems(2)] show ?thesis by simp
  next
    case (3 s' k')
    then have "b \<noteq> []" by auto
    with less.hyps [OF _ 3(2) less.prems(2)] show ?thesis by simp
  next
    case (4 h' n fs')
    from classify_Accept_bounds [OF 4(1)] have n: "8 \<le> n" "n \<le> length b" by auto
    with classify_take [OF 4(1)] less.hyps [OF _ 4(2)] less.prems(2) 4(3) show ?thesis by auto
  qed
qed

end
