(* ===== verification/Endpoint_Stats.thy ===== *)
theory Endpoint_Stats
  imports Framer_Scan
begin

text \<open>
  The counters of an endpoint, \<^verbatim>\<open>src/endpoint/stats.rs\<close>. Each atomic counter is a 64-bit
  word and \<^verbatim>\<open>fetch_add\<close> wraps around. A record of counters is shared by reference, so the
  operations here map one record to the next and the owners of the references keep the store.
\<close>

section \<open>Health state\<close>

datatype endpoint_state = Reconnecting | Connected | Idle | Down | Unknown

fun state_as_u8 :: "endpoint_state \<Rightarrow> u8" where
  "state_as_u8 Reconnecting = 0"
| "state_as_u8 Connected = 1"
| "state_as_u8 Idle = 2"
| "state_as_u8 Down = 3"
| "state_as_u8 Unknown = 4"

definition state_from_u8 :: "u8 \<Rightarrow> endpoint_state" where
  "state_from_u8 value =
     (if value = 0 then Reconnecting else if value = 1 then Connected
      else if value = 2 then Idle else if value = 3 then Down else Unknown)"

lemma state_round_trip [simp]: "state_from_u8 (state_as_u8 s) = s"
  by (cases s) (simp_all add: state_from_u8_def)

section \<open>Counters\<close>

record endpoint_stats =
  es_rx_frames :: u64
  es_tx_frames :: u64
  es_rx_bytes :: u64
  es_tx_bytes :: u64
  es_dropped_tx :: u64
  es_crc_errors :: u64
  es_resync_bytes :: u64
  es_in_filter_drops :: u64
  es_out_filter_drops :: u64
  es_dedup_drops :: u64
  es_rx_lost_est :: u64
  es_learn_entries :: u64
  es_state :: u8

definition stats_new :: "endpoint_state \<Rightarrow> endpoint_stats" where
  "stats_new state =
     \<lparr>es_rx_frames = 0, es_tx_frames = 0, es_rx_bytes = 0, es_tx_bytes = 0, es_dropped_tx = 0,
      es_crc_errors = 0, es_resync_bytes = 0, es_in_filter_drops = 0, es_out_filter_drops = 0,
      es_dedup_drops = 0, es_rx_lost_est = 0, es_learn_entries = 0, es_state = state_as_u8 state\<rparr>"

definition load_state :: "endpoint_stats \<Rightarrow> endpoint_state" where
  "load_state s = state_from_u8 (es_state s)"

definition store_state :: "endpoint_state \<Rightarrow> endpoint_stats \<Rightarrow> endpoint_stats" where
  "store_state state s = s\<lparr>es_state := state_as_u8 state\<rparr>"

definition add_rx_frame :: "nat \<Rightarrow> endpoint_stats \<Rightarrow> endpoint_stats" where
  "add_rx_frame n s = s\<lparr>es_rx_frames := es_rx_frames s + 1, es_rx_bytes := es_rx_bytes s + of_nat n\<rparr>"

definition add_tx_frame :: "nat \<Rightarrow> endpoint_stats \<Rightarrow> endpoint_stats" where
  "add_tx_frame n s = s\<lparr>es_tx_frames := es_tx_frames s + 1, es_tx_bytes := es_tx_bytes s + of_nat n\<rparr>"

definition add_dropped_tx :: "u64 \<Rightarrow> endpoint_stats \<Rightarrow> endpoint_stats" where
  "add_dropped_tx n s = s\<lparr>es_dropped_tx := es_dropped_tx s + n\<rparr>"

section \<open>Publishing the framer's totals\<close>

record framer_counters =
  fc_last_resync_total :: u64
  fc_last_crc_total :: u64

definition counters_new :: framer_counters where
  "counters_new = \<lparr>fc_last_resync_total = 0, fc_last_crc_total = 0\<rparr>"

definition counters_sync :: "framer_counters \<Rightarrow> framer \<Rightarrow> endpoint_stats \<Rightarrow> framer_counters \<times> endpoint_stats" where
  "counters_sync fc fr s =
     (let now_resync = fr_resync_bytes fr;
          now_crc = fr_crc_errors fr;
          resync_delta = sat_sub now_resync (fc_last_resync_total fc);
          crc_delta = sat_sub now_crc (fc_last_crc_total fc);
          s1 = (if resync_delta > 0 then s\<lparr>es_resync_bytes := es_resync_bytes s + resync_delta\<rparr> else s);
          s2 = (if crc_delta > 0 then s1\<lparr>es_crc_errors := es_crc_errors s1 + crc_delta\<rparr> else s1)
      in (fc\<lparr>fc_last_resync_total := now_resync, fc_last_crc_total := now_crc\<rparr>, s2))"

text \<open>Whether the counters remembered are totals of this framer, and never ahead of it.\<close>

definition counters_behind :: "framer_counters \<Rightarrow> framer \<Rightarrow> bool" where
  "counters_behind fc fr \<longleftrightarrow>
     fc_last_resync_total fc \<le> fr_resync_bytes fr \<and> fc_last_crc_total fc \<le> fr_crc_errors fr"

lemma sat_sub_le: "b \<le> a \<Longrightarrow> sat_sub a b = a - b"
  by (auto simp: sat_sub_def)

lemma counters_sync_behind:
  assumes "counters_behind fc fr"
  shows "counters_sync fc fr s =
    (\<lparr>fc_last_resync_total = fr_resync_bytes fr, fc_last_crc_total = fr_crc_errors fr\<rparr>,
     s\<lparr>es_resync_bytes := es_resync_bytes s + (fr_resync_bytes fr - fc_last_resync_total fc),
       es_crc_errors := es_crc_errors s + (fr_crc_errors fr - fc_last_crc_total fc)\<rparr>)"
  using assms by (auto simp: counters_sync_def counters_behind_def sat_sub_le Let_def word_neq_0_conv [symmetric])

lemma sat_bump_mono: "c \<le> sat_bump c n"
  using unat_u64_less [of c] by (simp add: word_le_nat_alt unat_sat_bump)

lemma drain_counters_grow:
  assumes "length (fr_buf fr) < 2 ^ 64" and "drain_frames tbl fr = Some (fs, fr')"
  shows "fr_resync_bytes fr \<le> fr_resync_bytes fr'" and "fr_crc_errors fr \<le> fr_crc_errors fr'"
  using assms drain_frames_scan_all [OF assms(1), of tbl]
  by (auto simp: bump_def sat_bump_mono split: prod.splits)

end
