(* ===== verification/Tx_Queue.thy ===== *)
theory Tx_Queue
  imports Endpoint_Stats "HOL-Library.Sublist"
begin

text \<open>
  The bounded queue between the router and a writer, \<^verbatim>\<open>src/endpoint/tx_queue.rs\<close>. Queues and
  counters are shared between tasks by reference, so they live in a store. The lock-free ring
  underneath (crate \<^verbatim>\<open>crossbeam-queue\<close>) is a parameter.
\<close>

section \<open>The ring underneath\<close>

record 'q array_queue =
  aq_new :: "nat \<Rightarrow> 'q"
  aq_force_push :: "bytes \<Rightarrow> 'q \<Rightarrow> 'q \<times> bytes option"
  aq_pop :: "'q \<Rightarrow> 'q \<times> bytes option"
  aq_len :: "'q \<Rightarrow> nat"

text \<open>
  What the crate documents: a first-in first-out queue of fixed capacity; a forced push into a
  full queue replaces and returns the oldest element.
\<close>

definition aq_laws :: "'q array_queue \<Rightarrow> ('q \<Rightarrow> bytes list) \<Rightarrow> ('q \<Rightarrow> nat) \<Rightarrow> bool" where
  "aq_laws aq items capq \<longleftrightarrow>
     (\<forall>c. 0 < c \<longrightarrow> items (aq_new aq c) = [] \<and> capq (aq_new aq c) = c)
     \<and> (\<forall>q x. capq (fst (aq_force_push aq x q)) = capq q
          \<and> (if length (items q) < capq q
             then items (fst (aq_force_push aq x q)) = items q @ [x] \<and> snd (aq_force_push aq x q) = None
             else items (fst (aq_force_push aq x q)) = tl (items q) @ [x]
               \<and> snd (aq_force_push aq x q) = Some (hd (items q))))
     \<and> (\<forall>q. capq (fst (aq_pop aq q)) = capq q
          \<and> items (fst (aq_pop aq q)) = tl (items q)
          \<and> snd (aq_pop aq q) = (if items q = [] then None else Some (hd (items q))))
     \<and> (\<forall>q. aq_len aq q = length (items q))"

lemma aq_lawsD:
  assumes "aq_laws aq items capq"
  shows "0 < c \<Longrightarrow> items (aq_new aq c) = []" "0 < c \<Longrightarrow> capq (aq_new aq c) = c"
    "capq (fst (aq_force_push aq x q)) = capq q"
    "length (items q) < capq q \<Longrightarrow> items (fst (aq_force_push aq x q)) = items q @ [x]"
    "length (items q) < capq q \<Longrightarrow> snd (aq_force_push aq x q) = None"
    "capq q \<le> length (items q) \<Longrightarrow> items (fst (aq_force_push aq x q)) = tl (items q) @ [x]"
    "capq q \<le> length (items q) \<Longrightarrow> snd (aq_force_push aq x q) = Some (hd (items q))"
    "capq (fst (aq_pop aq q)) = capq q"
    "items (fst (aq_pop aq q)) = tl (items q)"
    "snd (aq_pop aq q) = (if items q = [] then None else Some (hd (items q)))"
    "aq_len aq q = length (items q)"
proof -
  note laws = assms [unfolded aq_laws_def]
  note new = conjunct1 [OF laws] and push = conjunct1 [OF conjunct2 [OF laws]]
    and pop = conjunct1 [OF conjunct2 [OF conjunct2 [OF laws]]] and len = conjunct2 [OF conjunct2 [OF conjunct2 [OF laws]]]
  show "0 < c \<Longrightarrow> items (aq_new aq c) = []" "0 < c \<Longrightarrow> capq (aq_new aq c) = c" using new by auto
  from push have p: "capq (fst (aq_force_push aq x q)) = capq q
      \<and> (if length (items q) < capq q
         then items (fst (aq_force_push aq x q)) = items q @ [x] \<and> snd (aq_force_push aq x q) = None
         else items (fst (aq_force_push aq x q)) = tl (items q) @ [x]
           \<and> snd (aq_force_push aq x q) = Some (hd (items q)))" by blast
  then show "capq (fst (aq_force_push aq x q)) = capq q"
    "length (items q) < capq q \<Longrightarrow> items (fst (aq_force_push aq x q)) = items q @ [x]"
    "length (items q) < capq q \<Longrightarrow> snd (aq_force_push aq x q) = None"
    "capq q \<le> length (items q) \<Longrightarrow> items (fst (aq_force_push aq x q)) = tl (items q) @ [x]"
    "capq q \<le> length (items q) \<Longrightarrow> snd (aq_force_push aq x q) = Some (hd (items q))" by simp_all
  show "capq (fst (aq_pop aq q)) = capq q" "items (fst (aq_pop aq q)) = tl (items q)"
    "snd (aq_pop aq q) = (if items q = [] then None else Some (hd (items q)))" using pop by blast+
  show "aq_len aq q = length (items q)" using len by blast
qed

text \<open>A bounded list meets these laws.\<close>

definition list_queue :: "(nat \<times> bytes list) array_queue" where
  "list_queue =
     \<lparr>aq_new = (\<lambda>c. (c, [])),
      aq_force_push = (\<lambda>x (c, xs). if length xs < c then ((c, xs @ [x]), None) else ((c, tl xs @ [x]), Some (hd xs))),
      aq_pop = (\<lambda>(c, xs). ((c, tl xs), if xs = [] then None else Some (hd xs))),
      aq_len = (\<lambda>(c, xs). length xs)\<rparr>"

lemma list_queue_laws: "aq_laws list_queue snd fst"
  by (auto simp: aq_laws_def list_queue_def)

section \<open>The shared store\<close>

record 'q store =
  sto_stats :: "nat \<Rightarrow> endpoint_stats"
  sto_queue :: "nat \<Rightarrow> 'q"
  sto_notified :: "nat \<Rightarrow> nat"
  sto_next :: nat

definition upd_stats :: "nat \<Rightarrow> (endpoint_stats \<Rightarrow> endpoint_stats) \<Rightarrow> 'q store \<Rightarrow> 'q store" where
  "upd_stats r f st = st\<lparr>sto_stats := (sto_stats st)(r := f (sto_stats st r))\<rparr>"

definition alloc_stats :: "endpoint_state \<Rightarrow> 'q store \<Rightarrow> nat \<times> 'q store" where
  "alloc_stats state st =
     (sto_next st, st\<lparr>sto_stats := (sto_stats st)(sto_next st := stats_new state), sto_next := sto_next st + 1\<rparr>)"

lemma upd_stats_simps [simp, store_simps]:
  "sto_queue (upd_stats r f st) = sto_queue st"
  "sto_notified (upd_stats r f st) = sto_notified st"
  "sto_next (upd_stats r f st) = sto_next st"
  "sto_stats (upd_stats r f st) r' = (if r' = r then f (sto_stats st r) else sto_stats st r')"
  by (simp_all add: upd_stats_def)

section \<open>The queue\<close>

record tx_queue =
  tq_inner :: nat
  tq_notify :: nat
  tq_stats :: nat

definition tx_new :: "'q array_queue \<Rightarrow> nat \<Rightarrow> nat \<Rightarrow> 'q store \<Rightarrow> tx_queue \<times> 'q store" where
  "tx_new aq capacity stats st =
     (let clamped = max capacity 1; r = sto_next st
      in (\<lparr>tq_inner = r, tq_notify = r, tq_stats = stats\<rparr>,
          st\<lparr>sto_queue := (sto_queue st)(r := aq_new aq clamped),
             sto_notified := (sto_notified st)(r := 0),
             sto_next := r + 1\<rparr>))"

definition tx_push :: "'q array_queue \<Rightarrow> tx_queue \<Rightarrow> bytes \<Rightarrow> 'q store \<Rightarrow> 'q store" where
  "tx_push aq tq frame st =
     (let (q', displaced) = aq_force_push aq frame (sto_queue st (tq_inner tq));
          st1 = st\<lparr>sto_queue := (sto_queue st)(tq_inner tq := q')\<rparr>;
          st2 = (case displaced of Some _ \<Rightarrow> upd_stats (tq_stats tq) (add_dropped_tx 1) st1 | None \<Rightarrow> st1)
      in st2\<lparr>sto_notified := (sto_notified st2)(tq_notify tq := sto_notified st2 (tq_notify tq) + 1)\<rparr>)"

definition tx_pop :: "'q array_queue \<Rightarrow> tx_queue \<Rightarrow> 'q store \<Rightarrow> 'q store \<times> bytes option" where
  "tx_pop aq tq st =
     (let (q', frame) = aq_pop aq (sto_queue st (tq_inner tq))
      in (st\<lparr>sto_queue := (sto_queue st)(tq_inner tq := q')\<rparr>, frame))"

text \<open>
  \<^verbatim>\<open>pop_or_wait\<close> as a future: one poll pops a frame or leaves the task waiting for the next
  wake-up, after which the loop polls again.
\<close>

definition poll_pop_or_wait :: "'q array_queue \<Rightarrow> tx_queue \<Rightarrow> 'q store \<Rightarrow> 'q store \<times> bytes option" where
  "poll_pop_or_wait aq tq st = tx_pop aq tq st"

definition tx_len :: "'q array_queue \<Rightarrow> tx_queue \<Rightarrow> 'q store \<Rightarrow> nat" where
  "tx_len aq tq st = aq_len aq (sto_queue st (tq_inner tq))"

text \<open>
  The loop \<^verbatim>\<open>while self.inner.pop().is_some()\<close> of \<^verbatim>\<open>drain_and_discard\<close>. The queue shrinks
  with every pop, so the number of its elements bounds the rounds; running out of rounds is
  \<^term>\<open>None\<close>.
\<close>

fun pop_all :: "'q array_queue \<Rightarrow> nat \<Rightarrow> nat \<Rightarrow> 'q \<Rightarrow> ('q \<times> nat) option" where
  "pop_all aq 0 n q = None"
| "pop_all aq (Suc fuel) n q =
     (case aq_pop aq q of
        (q', Some _) \<Rightarrow> pop_all aq fuel (Suc n) q'
      | (q', None) \<Rightarrow> Some (q', n))"

definition drain_and_discard :: "'q array_queue \<Rightarrow> tx_queue \<Rightarrow> 'q store \<Rightarrow> ('q store \<times> nat) option" where
  "drain_and_discard aq tq st =
     (case pop_all aq (Suc (tx_len aq tq st)) 0 (sto_queue st (tq_inner tq)) of
        None \<Rightarrow> None
      | Some (q', n) \<Rightarrow>
          let st1 = st\<lparr>sto_queue := (sto_queue st)(tq_inner tq := q')\<rparr>
          in Some (if n > 0 then upd_stats (tq_stats tq) (add_dropped_tx (of_nat n)) st1 else st1, n))"

section \<open>Facts\<close>

lemma tx_push_frame:
  "sto_queue (tx_push aq tq frame st) =
     (sto_queue st)(tq_inner tq := fst (aq_force_push aq frame (sto_queue st (tq_inner tq))))"
  "r \<noteq> tq_stats tq \<Longrightarrow> sto_stats (tx_push aq tq frame st) r = sto_stats st r"
  "sto_next (tx_push aq tq frame st) = sto_next st"
  by (auto simp: tx_push_def Let_def case_prod_unfold split: option.split)

lemma tx_push_stats:
  "sto_stats (tx_push aq tq frame st) (tq_stats tq) =
     (if snd (aq_force_push aq frame (sto_queue st (tq_inner tq))) = None then sto_stats st (tq_stats tq)
      else add_dropped_tx 1 (sto_stats st (tq_stats tq)))"
  by (simp add: tx_push_def Let_def case_prod_unfold split: option.split)

lemma pop_all_total:
  assumes "aq_laws aq items capq"
  shows "length (items q) < fuel \<Longrightarrow>
    \<exists>q'. pop_all aq fuel n q = Some (q', n + length (items q)) \<and> items q' = [] \<and> capq q' = capq q"
proof (induction fuel arbitrary: n q)
  case (Suc fuel)
  note pop = aq_lawsD(8-10) [OF assms, of q]
  show ?case
  proof (cases "items q = []")
    case True
    with pop show ?thesis by (simp add: case_prod_unfold)
  next
    case False
    then obtain y ys where "items q = y # ys" by (cases "items q") auto
    with Suc.prems pop Suc.IH [of "fst (aq_pop aq q)" "Suc n"] show ?thesis
      by (simp add: case_prod_unfold)
  qed
qed simp

lemma drain_and_discard_total:
  assumes "aq_laws aq items capq"
  shows "\<exists>q'. drain_and_discard aq tq st =
      Some (upd_stats (tq_stats tq) (add_dropped_tx (of_nat (length (items (sto_queue st (tq_inner tq))))))
              (st\<lparr>sto_queue := (sto_queue st)(tq_inner tq := q')\<rparr>), length (items (sto_queue st (tq_inner tq))))
      \<and> items q' = [] \<and> capq q' = capq (sto_queue st (tq_inner tq))"
proof -
  let ?q = "sto_queue st (tq_inner tq)"
  have zero: "upd_stats r (add_dropped_tx 0) st' = st'" for r and st' :: "'a store"
    by (simp add: upd_stats_def add_dropped_tx_def)
  have "length (items ?q) < Suc (tx_len aq tq st)" by (simp add: tx_len_def aq_lawsD(11) [OF assms])
  from pop_all_total [OF assms this, of 0] show ?thesis
    by (auto simp: drain_and_discard_def Let_def zero)
qed

section \<open>Runs of a queue\<close>

datatype tx_op = Op_Push bytes | Op_Pop | Op_Drain

text \<open>One operation on the store, with the frames delivered to the writer so far.\<close>

fun tx_step :: "'q array_queue \<Rightarrow> tx_queue \<Rightarrow> tx_op \<Rightarrow> 'q store \<times> bytes list \<Rightarrow> ('q store \<times> bytes list) option" where
  "tx_step aq tq (Op_Push frame) (st, out) = Some (tx_push aq tq frame st, out)"
| "tx_step aq tq Op_Pop (st, out) =
     (case tx_pop aq tq st of (st', None) \<Rightarrow> Some (st', out) | (st', Some frame) \<Rightarrow> Some (st', out @ [frame]))"
| "tx_step aq tq Op_Drain (st, out) = map_option (\<lambda>(st', n). (st', out)) (drain_and_discard aq tq st)"

fun tx_run :: "'q array_queue \<Rightarrow> tx_queue \<Rightarrow> tx_op list \<Rightarrow> 'q store \<times> bytes list \<Rightarrow> ('q store \<times> bytes list) option" where
  "tx_run aq tq [] s = Some s"
| "tx_run aq tq (x # xs) s = (case tx_step aq tq x s of None \<Rightarrow> None | Some s' \<Rightarrow> tx_run aq tq xs s')"

fun pushed :: "tx_op list \<Rightarrow> bytes list" where
  "pushed [] = []"
| "pushed (Op_Push frame # xs) = frame # pushed xs"
| "pushed (_ # xs) = pushed xs"

definition tx_inv :: "('q \<Rightarrow> bytes list) \<Rightarrow> ('q \<Rightarrow> nat) \<Rightarrow> tx_queue \<Rightarrow> u64 \<Rightarrow> bytes list \<Rightarrow> 'q store \<times> bytes list \<Rightarrow> bool" where
  "tx_inv items capq tq d0 ins s \<longleftrightarrow>
     (let q = sto_queue (fst s) (tq_inner tq)
      in length (items q) \<le> capq q \<and> 0 < capq q \<and> subseq (snd s @ items q) ins
         \<and> d0 + of_nat (length ins)
           = es_dropped_tx (sto_stats (fst s) (tq_stats tq)) + of_nat (length (snd s)) + of_nat (length (items q)))"

lemma subseq_snoc: "subseq xs ys \<Longrightarrow> subseq (xs @ [x]) (ys @ [x])"
  by (rule list_emb_append_mono) auto

lemma subseq_mid: "subseq (xs @ y # ys) zs \<Longrightarrow> subseq (xs @ ys) zs"
proof -
  assume "subseq (xs @ y # ys) zs"
  moreover have "subseq (xs @ ys) (xs @ y # ys)" by (rule list_emb_append_mono) auto
  ultimately show ?thesis by (rule subseq_order.trans [rotated])
qed

lemma tx_step_inv:
  assumes laws: "aq_laws aq items capq" and inv: "tx_inv items capq tq d0 ins s"
  shows "\<exists>s'. tx_step aq tq x s = Some s' \<and> tx_inv items capq tq d0 (ins @ pushed [x]) s'
    \<and> capq (sto_queue (fst s') (tq_inner tq)) = capq (sto_queue (fst s) (tq_inner tq))"
proof -
  obtain st out where s: "s = (st, out)" by (cases s)
  let ?q = "sto_queue st (tq_inner tq)"
  show ?thesis
  proof (cases x)
    case (Op_Push frame)
    note push = aq_lawsD(3-7) [OF laws, where q = ?q and x = frame]
    show ?thesis
    proof (cases "length (items ?q) < capq ?q")
      case True
      then show ?thesis using inv push
        by (simp add: s Op_Push tx_inv_def tx_push_frame tx_push_stats Let_def subseq_snoc [of "out @ items ?q", simplified] algebra_simps)
    next
      case False
      with inv s have full: "length (items ?q) = capq ?q" "items ?q \<noteq> []" by (auto simp: tx_inv_def Let_def)
      then obtain y ys where ys: "items ?q = y # ys" by (cases "items ?q") auto
      have "subseq (out @ ys) ins" using inv ys by (auto simp: s tx_inv_def Let_def intro: subseq_mid)
      then have "subseq (out @ ys @ [frame]) (ins @ [frame])" using subseq_snoc by fastforce
      moreover have "capq ?q = Suc (length ys)" using full ys by simp
      ultimately show ?thesis using inv push ys
        by (simp add: s Op_Push tx_inv_def tx_push_frame tx_push_stats Let_def add_dropped_tx_def algebra_simps)
    qed
  next
    case Op_Pop
    note pop = aq_lawsD(8-10) [OF laws, where q = ?q]
    then show ?thesis using inv
      by (cases "items ?q") (auto simp: s Op_Pop tx_inv_def tx_pop_def Let_def case_prod_unfold)
  next
    case Op_Drain
    from drain_and_discard_total [OF laws, of tq st] obtain q' where
      "drain_and_discard aq tq st =
        Some (upd_stats (tq_stats tq) (add_dropped_tx (of_nat (length (items ?q))))
                (st\<lparr>sto_queue := (sto_queue st)(tq_inner tq := q')\<rparr>), length (items ?q))"
      "items q' = []" "capq q' = capq ?q" by auto
    moreover have "subseq out ins" using inv by (auto simp: s tx_inv_def Let_def dest: list_emb_appendD subseq_order.trans [rotated])
    ultimately show ?thesis using inv
      by (simp add: s Op_Drain tx_inv_def Let_def add_dropped_tx_def algebra_simps)
  qed
qed

lemma pushed_append: "pushed (xs @ ys) = pushed xs @ pushed ys"
  by (induction xs rule: pushed.induct) auto

lemma tx_run_inv:
  assumes "aq_laws aq items capq"
  shows "tx_inv items capq tq d0 ins s \<Longrightarrow>
    \<exists>s'. tx_run aq tq xs s = Some s' \<and> tx_inv items capq tq d0 (ins @ pushed xs) s'
      \<and> capq (sto_queue (fst s') (tq_inner tq)) = capq (sto_queue (fst s) (tq_inner tq))"
proof (induction xs arbitrary: s ins)
  case (Cons x xs)
  from tx_step_inv [OF assms Cons.prems, of x] obtain s' where
    "tx_step aq tq x s = Some s'" "tx_inv items capq tq d0 (ins @ pushed [x]) s'"
    "capq (sto_queue (fst s') (tq_inner tq)) = capq (sto_queue (fst s) (tq_inner tq))" by auto
  with Cons.IH [of "ins @ pushed [x]" s'] pushed_append [of "[x]" xs] show ?case by auto
qed simp

text \<open>
  The router pushes while the owner of a queue runs; between two steps of the owner any number
  of frames may have arrived.
\<close>

definition push_all :: "'q array_queue \<Rightarrow> tx_queue \<Rightarrow> bytes list \<Rightarrow> 'q store \<Rightarrow> 'q store" where
  "push_all aq tq frames st = fold (tx_push aq tq) frames st"

lemma push_all_Nil [simp]: "push_all aq tq [] st = st"
  by (simp add: push_all_def)

lemma push_all_stats: "\<exists>d. sto_stats (push_all aq tq frames st) r = (sto_stats st r)\<lparr>es_dropped_tx := d\<rparr>"
proof (induction frames arbitrary: st)
  case Nil
  show ?case by (auto intro: exI [of _ "es_dropped_tx (sto_stats st r)"])
next
  case (Cons x frames)
  have same: "\<exists>d. e = e\<lparr>es_dropped_tx := d\<rparr>" for e by (rule exI [of _ "es_dropped_tx e"]) simp
  have "\<exists>d. sto_stats (tx_push aq tq x st) r = (sto_stats st r)\<lparr>es_dropped_tx := d\<rparr>"
    using same by (cases "r = tq_stats tq") (auto simp: tx_push_frame tx_push_stats add_dropped_tx_def)
  then obtain d where "sto_stats (tx_push aq tq x st) r = (sto_stats st r)\<lparr>es_dropped_tx := d\<rparr>" by blast
  with Cons [of "tx_push aq tq x st"] show ?case by (auto simp: push_all_def)
qed

lemma push_all_inv:
  assumes "aq_laws aq items capq"
  shows "tx_inv items capq tq d0 ins (st, out) \<Longrightarrow> tx_inv items capq tq d0 (ins @ frames) (push_all aq tq frames st, out)"
proof (induction frames arbitrary: st ins)
  case (Cons x frames)
  from tx_step_inv [OF assms Cons.prems, of "Op_Push x"]
  have "tx_inv items capq tq d0 (ins @ [x]) (tx_push aq tq x st, out)" by simp
  from Cons.IH [OF this] show ?case by (simp add: push_all_def)
qed simp

lemma poll_inv:
  assumes "aq_laws aq items capq" and "tx_inv items capq tq d0 ins (st, out)" and "tx_pop aq tq st = (st', x)"
  shows "tx_inv items capq tq d0 ins (st', out @ (case x of None \<Rightarrow> [] | Some frame \<Rightarrow> [frame]))"
  using tx_step_inv [OF assms(1,2), of Op_Pop] assms(3) by (auto split: option.splits)

lemma tx_inv_cong:
  assumes "sto_queue st' (tq_inner tq) = sto_queue st (tq_inner tq)"
    and "es_dropped_tx (sto_stats st' (tq_stats tq)) = es_dropped_tx (sto_stats st (tq_stats tq))"
  shows "tx_inv items capq tq d0 ins (st', out) = tx_inv items capq tq d0 ins (st, out)"
  using assms by (simp add: tx_inv_def)

lemma tx_inv_start: "length (items (sto_queue st (tq_inner tq))) \<le> capq (sto_queue st (tq_inner tq)) \<Longrightarrow>
    0 < capq (sto_queue st (tq_inner tq)) \<Longrightarrow>
    tx_inv items capq tq (es_dropped_tx (sto_stats st (tq_stats tq))) (items (sto_queue st (tq_inner tq))) (st, [])"
  by (simp add: tx_inv_def Let_def)

text \<open>
  C21. A writer queue loses frames only from its old end and accounts for each of them: over
  any sequence of pushes, pops and drains of a fresh queue, the queue never holds more than its
  capacity, the frames handed to the writer followed by the frames still queued are a
  subsequence of the pushed frames in order, and the pushed frames are as many as the
  delivered, the queued and the ones counted in \<^verbatim>\<open>dropped_tx\<close>. Draining always ends.
\<close>

theorem tx_queue_accounts_for_every_frame:
  assumes "aq_laws aq items capq" and "tx_new aq capacity r st = (tq, st0)"
  shows "\<exists>st' out. tx_run aq tq ops (st0, []) = Some (st', out)
    \<and> length (items (sto_queue st' (tq_inner tq))) \<le> max capacity 1
    \<and> subseq (out @ items (sto_queue st' (tq_inner tq))) (pushed ops)
    \<and> es_dropped_tx (sto_stats st0 r) + of_nat (length (pushed ops)) =
        es_dropped_tx (sto_stats st' r) + of_nat (length out) + of_nat (length (items (sto_queue st' (tq_inner tq))))"
proof -
  have new: "items (aq_new aq (max capacity 1)) = []" "capq (aq_new aq (max capacity 1)) = max capacity 1"
    using aq_lawsD(1,2) [OF assms(1), of "max capacity 1"] by auto
  with assms(2) have "tx_inv items capq tq (es_dropped_tx (sto_stats st0 r)) [] (st0, [])"
    and r: "tq_stats tq = r" and "capq (sto_queue st0 (tq_inner tq)) = max capacity 1"
    by (auto simp: tx_new_def tx_inv_def Let_def)
  with tx_run_inv [OF assms(1), of tq "es_dropped_tx (sto_stats st0 r)" "[]" "(st0, [])" ops] show ?thesis
    by (auto simp: tx_inv_def Let_def)
qed

theorem tx_queue_accounts_for_every_frame_witness:
  "\<exists>st' out. tx_run list_queue \<lparr>tq_inner = 1, tq_notify = 1, tq_stats = 0\<rparr>
      [Op_Push [1], Op_Push [2], Op_Push [3], Op_Pop]
      (snd (tx_new list_queue 2 0 \<lparr>sto_stats = (\<lambda>_. stats_new Connected), sto_queue = (\<lambda>_. (1, [])),
         sto_notified = (\<lambda>_. 0), sto_next = 1\<rparr>), []) = Some (st', out)
    \<and> subseq (out @ snd (sto_queue st' 1)) [[1], [2], [3]]"
proof -
  let ?st = "\<lparr>sto_stats = (\<lambda>_. stats_new Connected), sto_queue = (\<lambda>_. (1, [])), sto_notified = (\<lambda>_. 0), sto_next = 1\<rparr>"
  have "tx_new list_queue 2 0 ?st = (\<lparr>tq_inner = 1, tq_notify = 1, tq_stats = 0\<rparr>, snd (tx_new list_queue 2 0 ?st))"
    by (simp add: tx_new_def Let_def)
  from tx_queue_accounts_for_every_frame [OF list_queue_laws this,
      of "[Op_Push [1], Op_Push [2], Op_Push [3], Op_Pop]"]
  show ?thesis by auto
qed

end
