(* ===== verification/Router.thy ===== *)
theory Router
  imports Decide Group_Registry Dedup Tx_Queue
begin

text \<open>
  The router task, \<^verbatim>\<open>src/router/mod.rs\<close>, with the events it consumes
  (\<^verbatim>\<open>src/endpoint/events.rs\<close>). Its state is the registry of endpoints, the groups, the
  duplicate window and the store of the queues and counters it shares with the endpoint tasks.
  The queue crate, the hash and the channel to the stats task are parameters.
\<close>

section \<open>Events and state\<close>

type_synonym endpoint_id = u64

record routable =
  ro_tx_queue :: tx_queue
  ro_identity :: identity_flags
  ro_endpoint_name :: string

datatype peer_removal_reason = Reason_Idle | Reason_LruEvicted | Reason_Disconnected | Reason_ListenerShutdown

datatype endpoint_event =
    EndpointAdded endpoint_id string nat "routable option"
  | PeerAdded endpoint_id endpoint_id string nat routable
  | PeerRemoved endpoint_id endpoint_id peer_removal_reason

record router_frame =
  rf_endpoint_id :: endpoint_id
  rf_frame :: bytes
  rf_header :: parsed_header

datatype stats_event = Register endpoint_id string nat bool | Finalize endpoint_id

record routable_state =
  rs_tx_queue :: tx_queue
  rs_identity :: identity_flags
  rs_endpoint_name :: string
  rs_learn :: learn_table

record registered_endpoint =
  re_name :: string
  re_stats :: nat
  re_routable :: "routable_state option"

datatype source_admission = Admitted string | Suppressed

text \<open>Code outside the repository: the ring, the hash, and a channel's \<^verbatim>\<open>try_send\<close>.\<close>

datatype try_send_result = Sent | Full | Closed

record ('q, 'c) router_env =
  env_queue :: "'q array_queue"
  env_hash :: "bytes \<Rightarrow> u64"
  env_try_send :: "stats_event \<Rightarrow> 'c \<Rightarrow> 'c \<times> try_send_result"

record ('q, 'c) router =
  r_routing :: "(endpoint_id \<times> registered_endpoint) list"
  r_groups :: group_registry
  r_dedup :: dedup_window
  r_stats_event_tx :: 'c
  r_stats_events_dropped :: u64
  r_store :: "'q store"

definition router_new :: "'c \<Rightarrow> u64 \<Rightarrow> nat \<Rightarrow> 'q store \<Rightarrow> ('q, 'c) router" where
  "router_new stats_event_tx dedup_ms dedup_window_capacity st =
     \<lparr>r_routing = [], r_groups = [], r_dedup = dedup_new (from_millis dedup_ms) dedup_window_capacity,
      r_stats_event_tx = stats_event_tx, r_stats_events_dropped = 0, r_store = st\<rparr>"

section \<open>Lifecycle events\<close>

definition forward_stats :: "('q, 'c) router_env \<Rightarrow> stats_event \<Rightarrow> ('q, 'c) router \<Rightarrow> ('q, 'c) router" where
  "forward_stats env event r =
     (let (chan, result) = env_try_send env event (r_stats_event_tx r);
          r1 = r\<lparr>r_stats_event_tx := chan\<rparr>
      in case result of
           Full \<Rightarrow> r1\<lparr>r_stats_events_dropped := r_stats_events_dropped r1 + 1\<rparr>
         | _ \<Rightarrow> r1)"

definition build_routable_state :: "routable \<Rightarrow> ('q, 'c) router \<Rightarrow> ('q, 'c) router \<times> routable_state" where
  "build_routable_state payload r =
     ((case if_group (ro_identity payload) of
         Some grp \<Rightarrow> r\<lparr>r_groups := fst (group_join grp LEARN_CAPACITY (r_groups r))\<rparr>
       | None \<Rightarrow> r),
      \<lparr>rs_tx_queue = ro_tx_queue payload, rs_identity = ro_identity payload,
       rs_endpoint_name = ro_endpoint_name payload, rs_learn = learn_new LEARN_CAPACITY\<rparr>)"

definition register_routable ::
  "('q, 'c) router_env \<Rightarrow> endpoint_id \<Rightarrow> string \<Rightarrow> nat \<Rightarrow> routable_state option \<Rightarrow> ('q, 'c) router \<Rightarrow> ('q, 'c) router" where
  "register_routable env i name stats state r =
     forward_stats env (Register i name stats (state \<noteq> None))
       (r\<lparr>r_routing := AList.update i \<lparr>re_name = name, re_stats = stats, re_routable = state\<rparr> (r_routing r)\<rparr>)"

fun removal_state :: "peer_removal_reason \<Rightarrow> endpoint_state" where
  "removal_state Reason_Idle = Idle"
| "removal_state Reason_LruEvicted = Down"
| "removal_state Reason_Disconnected = Down"
| "removal_state Reason_ListenerShutdown = Down"

definition leave_group :: "registered_endpoint \<Rightarrow> ('q, 'c) router \<Rightarrow> ('q, 'c) router" where
  "leave_group entry r =
     (case re_routable entry of
        None \<Rightarrow> r
      | Some state \<Rightarrow>
          (case if_group (rs_identity state) of
             None \<Rightarrow> r
           | Some grp \<Rightarrow> r\<lparr>r_groups := group_leave grp (r_groups r)\<rparr>))"

fun handle_event :: "('q, 'c) router_env \<Rightarrow> endpoint_event \<Rightarrow> ('q, 'c) router \<Rightarrow> ('q, 'c) router" where
  "handle_event env (EndpointAdded i name stats payload) r =
     (case payload of
        None \<Rightarrow> register_routable env i name stats None r
      | Some p \<Rightarrow>
          let (r1, state) = build_routable_state p r in register_routable env i name stats (Some state) r1)"
| "handle_event env (PeerAdded parent_id child_id name stats payload) r =
     (let (r1, state) = build_routable_state payload r
      in register_routable env child_id name stats (Some state) r1)"
| "handle_event env (PeerRemoved parent_id child_id reason) r =
     forward_stats env (Finalize child_id)
       (case map_of (r_routing r) child_id of
          None \<Rightarrow> r
        | Some entry \<Rightarrow>
            let r1 = leave_group entry (r\<lparr>r_routing := AList.delete child_id (r_routing r)\<rparr>)
            in r1\<lparr>r_store := upd_stats (re_stats entry) (store_state (removal_state reason)) (r_store r1)\<rparr>)"

section \<open>Frames\<close>

definition ingest_source_frame ::
  "('q, 'c) router_env \<Rightarrow> endpoint_id \<Rightarrow> bytes \<Rightarrow> parsed_header \<Rightarrow> instant \<Rightarrow> ('q, 'c) router
   \<Rightarrow> ('q, 'c) router \<times> source_admission" where
  "ingest_source_frame env src_id frame header now r =
     (case map_of (r_routing r) src_id of
        None \<Rightarrow> (r, Suppressed)
      | Some src_entry \<Rightarrow>
          (case re_routable src_entry of
             None \<Rightarrow> (r, Suppressed)
           | Some src_routable \<Rightarrow>
               let (dedup, dup) = check_and_insert (env_hash env) frame now (r_dedup r);
                   r1 = r\<lparr>r_dedup := dedup\<rparr>
               in if dup then
                    (r1\<lparr>r_store := upd_stats (re_stats src_entry)
                          (\<lambda>s. s\<lparr>es_dedup_drops := es_dedup_drops s + 1\<rparr>) (r_store r1)\<rparr>, Suppressed)
                  else
                    (case if_group (rs_identity src_routable) of
                       Some name \<Rightarrow>
                         (case group_get name (r_groups r1) of
                            None \<Rightarrow> (r1, Suppressed)
                          | Some grp \<Rightarrow>
                              let learn = fst (learn_touch (hdr_source header) now (gl_learn grp));
                                  r2 = r1\<lparr>r_groups := group_put_learn name learn (r_groups r1)\<rparr>
                              in (r2\<lparr>r_store := upd_stats (re_stats src_entry)
                                     (\<lambda>s. s\<lparr>es_learn_entries := of_nat (learn_len learn)\<rparr>) (r_store r2)\<rparr>,
                                  Admitted (rs_endpoint_name src_routable)))
                     | None \<Rightarrow>
                         let learn = fst (learn_touch (hdr_source header) now (rs_learn src_routable));
                             r2 = r1\<lparr>r_routing := AList.update src_id
                                    (src_entry\<lparr>re_routable := Some (src_routable\<lparr>rs_learn := learn\<rparr>)\<rparr>) (r_routing r1)\<rparr>
                         in (r2\<lparr>r_store := upd_stats (re_stats src_entry)
                                (\<lambda>s. s\<lparr>es_learn_entries := of_nat (learn_len learn)\<rparr>) (r_store r2)\<rparr>,
                             Admitted (rs_endpoint_name src_routable)))))"

definition effective_learn :: "group_registry \<Rightarrow> routable_state \<Rightarrow> learn_table option" where
  "effective_learn groups state =
     (case if_group (rs_identity state) of
        Some name \<Rightarrow> map_option gl_learn (group_get name groups)
      | None \<Rightarrow> Some (rs_learn state))"

definition dispatch_one ::
  "('q, 'c) router_env \<Rightarrow> group_registry \<Rightarrow> endpoint_id \<Rightarrow> bytes \<Rightarrow> parsed_header \<Rightarrow> string
   \<Rightarrow> endpoint_id \<times> registered_endpoint \<Rightarrow> 'q store \<Rightarrow> 'q store" where
  "dispatch_one env groups src_id frame header src_endpoint_name dest st =
     (let (dest_id, dest_ep) = dest
      in if dest_id = src_id then st
         else case re_routable dest_ep of
           None \<Rightarrow> st
         | Some dest_routable \<Rightarrow>
             (case effective_learn groups dest_routable of
                None \<Rightarrow> st
              | Some dest_learn \<Rightarrow>
                  (case decide header dest_learn (rs_identity dest_routable) src_endpoint_name of
                     Admit \<Rightarrow> tx_push (env_queue env) (rs_tx_queue dest_routable) frame st
                   | OutFilterBlocked \<Rightarrow>
                       upd_stats (re_stats dest_ep)
                         (\<lambda>s. s\<lparr>es_out_filter_drops := es_out_filter_drops s + 1\<rparr>) st
                   | LoopBlocked \<Rightarrow> st
                   | TargetMismatch \<Rightarrow> st)))"

definition dispatch_to_destinations ::
  "('q, 'c) router_env \<Rightarrow> endpoint_id \<Rightarrow> bytes \<Rightarrow> parsed_header \<Rightarrow> string \<Rightarrow> ('q, 'c) router \<Rightarrow> ('q, 'c) router" where
  "dispatch_to_destinations env src_id frame header src_endpoint_name r =
     r\<lparr>r_store := fold (dispatch_one env (r_groups r) src_id frame header src_endpoint_name)
                    (r_routing r) (r_store r)\<rparr>"

definition handle_frame :: "('q, 'c) router_env \<Rightarrow> router_frame \<Rightarrow> instant \<Rightarrow> ('q, 'c) router \<Rightarrow> ('q, 'c) router" where
  "handle_frame env f now r =
     (case ingest_source_frame env (rf_endpoint_id f) (rf_frame f) (rf_header f) now r of
        (r1, Suppressed) \<Rightarrow> r1
      | (r1, Admitted src_endpoint_name) \<Rightarrow>
          dispatch_to_destinations env (rf_endpoint_id f) (rf_frame f) (rf_header f) src_endpoint_name r1)"

section \<open>The task\<close>

text \<open>
  What a poll of a channel finds, and one round of the biased \<^verbatim>\<open>select!\<close>: cancellation first,
  then lifecycle events, then frames. The cancellation branch never drops out of the selection,
  so its \<^verbatim>\<open>else\<close> arm is never taken; a round with nothing ready waits.
\<close>

datatype 'a recv = Item 'a | Pending | Closed_Recv

record select_input =
  si_cancelled :: bool
  si_event :: "endpoint_event recv"
  si_frame :: "router_frame recv"
  si_now :: instant

datatype 'r round = Break_Loop 'r | Continue 'r

definition select_round :: "('q, 'c) router_env \<Rightarrow> select_input \<Rightarrow> ('q, 'c) router \<Rightarrow> ('q, 'c) router round" where
  "select_round env si r =
     (if si_cancelled si then Break_Loop r
      else case si_event si of
        Item event \<Rightarrow> Continue (handle_event env event r)
      | _ \<Rightarrow>
          (case si_frame si of
             Item frame \<Rightarrow> Continue (handle_frame env frame (si_now si) r)
           | _ \<Rightarrow> Continue r))"

text \<open>\<^verbatim>\<open>mem::take\<close> empties the registry, then each survivor goes down.\<close>

definition shutdown_sweep :: "('q, 'c) router_env \<Rightarrow> ('q, 'c) router \<Rightarrow> ('q, 'c) router" where
  "shutdown_sweep env r =
     fold (\<lambda>(i, entry) r.
             forward_stats env (Finalize i)
               (r\<lparr>r_store := upd_stats (re_stats entry) (store_state Down) (r_store r)\<rparr>))
       (r_routing r) (r\<lparr>r_routing := []\<rparr>)"

text \<open>
  The loop of the task over the rounds it runs. It ends in the first round that sees the
  cancellation; \<^term>\<open>None\<close> stands for a loop still running after the rounds given. Then the
  lifecycle events still in the channel are handled, and the survivors are swept.
\<close>

fun event_loop :: "('q, 'c) router_env \<Rightarrow> select_input list \<Rightarrow> ('q, 'c) router \<Rightarrow> ('q, 'c) router option" where
  "event_loop env [] r = None"
| "event_loop env (si # rounds) r =
     (case select_round env si r of
        Break_Loop r' \<Rightarrow> Some r'
      | Continue r' \<Rightarrow> event_loop env rounds r')"

definition run_inner ::
  "('q, 'c) router_env \<Rightarrow> select_input list \<Rightarrow> endpoint_event list \<Rightarrow> 'c \<Rightarrow> u64 \<Rightarrow> nat \<Rightarrow> 'q store
   \<Rightarrow> ('q, 'c) router option" where
  "run_inner env rounds pending stats_event_tx dedup_ms dedup_window_capacity st =
     map_option (\<lambda>r. shutdown_sweep env (fold (handle_event env) pending r))
       (event_loop env rounds (router_new stats_event_tx dedup_ms dedup_window_capacity st))"

end
