(* ===== verification/Stats_Task.thy ===== *)
theory Stats_Task
  imports Router
begin

text \<open>
  The statistics task, \<^verbatim>\<open>src/stats.rs\<close>: it mirrors the router's registry and prints one line per
  endpoint per interval, and a last line for an endpoint that goes away. Serialisation
  (\<^verbatim>\<open>serde_json\<close>), the wall clock (\<^verbatim>\<open>time\<close>), the timer and the writer are parameters.
\<close>

section \<open>Lines\<close>

definition DEFAULT_STATS_QUEUE_LINES :: nat where
  "DEFAULT_STATS_QUEUE_LINES = 256"

definition stats_event_id :: "stats_event \<Rightarrow> endpoint_id" where
  "stats_event_id ev = (case ev of Register i _ _ _ \<Rightarrow> i | Finalize i \<Rightarrow> i)"

record stats_row =
  sr_name :: string
  sr_stats :: nat
  sr_routable :: bool

record line_counters =
  lc_rx_frames :: u64
  lc_tx_frames :: u64
  lc_rx_bytes :: u64
  lc_tx_bytes :: u64
  lc_dropped_tx :: u64
  lc_crc_errors :: u64
  lc_resync_bytes :: u64
  lc_rx_lost_est :: u64
  lc_in_filter_drops :: u64
  lc_out_filter_drops :: u64
  lc_dedup_drops :: u64
  lc_learn_entries :: u64

datatype stats_line =
    Line_Routable (line_ts: string) (line_endpoint: string) (line_state: string) (line_counters: line_counters)
  | Line_NonRoutable (line_ts: string) (line_endpoint: string) (line_state: string)

record stats_run_config =
  cfg_enabled :: bool
  cfg_interval :: duration
  cfg_queue_capacity :: nat

fun state_label :: "endpoint_state \<Rightarrow> string" where
  "state_label Reconnecting = ''reconnecting''"
| "state_label Connected = ''connected''"
| "state_label Idle = ''idle''"
| "state_label Down = ''down''"
| "state_label Unknown = ''unknown''"

definition build_line :: "string \<Rightarrow> endpoint_stats \<Rightarrow> string \<Rightarrow> bool \<Rightarrow> stats_line" where
  "build_line name stats ts routable =
     (let state = state_label (load_state stats)
      in if \<not> routable then Line_NonRoutable ts name state
         else Line_Routable ts name state
           \<lparr>lc_rx_frames = es_rx_frames stats, lc_tx_frames = es_tx_frames stats,
            lc_rx_bytes = es_rx_bytes stats, lc_tx_bytes = es_tx_bytes stats,
            lc_dropped_tx = es_dropped_tx stats, lc_crc_errors = es_crc_errors stats,
            lc_resync_bytes = es_resync_bytes stats, lc_rx_lost_est = es_rx_lost_est stats,
            lc_in_filter_drops = es_in_filter_drops stats, lc_out_filter_drops = es_out_filter_drops stats,
            lc_dedup_drops = es_dedup_drops stats, lc_learn_entries = es_learn_entries stats\<rparr>)"

section \<open>The line queue\<close>

record queue_entry =
  qe_line :: stats_line
  qe_synthetic :: bool

text \<open>A queue operation returns the queue and the saturating count of lines dropped so far.\<close>

definition enqueue_regular :: "nat \<Rightarrow> stats_line \<Rightarrow> queue_entry list \<times> u64 \<Rightarrow> queue_entry list \<times> u64" where
  "enqueue_regular queue_capacity line = (\<lambda>(queue, total_dropped).
     if queue_capacity = 0 then (queue, sat_add total_dropped 1)
     else
       let (queue1, dropped1) =
             (if length queue \<ge> queue_capacity then (tl queue, sat_add total_dropped 1) else (queue, total_dropped))
       in (queue1 @ [\<lparr>qe_line = line, qe_synthetic = False\<rparr>], dropped1))"

fun remove_first :: "('a \<Rightarrow> bool) \<Rightarrow> 'a list \<Rightarrow> 'a list option" where
  "remove_first P [] = None"
| "remove_first P (x # xs) = (if P x then Some xs else map_option ((#) x) (remove_first P xs))"

definition enqueue_synthetic :: "nat \<Rightarrow> stats_line \<Rightarrow> queue_entry list \<times> u64 \<Rightarrow> queue_entry list \<times> u64" where
  "enqueue_synthetic queue_capacity line = (\<lambda>(queue, total_dropped).
     if queue_capacity = 0 then (queue, sat_add total_dropped 1)
     else
       let (queue1, dropped1) =
             (if length queue \<ge> queue_capacity
              then case remove_first (\<lambda>entry. \<not> qe_synthetic entry) queue of
                     Some rest \<Rightarrow> (rest, sat_add total_dropped 1)
                   | None \<Rightarrow> (case queue of evicted # rest \<Rightarrow> (rest, sat_add total_dropped 1)
                                          | [] \<Rightarrow> (queue, total_dropped))
              else (queue, total_dropped))
       in (queue1 @ [\<lparr>qe_line = line, qe_synthetic = True\<rparr>], dropped1))"

section \<open>The task\<close>

datatype write_result = Write_Ok | Write_BrokenPipe | Write_Error

record 'w stats_env =
  sv_to_vec :: "stats_line \<Rightarrow> bytes option"
  sv_write_all :: "bytes \<Rightarrow> 'w \<Rightarrow> 'w \<times> write_result"
  sv_flush :: "'w \<Rightarrow> 'w"

record 'w stats_task =
  sk_registry :: "(endpoint_id \<times> stats_row) list"
  sk_queue :: "queue_entry list"
  sk_total_dropped :: u64
  sk_last_warned_dropped :: u64
  sk_broken_pipe_warned :: bool
  sk_writer :: 'w

definition stats_task_new :: "'w \<Rightarrow> 'w stats_task" where
  "stats_task_new w =
     \<lparr>sk_registry = [], sk_queue = [], sk_total_dropped = 0, sk_last_warned_dropped = 0,
      sk_broken_pipe_warned = False, sk_writer = w\<rparr>"

definition with_queue :: "(queue_entry list \<times> u64 \<Rightarrow> queue_entry list \<times> u64) \<Rightarrow> 'w stats_task \<Rightarrow> 'w stats_task" where
  "with_queue f s = (let (q, d) = f (sk_queue s, sk_total_dropped s) in s\<lparr>sk_queue := q, sk_total_dropped := d\<rparr>)"

text \<open>
  The counters behind the \<^verbatim>\<open>Arc\<close>s are read at the moment of the step: \<^term>\<open>stats\<close> is that reading,
  \<^term>\<open>ts\<close> the time stamp \<^verbatim>\<open>rfc3339_now()\<close> gives.
\<close>

definition handle_stats_event ::
  "stats_run_config \<Rightarrow> (nat \<Rightarrow> endpoint_stats) \<Rightarrow> string \<Rightarrow> stats_event \<Rightarrow> 'w stats_task \<Rightarrow> 'w stats_task" where
  "handle_stats_event cfg stats ts event s =
     (case event of
        Register i name st routable \<Rightarrow>
          s\<lparr>sk_registry := AList.update i \<lparr>sr_name = name, sr_stats = st, sr_routable = routable\<rparr> (sk_registry s)\<rparr>
      | Finalize i \<Rightarrow>
          (case map_of (sk_registry s) i of
             None \<Rightarrow> s
           | Some entry \<Rightarrow>
               let s1 = s\<lparr>sk_registry := AList.delete i (sk_registry s)\<rparr>
               in if \<not> cfg_enabled cfg then s1
                  else with_queue (enqueue_synthetic (cfg_queue_capacity cfg)
                         (build_line (sr_name entry) (stats (sr_stats entry)) ts (sr_routable entry))) s1))"

definition emit_interval_lines ::
  "stats_run_config \<Rightarrow> (nat \<Rightarrow> endpoint_stats) \<Rightarrow> string \<Rightarrow> 'w stats_task \<Rightarrow> 'w stats_task" where
  "emit_interval_lines cfg stats ts s =
     (if sk_registry s = [] then s
      else with_queue (fold (\<lambda>entry. enqueue_regular (cfg_queue_capacity cfg)
             (build_line (sr_name entry) (stats (sr_stats entry)) ts (sr_routable entry))) (map snd (sk_registry s))) s)"

definition warn_on_new_drops :: "'w stats_task \<Rightarrow> 'w stats_task" where
  "warn_on_new_drops s =
     (if sk_total_dropped s > sk_last_warned_dropped s then s\<lparr>sk_last_warned_dropped := sk_total_dropped s\<rparr> else s)"

text \<open>The loop over the queue; the newline is the byte 10.\<close>

fun drain_entries :: "'w stats_env \<Rightarrow> queue_entry list \<Rightarrow> bool \<times> 'w \<Rightarrow> bool \<times> 'w" where
  "drain_entries env [] s = s"
| "drain_entries env (entry # rest) (broken, w) =
     (if broken then drain_entries env rest (broken, w)
      else case sv_to_vec env (qe_line entry) of
        None \<Rightarrow> drain_entries env rest (broken, w)
      | Some json \<Rightarrow>
          (case sv_write_all env (json @ [10]) w of
             (w', Write_Ok) \<Rightarrow> drain_entries env rest (broken, w')
           | (w', Write_BrokenPipe) \<Rightarrow> drain_entries env rest (True, w')
           | (w', Write_Error) \<Rightarrow> drain_entries env rest (broken, w')))"

definition drain_queue :: "'w stats_env \<Rightarrow> 'w stats_task \<Rightarrow> 'w stats_task" where
  "drain_queue env s =
     (let (broken, w) = drain_entries env (sk_queue s) (sk_broken_pipe_warned s, sk_writer s)
      in s\<lparr>sk_queue := [], sk_broken_pipe_warned := broken, sk_writer := w\<rparr>)"

text \<open>
  One round of the biased select. The timer exists only when lines are enabled; \<^term>\<open>None\<close> is the
  end of the loop.
\<close>

record stats_input =
  sti_cancelled :: bool
  sti_tick :: bool
  sti_recv :: "stats_event recv"
  sti_stats :: "nat \<Rightarrow> endpoint_stats"
  sti_ts :: string

definition stats_round :: "stats_run_config \<Rightarrow> 'w stats_env \<Rightarrow> stats_input \<Rightarrow> 'w stats_task \<Rightarrow> 'w stats_task option" where
  "stats_round cfg env i s =
     (if sti_cancelled i then None
      else if cfg_enabled cfg \<and> sti_tick i then
        Some (drain_queue env (warn_on_new_drops (emit_interval_lines cfg (sti_stats i) (sti_ts i) s)))
      else case sti_recv i of
        Item event \<Rightarrow> Some (drain_queue env (handle_stats_event cfg (sti_stats i) (sti_ts i) event s))
      | Closed_Recv \<Rightarrow> None
      | Pending \<Rightarrow> Some s)"

text \<open>The rounds up to the one that leaves the loop.\<close>

fun stats_loop :: "stats_run_config \<Rightarrow> 'w stats_env \<Rightarrow> stats_input list \<Rightarrow> 'w stats_task \<Rightarrow> 'w stats_task option" where
  "stats_loop cfg env [] s = None"
| "stats_loop cfg env (i # is) s = (case stats_round cfg env i s of None \<Rightarrow> Some s | Some s' \<Rightarrow> stats_loop cfg env is s')"

text \<open>
  After the loop the task keeps receiving until \<^verbatim>\<open>POST_CANCEL_DRAIN\<close> has passed, the channel is
  closed or nothing came in time. An input is the instant at the head of the loop, what
  \<^verbatim>\<open>timeout(remaining, recv)\<close> gave (\<^term>\<open>Pending\<close> for a timeout) and the readings.
\<close>

definition POST_CANCEL_DRAIN :: duration where
  "POST_CANCEL_DRAIN = 1500 * 1000000"

record drain_input =
  dri_now :: instant
  dri_recv :: "stats_event recv"
  dri_stats :: "nat \<Rightarrow> endpoint_stats"
  dri_ts :: string

fun post_cancel_drain :: "stats_run_config \<Rightarrow> instant \<Rightarrow> drain_input list \<Rightarrow> 'w stats_task \<Rightarrow> 'w stats_task option" where
  "post_cancel_drain cfg deadline [] s = None"
| "post_cancel_drain cfg deadline (i # is) s =
     (if dri_now i \<ge> deadline then Some s
      else case dri_recv i of
        Item event \<Rightarrow> post_cancel_drain cfg deadline is (handle_stats_event cfg (dri_stats i) (dri_ts i) event s)
      | Closed_Recv \<Rightarrow> Some s
      | Pending \<Rightarrow> Some s)"

definition stats_run ::
  "stats_run_config \<Rightarrow> 'w stats_env \<Rightarrow> stats_input list \<Rightarrow> instant \<Rightarrow> drain_input list \<Rightarrow> 'w \<Rightarrow> 'w stats_task option" where
  "stats_run cfg env rounds now drains w =
     (case stats_loop cfg env rounds (stats_task_new w) of
        None \<Rightarrow> None
      | Some s \<Rightarrow>
          (case post_cancel_drain cfg (now + POST_CANCEL_DRAIN) drains s of
             None \<Rightarrow> None
           | Some s1 \<Rightarrow> let s2 = drain_queue env s1 in Some (s2\<lparr>sk_writer := sv_flush env (sk_writer s2)\<rparr>)))"

section \<open>What is printed\<close>

text \<open>
  The reference: the lines a run prints, computed from the registry alone, without a queue. A
  tick prints the last \<^term>\<open>cfg_queue_capacity cfg\<close> rows (all of them, when they fit), a
  \<^term>\<open>Finalize\<close> of a registered endpoint one line.
\<close>

definition last_n :: "nat \<Rightarrow> 'a list \<Rightarrow> 'a list" where
  "last_n n xs = drop (length xs - n) xs"

definition row_line :: "(nat \<Rightarrow> endpoint_stats) \<Rightarrow> string \<Rightarrow> stats_row \<Rightarrow> stats_line" where
  "row_line stats ts row = build_line (sr_name row) (stats (sr_stats row)) ts (sr_routable row)"

fun registry_after :: "stats_event \<Rightarrow> (endpoint_id \<times> stats_row) list \<Rightarrow> (endpoint_id \<times> stats_row) list" where
  "registry_after (Register i name st rt) reg = AList.update i \<lparr>sr_name = name, sr_stats = st, sr_routable = rt\<rparr> reg"
| "registry_after (Finalize i) reg = AList.delete i reg"

fun event_lines :: "stats_run_config \<Rightarrow> (nat \<Rightarrow> endpoint_stats) \<Rightarrow> string \<Rightarrow> (endpoint_id \<times> stats_row) list \<Rightarrow> stats_event \<Rightarrow> stats_line list" where
  "event_lines cfg stats ts reg (Register i name st rt) = []"
| "event_lines cfg stats ts reg (Finalize i) =
     (case map_of reg i of None \<Rightarrow> [] | Some row \<Rightarrow> if cfg_enabled cfg then [row_line stats ts row] else [])"

definition leaves_loop :: "stats_run_config \<Rightarrow> stats_input \<Rightarrow> bool" where
  "leaves_loop cfg i \<longleftrightarrow> sti_cancelled i \<or> \<not> (cfg_enabled cfg \<and> sti_tick i) \<and> sti_recv i = Closed_Recv"

fun loop_lines :: "stats_run_config \<Rightarrow> stats_input list \<Rightarrow> (endpoint_id \<times> stats_row) list \<Rightarrow> stats_line list \<times> (endpoint_id \<times> stats_row) list" where
  "loop_lines cfg [] reg = ([], reg)"
| "loop_lines cfg (i # is) reg =
     (if leaves_loop cfg i then ([], reg)
      else if cfg_enabled cfg \<and> sti_tick i then
        let (ls, reg') = loop_lines cfg is reg
        in (last_n (cfg_queue_capacity cfg) (map (row_line (sti_stats i) (sti_ts i)) (map snd reg)) @ ls, reg')
      else case sti_recv i of
        Item ev \<Rightarrow>
          let (ls, reg') = loop_lines cfg is (registry_after ev reg)
          in (last_n (cfg_queue_capacity cfg) (event_lines cfg (sti_stats i) (sti_ts i) reg ev) @ ls, reg')
      | _ \<Rightarrow> loop_lines cfg is reg)"

definition leaves_drain :: "instant \<Rightarrow> drain_input \<Rightarrow> bool" where
  "leaves_drain deadline i \<longleftrightarrow> deadline \<le> dri_now i \<or> (\<forall>ev. dri_recv i \<noteq> Item ev)"

fun drain_lines :: "stats_run_config \<Rightarrow> instant \<Rightarrow> drain_input list \<Rightarrow> (endpoint_id \<times> stats_row) list \<Rightarrow> stats_line list" where
  "drain_lines cfg deadline [] reg = []"
| "drain_lines cfg deadline (i # is) reg =
     (if deadline \<le> dri_now i then []
      else case dri_recv i of
        Item ev \<Rightarrow> event_lines cfg (dri_stats i) (dri_ts i) reg ev @ drain_lines cfg deadline is (registry_after ev reg)
      | _ \<Rightarrow> [])"

text \<open>A serialiser that always succeeds and a writer that keeps what it is given.\<close>

definition sound_writer :: "'w stats_env \<Rightarrow> ('w \<Rightarrow> bytes list) \<Rightarrow> bool" where
  "sound_writer env contents \<longleftrightarrow>
     (\<forall>line. sv_to_vec env line \<noteq> None)
     \<and> (\<forall>b w. snd (sv_write_all env b w) = Write_Ok \<and> contents (fst (sv_write_all env b w)) = contents w @ [b])
     \<and> (\<forall>w. contents (sv_flush env w) = contents w)"

definition line_text :: "'w stats_env \<Rightarrow> stats_line \<Rightarrow> bytes" where
  "line_text env line = the (sv_to_vec env line) @ [10]"

lemma last_n_rev: "last_n n xs = rev (take n (rev xs))"
  by (simp add: last_n_def rev_take)

lemma last_n_append: "last_n n (last_n n xs @ ys) = last_n n (xs @ ys)"
  by (simp add: last_n_rev)

lemma last_n_short [simp]: "length xs \<le> n \<Longrightarrow> last_n n xs = xs"
  by (simp add: last_n_def)

lemma last_n_length [simp]: "length (last_n n xs) = min n (length xs)"
  by (simp add: last_n_def)

lemma last_n_0 [simp]: "last_n 0 xs = []"
  by (simp add: last_n_def)

lemma remove_first_None: "remove_first P xs = None \<longleftrightarrow> (\<forall>x \<in> set xs. \<not> P x)"
  by (induction xs) auto

lemma last_n_snoc: "length xs \<le> n \<Longrightarrow> 0 < n \<Longrightarrow> last_n n (xs @ [x]) = (if length xs = n then tl xs else xs) @ [x]"
  by (cases xs) (auto simp: last_n_def)

text \<open>Either way of queueing keeps the last lines, when the queue holds one kind only.\<close>

lemma enqueue_regular_keeps_last:
  assumes "length q \<le> n"
  shows "map qe_line (fst (enqueue_regular n line (q, d))) = (if n = 0 then map qe_line q else last_n n (map qe_line q @ [line]))"
  using assms by (auto simp: enqueue_regular_def last_n_snoc map_tl)

lemma enqueue_synthetic_keeps_last:
  assumes "length q \<le> n" and "list_all qe_synthetic q"
  shows "map qe_line (fst (enqueue_synthetic n line (q, d))) = (if n = 0 then map qe_line q else last_n n (map qe_line q @ [line]))
    \<and> list_all qe_synthetic (fst (enqueue_synthetic n line (q, d)))"
proof -
  have "remove_first (\<lambda>entry. \<not> qe_synthetic entry) q = None"
    using assms(2) by (simp add: remove_first_None list_all_iff)
  with assms show ?thesis
    by (cases q) (auto simp: enqueue_synthetic_def last_n_snoc [symmetric] last_n_def)
qed

lemma enqueue_all_regular:
  "length q \<le> n \<Longrightarrow>
   map qe_line (fst (fold (enqueue_regular n) ls (q, d))) = last_n n (map qe_line q @ ls)"
proof (induction ls arbitrary: q d)
  case (Cons l ls)
  obtain q' d' where e: "enqueue_regular n l (q, d) = (q', d')" by (cases "enqueue_regular n l (q, d)")
  have q': "map qe_line q' = last_n n (map qe_line q @ [l])"
    using enqueue_regular_keeps_last [OF Cons.prems, of l d] Cons.prems by (auto simp: e split: if_splits)
  then have "length q' = min n (Suc (length q))" by (metis last_n_length length_append_singleton length_map)
  with Cons.IH [of q' d'] q' show ?case by (simp add: e last_n_append)
qed simp

lemma drain_entries_sound:
  assumes "sound_writer env contents"
  shows "fst (drain_entries env q (False, w)) = False
    \<and> contents (snd (drain_entries env q (False, w))) = contents w @ map (line_text env \<circ> qe_line) q"
proof (induction q arbitrary: w)
  case (Cons e q)
  obtain json where j: "sv_to_vec env (qe_line e) = Some json" using assms unfolding sound_writer_def by blast
  obtain w' where w': "sv_write_all env (json @ [10]) w = (w', Write_Ok)" "contents w' = contents w @ [json @ [10]]"
    using assms unfolding sound_writer_def by (metis prod.collapse)
  from Cons.IH [of w'] j w' show ?case by (simp add: line_text_def)
qed simp

text \<open>Between two rounds the queue is empty and what was printed is known.\<close>

definition printed :: "'w stats_env \<Rightarrow> ('w \<Rightarrow> bytes list) \<Rightarrow> bytes list \<Rightarrow> stats_line list \<Rightarrow> (endpoint_id \<times> stats_row) list \<Rightarrow> 'w stats_task \<Rightarrow> bool" where
  "printed env contents before ls reg s \<longleftrightarrow>
     sk_queue s = [] \<and> \<not> sk_broken_pipe_warned s \<and> sk_registry s = reg
     \<and> contents (sk_writer s) = before @ map (line_text env) ls"

lemma drain_queue_prints:
  assumes "sound_writer env contents" and "\<not> sk_broken_pipe_warned s" and "contents (sk_writer s) = before @ map (line_text env) ls"
  shows "printed env contents before (ls @ map qe_line (sk_queue s)) (sk_registry s) (drain_queue env s)"
  using drain_entries_sound [OF assms(1), of "sk_queue s" "sk_writer s"] assms(2,3)
  by (cases "drain_entries env (sk_queue s) (False, sk_writer s)")
    (simp add: printed_def drain_queue_def Let_def)

lemma with_queue_fields [simp]:
  "sk_registry (with_queue f s) = sk_registry s" "sk_broken_pipe_warned (with_queue f s) = sk_broken_pipe_warned s"
  "sk_writer (with_queue f s) = sk_writer s" "sk_queue (with_queue f s) = fst (f (sk_queue s, sk_total_dropped s))"
  by (simp_all add: with_queue_def case_prod_unfold Let_def)

lemma warn_on_new_drops_fields [simp]:
  "sk_registry (warn_on_new_drops s) = sk_registry s" "sk_queue (warn_on_new_drops s) = sk_queue s"
  "sk_broken_pipe_warned (warn_on_new_drops s) = sk_broken_pipe_warned s" "sk_writer (warn_on_new_drops s) = sk_writer s"
  by (simp_all add: warn_on_new_drops_def)

lemma emit_interval_lines_fields [simp]:
  "sk_registry (emit_interval_lines cfg st ts s) = sk_registry s"
  "sk_broken_pipe_warned (emit_interval_lines cfg st ts s) = sk_broken_pipe_warned s"
  "sk_writer (emit_interval_lines cfg st ts s) = sk_writer s"
  by (simp_all add: emit_interval_lines_def)

lemma emit_interval_lines_queue:
  assumes "sk_queue s = []"
  shows "map qe_line (sk_queue (emit_interval_lines cfg st ts s)) =
    last_n (cfg_queue_capacity cfg) (map (row_line st ts) (map snd (sk_registry s)))"
proof -
  let ?n = "cfg_queue_capacity cfg"
  have "fold (\<lambda>row. enqueue_regular ?n (build_line (sr_name row) (st (sr_stats row)) ts (sr_routable row))) rows
      = fold (enqueue_regular ?n) (map (row_line st ts) rows)" for rows
    by (simp add: fold_map comp_def row_line_def [abs_def])
  with enqueue_all_regular [of "[]" ?n] assms show ?thesis by (simp add: emit_interval_lines_def)
qed

text \<open>The effect of an event on a queue of final lines.\<close>

lemma delete_absent: "map_of reg i = None \<Longrightarrow> AList.delete i reg = reg"
  by (simp add: map_of_eq_None_iff delete_id)

lemma handle_stats_event_fields [simp]:
  "sk_registry (handle_stats_event cfg st ts ev s) = registry_after ev (sk_registry s)"
  "sk_broken_pipe_warned (handle_stats_event cfg st ts ev s) = sk_broken_pipe_warned s"
  "sk_writer (handle_stats_event cfg st ts ev s) = sk_writer s"
  by (cases ev; simp add: handle_stats_event_def Let_def delete_absent split: option.split)+

lemma handle_stats_event_queue:
  assumes "list_all qe_synthetic (sk_queue s)" and "map qe_line (sk_queue s) = last_n (cfg_queue_capacity cfg) ls"
  shows "list_all qe_synthetic (sk_queue (handle_stats_event cfg st ts ev s))
    \<and> map qe_line (sk_queue (handle_stats_event cfg st ts ev s)) =
        last_n (cfg_queue_capacity cfg) (ls @ event_lines cfg st ts (sk_registry s) ev)"
proof -
  let ?n = "cfg_queue_capacity cfg"
  have len: "length (sk_queue s) \<le> ?n" using assms(2) by (metis last_n_length length_map min.cobounded1)
  have "list_all qe_synthetic (fst (enqueue_synthetic ?n l (sk_queue s, d)))
      \<and> map qe_line (fst (enqueue_synthetic ?n l (sk_queue s, d))) = last_n ?n (ls @ [l])" for l d
    using enqueue_synthetic_keeps_last [OF len assms(1), of l d] assms(2) by (auto simp: last_n_append)
  with assms show ?thesis
    by (cases ev) (auto simp: handle_stats_event_def row_line_def split: option.splits)
qed

lemma stats_round_prints:
  assumes w: "sound_writer env contents" and inv: "printed env contents before ls reg s" and go: "\<not> leaves_loop cfg i"
  shows "\<exists>s'. stats_round cfg env i s = Some s'
    \<and> printed env contents before (ls @ fst (loop_lines cfg [i] reg)) (snd (loop_lines cfg [i] reg)) s'"
proof (cases "cfg_enabled cfg \<and> sti_tick i")
  case True
  let ?s = "warn_on_new_drops (emit_interval_lines cfg (sti_stats i) (sti_ts i) s)"
  have q: "map qe_line (sk_queue ?s) = last_n (cfg_queue_capacity cfg) (map (row_line (sti_stats i) (sti_ts i)) (map snd reg))"
    using emit_interval_lines_queue [of s cfg "sti_stats i" "sti_ts i"] inv by (simp add: printed_def)
  have "printed env contents before (ls @ map qe_line (sk_queue ?s)) (sk_registry ?s) (drain_queue env ?s)"
    by (rule drain_queue_prints [OF w]) (use inv in \<open>simp_all add: printed_def\<close>)
  with True go inv show ?thesis unfolding q by (simp add: stats_round_def leaves_loop_def printed_def)
next
  case False
  show ?thesis
  proof (cases "sti_recv i")
    case (Item ev)
    let ?s = "handle_stats_event cfg (sti_stats i) (sti_ts i) ev s"
    have q: "map qe_line (sk_queue ?s) = last_n (cfg_queue_capacity cfg) (event_lines cfg (sti_stats i) (sti_ts i) reg ev)"
      using handle_stats_event_queue [of s cfg "[]" "sti_stats i" "sti_ts i" ev] inv by (simp add: printed_def)
    have "printed env contents before (ls @ map qe_line (sk_queue ?s)) (sk_registry ?s) (drain_queue env ?s)"
      by (rule drain_queue_prints [OF w]) (use inv in \<open>simp_all add: printed_def\<close>)
    with False Item go inv show ?thesis unfolding q by (auto simp: stats_round_def leaves_loop_def printed_def)
  qed (use False go inv in \<open>auto simp: stats_round_def leaves_loop_def\<close>)
qed

lemma loop_lines_Cons:
  "\<not> leaves_loop cfg i \<Longrightarrow> loop_lines cfg (i # is) reg =
     (fst (loop_lines cfg [i] reg) @ fst (loop_lines cfg is (snd (loop_lines cfg [i] reg))),
      snd (loop_lines cfg is (snd (loop_lines cfg [i] reg))))"
  by (cases "cfg_enabled cfg"; cases "sti_tick i"; cases "sti_recv i") (simp_all add: case_prod_unfold Let_def)

lemma stats_loop_prints:
  assumes "sound_writer env contents"
  shows "printed env contents before ls reg s \<Longrightarrow> \<exists>i \<in> set rounds. leaves_loop cfg i \<Longrightarrow>
    \<exists>s'. stats_loop cfg env rounds s = Some s'
      \<and> printed env contents before (ls @ fst (loop_lines cfg rounds reg)) (snd (loop_lines cfg rounds reg)) s'"
proof (induction rounds arbitrary: ls reg s)
  case (Cons i rounds)
  show ?case
  proof (cases "leaves_loop cfg i")
    case True
    then have "stats_round cfg env i s = None" by (auto simp: stats_round_def leaves_loop_def)
    with True Cons.prems(1) show ?thesis by simp
  next
    case False
    from stats_round_prints [OF assms Cons.prems(1) False] obtain s1 where s1: "stats_round cfg env i s = Some s1"
      "printed env contents before (ls @ fst (loop_lines cfg [i] reg)) (snd (loop_lines cfg [i] reg)) s1" by blast
    from Cons.IH [OF s1(2)] Cons.prems(2) False s1(1) show ?thesis
      unfolding loop_lines_Cons [OF False, of rounds reg] by (simp del: loop_lines.simps)
  qed
qed simp

lemma post_cancel_drain_queues:
  "list_all qe_synthetic (sk_queue s) \<Longrightarrow> map qe_line (sk_queue s) = last_n (cfg_queue_capacity cfg) ls \<Longrightarrow>
   \<exists>i \<in> set drains. leaves_drain deadline i \<Longrightarrow>
   \<exists>s'. post_cancel_drain cfg deadline drains s = Some s'
     \<and> map qe_line (sk_queue s') = last_n (cfg_queue_capacity cfg) (ls @ drain_lines cfg deadline drains (sk_registry s))
     \<and> sk_writer s' = sk_writer s \<and> sk_broken_pipe_warned s' = sk_broken_pipe_warned s"
proof (induction drains arbitrary: s ls)
  case (Cons i drains)
  show ?case
  proof (cases "leaves_drain deadline i")
    case True
    with Cons.prems(2) show ?thesis by (auto simp: leaves_drain_def split: recv.splits)
  next
    case False
    then obtain ev where ev: "dri_recv i = Item ev" "dri_now i < deadline" by (auto simp: leaves_drain_def)
    from Cons.IH [OF handle_stats_event_queue [OF Cons.prems(1,2), THEN conjunct1]
        handle_stats_event_queue [OF Cons.prems(1,2), THEN conjunct2]] Cons.prems(3) False ev
    show ?thesis by auto
  qed
qed simp


definition demo_writer :: "(bytes list) stats_env" where
  "demo_writer = \<lparr>sv_to_vec = (\<lambda>line. Some (map (\<lambda>c. of_char c) (line_endpoint line))),
     sv_write_all = (\<lambda>b w. (w @ [b], Write_Ok)), sv_flush = id\<rparr>"

definition demo_input :: "bool \<Rightarrow> bool \<Rightarrow> stats_event recv \<Rightarrow> stats_input" where
  "demo_input c t r = \<lparr>sti_cancelled = c, sti_tick = t, sti_recv = r, sti_stats = (\<lambda>_. stats_new Connected), sti_ts = ''now''\<rparr>"


section \<open>A broken pipe\<close>

lemma drain_entries_broken [simp]: "drain_entries env q (True, w) = (True, w)"
  by (induction q) simp_all

lemma drain_queue_broken: "sk_broken_pipe_warned s \<Longrightarrow> sk_broken_pipe_warned (drain_queue env s) \<and> sk_writer (drain_queue env s) = sk_writer s"
  by (simp add: drain_queue_def)

text \<open>
  A broken pipe is final: once a write has failed because the reader is gone, the task never
  touches the writer again while it runs, but goes on to follow the registry and to keep the
  queue empty.
\<close>

theorem stats_broken_pipe_is_final:
  assumes "sk_broken_pipe_warned s" and "stats_loop cfg env rounds s = Some s'"
  shows "sk_broken_pipe_warned s' \<and> sk_writer s' = sk_writer s \<and> sk_registry s' = snd (loop_lines cfg rounds (sk_registry s))
    \<and> (sk_queue s = [] \<longrightarrow> sk_queue s' = [])"
  using assms
proof (induction rounds arbitrary: s)
  case (Cons i rounds)
  show ?case
  proof (cases "leaves_loop cfg i")
    case True
    then have "stats_round cfg env i s = None" by (auto simp: stats_round_def leaves_loop_def)
    with True Cons.prems show ?thesis by simp
  next
    case False
    then obtain s1 where s1: "stats_round cfg env i s = Some s1" "sk_broken_pipe_warned s1" "sk_writer s1 = sk_writer s"
      "sk_registry s1 = snd (loop_lines cfg [i] (sk_registry s))" "sk_queue s = [] \<longrightarrow> sk_queue s1 = []"
      using Cons.prems(1)
      by (cases "cfg_enabled cfg \<and> sti_tick i"; cases "sti_recv i")
        (auto simp: stats_round_def leaves_loop_def drain_queue_def)
    with Cons.IH [OF s1(2)] Cons.prems(2) show ?thesis
      unfolding loop_lines_Cons [OF False, of rounds "sk_registry s"] by (simp del: loop_lines.simps)
  qed
qed simp

theorem stats_broken_pipe_is_final_witness:
  "\<exists>s'. stats_loop \<lparr>cfg_enabled = True, cfg_interval = 1, cfg_queue_capacity = 4\<rparr> demo_writer
      [demo_input False False (Item (Register 1 ''a'' 0 True)), demo_input False True Pending, demo_input True False Pending]
      ((stats_task_new [])\<lparr>sk_broken_pipe_warned := True\<rparr>) = Some s' \<and> sk_writer s' = []"
proof -
  let ?s = "(stats_task_new [])\<lparr>sk_broken_pipe_warned := True\<rparr>"
  let ?r = "[demo_input False False (Item (Register 1 ''a'' 0 True)), demo_input False True Pending, demo_input True False Pending]"
  let ?c = "\<lparr>cfg_enabled = True, cfg_interval = 1, cfg_queue_capacity = 4\<rparr>"
  obtain s' where "stats_loop ?c demo_writer ?r ?s = Some s'" by (simp add: demo_input_def stats_round_def)
  with stats_broken_pipe_is_final [of ?s ?c demo_writer ?r] show ?thesis by (simp add: stats_task_new_def)
qed

end
