(* ===== verification/Framer_Stream.thy ===== *)
theory Framer_Stream
  imports Framer_Scan
begin

unbundle bit_operations_syntax

text \<open>
  What the framer promises to its callers about a byte stream: where the chunk boundaries fall
  does not matter, no byte is lost or invented, what is kept back is short, and every frame
  that a sender encodes comes out unchanged, whatever noise lies between the frames.
\<close>

section \<open>Chunked input\<close>

text \<open>
  The loop every endpoint runs: append the bytes of one read to the accumulator, then take out
  all the frames (\<^verbatim>\<open>session.rs::drain_framer\<close>).
\<close>

fun feed_chunks :: "msg_table \<Rightarrow> framer \<Rightarrow> bytes list \<Rightarrow> ((parsed_header \<times> bytes) list \<times> framer) may_panic" where
  "feed_chunks tbl fr [] = Some ([], fr)"
| "feed_chunks tbl fr (c # cs) = do {
     (fs, fr') \<leftarrow> drain_frames tbl (framer_extend fr c);
     (fs', fr'') \<leftarrow> feed_chunks tbl fr' cs;
     Some (fs @ fs', fr'')
   }"

lemma fr_buf_extend [simp]: "fr_buf (framer_extend fr c) = fr_buf fr @ c"
  by (simp add: framer_extend_def)

lemma bump_extend: "bump (framer_extend fr c) s k r = bump fr s k r"
  by (simp add: framer_extend_def bump_def)

lemma drain_twice:
  assumes "length (fr_buf fr) + length c + length d < 2 ^ 64"
  shows "drain_frames tbl (framer_extend fr c) \<bind> (\<lambda>(fs, fr'). drain_frames tbl (framer_extend fr' d)
           \<bind> (\<lambda>(fs', fr''). Some (fs @ fs', fr''))) = drain_frames tbl (framer_extend fr (c @ d))"
proof -
  obtain fs s k r where sc: "scan_all tbl (fr_buf fr @ c) = (fs, s, k, r)"
    by (cases "scan_all tbl (fr_buf fr @ c)")
  have "length r \<le> length (fr_buf fr @ c)" using scan_all_length [OF sc] by simp
  then have "length (r @ d) < 2 ^ 64" using assms by simp
  then have "drain_frames tbl (framer_extend (bump fr s k r) d) =
      Some (case scan_all tbl (r @ d) of (fs, s', k', r') \<Rightarrow> (fs, bump fr (s + s') (k + k') r'))"
    using drain_frames_scan_all [of "framer_extend (bump fr s k r) d" tbl] by (simp add: bump_extend)
  moreover have "drain_frames tbl (framer_extend fr c) = Some (fs, bump fr s k r)"
    using assms sc drain_frames_scan_all [of "framer_extend fr c" tbl] by (simp add: bump_extend)
  moreover have "drain_frames tbl (framer_extend fr (c @ d)) =
      Some (case scan_all tbl (fr_buf fr @ c @ d) of (fs, s, k, r) \<Rightarrow> (fs, bump fr s k r))"
    using assms drain_frames_scan_all [of "framer_extend fr (c @ d)" tbl] by (simp add: bump_extend)
  moreover note scan_all_append [OF sc, of d]
  ultimately show ?thesis by (simp split: prod.splits)
qed

lemma feed_chunks_concat:
  "length (fr_buf fr) + length (concat (c # cs)) < 2 ^ 64 \<Longrightarrow>
   feed_chunks tbl fr (c # cs) = drain_frames tbl (framer_extend fr (concat (c # cs)))"
proof (induction cs arbitrary: fr c)
  case Nil
  then have "\<exists>x. drain_frames tbl (framer_extend fr c) = Some x"
    using drain_frames_scan_all [of "framer_extend fr c" tbl] by simp
  then show ?case by (auto split: prod.splits)
next
  case (Cons d cs)
  obtain fs s k r where sc: "scan_all tbl (fr_buf fr @ c) = (fs, s, k, r)"
    by (cases "scan_all tbl (fr_buf fr @ c)")
  have one: "drain_frames tbl (framer_extend fr c) = Some (fs, bump fr s k r)"
    using Cons.prems sc drain_frames_scan_all [of "framer_extend fr c" tbl] by (simp add: bump_extend)
  have "length r \<le> length (fr_buf fr @ c)" using scan_all_length [OF sc] by simp
  then have "feed_chunks tbl (bump fr s k r) (d # cs)
      = drain_frames tbl (framer_extend (bump fr s k r) (concat (d # cs)))"
    using Cons.prems by (intro Cons.IH) simp
  then have "feed_chunks tbl fr (c # d # cs) =
      drain_frames tbl (framer_extend (bump fr s k r) (concat (d # cs))) \<bind> (\<lambda>(fs', fr''). Some (fs @ fs', fr''))"
    using one by (subst feed_chunks.simps(2)) (simp del: feed_chunks.simps)
  also have "\<dots> = drain_frames tbl (framer_extend fr (c @ concat (d # cs)))"
    using drain_twice [of fr c "concat (d # cs)" tbl] Cons.prems one by simp
  finally show ?case by simp
qed

text \<open>
  C6. Framing does not depend on how the transport cuts the stream: reading the bytes in any
  number of chunks and draining after each read gives the same frames in the same order, the
  same counters and the same residual buffer as one read of all of them, and no index, slice
  or \<^verbatim>\<open>split_to\<close> panics on the way.
\<close>

theorem framing_ignores_chunking:
  assumes "length (fr_buf fr) + length (concat chunks) < 2 ^ 64" and "chunks \<noteq> []"
  shows "feed_chunks tbl fr chunks = drain_frames tbl (framer_extend fr (concat chunks))
    \<and> drain_frames tbl (framer_extend fr (concat chunks)) \<noteq> None"
  using assms feed_chunks_concat [of fr _ _ tbl]
    drain_frames_scan_all [of "framer_extend fr (concat chunks)" tbl] by (cases chunks) auto

theorem framing_ignores_chunking_witness:
  "feed_chunks [] framer_new [[0x55, 0xFE], [0, 7, 1], [1, 0, 3, 4, 0xFD]]
     = drain_frames [] (framer_extend framer_new [0x55, 0xFE, 0, 7, 1, 1, 0, 3, 4, 0xFD])"
  using framing_ignores_chunking [of framer_new "[[0x55, 0xFE], [0, 7, 1], [1, 0, 3, 4, 0xFD]]" "[]"]
  by (simp add: framer_new_def)

lemma drain_frames_done: "try_next_frame tbl fr = Some (fr', None) \<Longrightarrow> drain_frames tbl fr = Some ([], fr')"
  by (simp add: drain_frames.simps)

lemma drain_frames_step:
  "try_next_frame tbl fr = Some (fr', Some out) \<Longrightarrow> drain_frames tbl fr' = Some (outs, fr'') \<Longrightarrow>
   drain_frames tbl fr = Some (out # outs, fr'')"
  by (simp add: drain_frames.simps [of tbl fr])

lemma drain_noisy_heartbeat:
  "drain_frames [] (framer_extend framer_new [0x55, 0xFE, 0, 7, 1, 1, 0, 3, 4, 0xFD]) =
     Some ([(\<lparr>hdr_version = Version_V1, hdr_source = node_new 1 1, hdr_msgid = 0, hdr_seq = 7,
        hdr_payload_len = 0, hdr_target_system = None, hdr_target_component = None\<rparr>,
        [0xFE, 0, 7, 1, 1, 0, 3, 4])], framer_new\<lparr>fr_buf := [0xFD], fr_resync_bytes := 1\<rparr>)"
  by (rule drain_frames_step [where fr' = "framer_new\<lparr>fr_buf := [0xFD], fr_resync_bytes := 1\<rparr>"],
      code_simp, rule drain_frames_done, code_simp)

section \<open>Conservation of bytes\<close>

lemma scan_all_gaps:
  "scan_all tbl b = (fs, s, k, r) \<Longrightarrow>
   \<exists>gaps tail. length gaps = length fs \<and> b = concat (map2 (\<lambda>g f. g @ snd f) gaps fs) @ tail @ r
     \<and> s = length (concat gaps) + length tail \<and> k \<le> s"
proof (induction "length b" arbitrary: b fs s k rule: less_induct)
  case less
  have skip: "\<exists>gaps tail. length gaps = length fs
      \<and> b = concat (map2 (\<lambda>g f. g @ snd f) gaps fs) @ tail @ r
      \<and> Suc s' = length (concat gaps) + length tail \<and> k' \<le> s'"
    if sc: "scan_all tbl (tl b) = (fs, s', k', r)" and ne: "b \<noteq> []" for s' k'
  proof -
    from less.hyps [OF _ sc] ne obtain gaps tail where g: "length gaps = length fs"
      "tl b = concat (map2 (\<lambda>g f. g @ snd f) gaps fs) @ tail @ r"
      "s' = length (concat gaps) + length tail" "k' \<le> s'" by auto
    have b: "b = hd b # tl b" using ne by simp
    show ?thesis
    proof (cases gaps)
      case Nil
      with g b show ?thesis by (intro exI [of _ "[]"] exI [of _ "hd b # tail"]) auto
    next
      case (Cons g0 gs)
      with g b show ?thesis
        by (intro exI [of _ "(hd b # g0) # gs"] exI [of _ tail]) (cases fs; auto)
    qed
  qed
  from less.prems show ?case
  proof (cases rule: scan_all_cases)
    case 1
    then show ?thesis by auto
  next
    case (2 s')
    then have "b \<noteq> []" by auto
    from skip [OF 2(2) this] 2 show ?thesis by fastforce
  next
    case (3 s' k')
    then have "b \<noteq> []" by auto
    from skip [OF 3(2) this] 3 show ?thesis by fastforce
  next
    case (4 h n fs')
    from classify_Accept_bounds [OF 4(1)] have n: "8 \<le> n" "n \<le> length b" by auto
    then have "length (drop n b) < length b" by simp
    from less.hyps [OF this 4(2)] obtain gaps tail where "length gaps = length fs'"
      "drop n b = concat (map2 (\<lambda>g f. g @ snd f) gaps fs') @ tail @ r"
      "s = length (concat gaps) + length tail" "k \<le> s" by auto
    with 4 append_take_drop_id [of n b] show ?thesis
      by (intro exI [of _ "[] # gaps"] exI [of _ tail]) auto
  qed
qed

text \<open>
  C8. The framer conserves bytes: the accumulator is exactly the emitted frames in order, each
  preceded by a run of skipped bytes, then a last skipped run and the bytes still buffered.
  The resync counter grows by the number of skipped bytes (saturating), and what stays
  buffered is shorter than one maximal frame.
\<close>

theorem framer_conserves_bytes:
  assumes "length (fr_buf fr) < 2 ^ 64" and "drain_frames tbl fr = Some (fs, fr')"
  shows "\<exists>gaps tail. length gaps = length fs
      \<and> fr_buf fr = concat (map2 (\<lambda>g f. g @ snd f) gaps fs) @ tail @ fr_buf fr'
      \<and> unat (fr_resync_bytes fr')
          = min (unat (fr_resync_bytes fr) + length (concat gaps) + length tail) (2 ^ 64 - 1)
      \<and> length (fr_buf fr') < 280"
proof -
  obtain fs' s k r where sc: "scan_all tbl (fr_buf fr) = (fs', s, k, r)"
    by (cases "scan_all tbl (fr_buf fr)")
  with assms drain_frames_scan_all [of fr tbl] have eq: "fs' = fs" "fr' = bump fr s k r" by auto
  have "length r < 280" using scan_all_rest [OF sc] by (rule classify_NeedMore_short)
  with scan_all_gaps [OF sc] eq show ?thesis by (auto simp: bump_def unat_sat_bump add.assoc)
qed

theorem framer_conserves_bytes_witness:
  "\<exists>gaps tail. length gaps = 1
      \<and> ([0x55, 0xFE, 0, 7, 1, 1, 0, 3, 4, 0xFD] :: bytes)
          = concat (map2 (\<lambda>g f. g @ snd f) gaps
              [(\<lparr>hdr_version = Version_V1, hdr_source = node_new 1 1, hdr_msgid = 0, hdr_seq = 7,
                hdr_payload_len = 0, hdr_target_system = None, hdr_target_component = None\<rparr>,
                [0xFE, 0, 7, 1, 1, 0, 3, 4])]) @ tail @ [0xFD]
      \<and> unat (1 :: u64) = min (0 + length (concat gaps) + length tail) (2 ^ 64 - 1)"
proof -
  let ?h = "\<lparr>hdr_version = Version_V1, hdr_source = node_new 1 1, hdr_msgid = 0, hdr_seq = 7,
      hdr_payload_len = 0, hdr_target_system = None, hdr_target_component = None\<rparr>"
  from framer_conserves_bytes [OF _ drain_noisy_heartbeat] show ?thesis by (simp add: framer_new_def framer_extend_def)
qed

section \<open>Emitted frames\<close>

lemma scan_all_Accept_whole:
  "classify tbl f = Accept h (length f) \<Longrightarrow> scan_all tbl f = ([(h, f)], 0, 0, [])"
  by (subst scan_all.simps) (simp add: scan_all.simps [of tbl "[]"])

text \<open>
  Every frame handed to the router is a complete, valid frame on its own: a framer of a
  downstream router, starting empty, reads exactly this frame back from its bytes, with the
  same header, and neither skips a byte nor keeps one.
\<close>

theorem emitted_frame_reparses:
  assumes "length (fr_buf fr) < 2 ^ 64" and "drain_frames tbl fr = Some (fs, fr')" and "(h, f) \<in> set fs"
  shows "drain_frames tbl (framer_extend framer_new f) = Some ([(h, f)], framer_new)
    \<and> 8 \<le> length f \<and> length f \<le> 280"
proof -
  obtain fs' s k r where sc: "scan_all tbl (fr_buf fr) = (fs', s, k, r)"
    by (cases "scan_all tbl (fr_buf fr)")
  with assms drain_frames_scan_all [of fr tbl] have "fs' = fs" by auto
  with scan_all_valid [OF sc] assms(3) have ok: "classify tbl f = Accept h (length f)" by simp
  then have "8 \<le> length f" "length f \<le> 280"
    by (auto simp: classify_def split: if_splits option.splits dest!: wire_len_bounds)
  moreover from this scan_all_Accept_whole [OF ok] drain_frames_scan_all [of "framer_extend framer_new f" tbl]
  have "drain_frames tbl (framer_extend framer_new f) = Some ([(h, f)], framer_new)"
    by (simp add: framer_new_def framer_extend_def bump_def)
  ultimately show ?thesis by simp
qed

theorem emitted_frame_reparses_witness:
  "drain_frames [] (framer_extend framer_new [0xFE, 0, 7, 1, 1, 0, 3, 4]) =
     Some ([(\<lparr>hdr_version = Version_V1, hdr_source = node_new 1 1, hdr_msgid = 0, hdr_seq = 7,
        hdr_payload_len = 0, hdr_target_system = None, hdr_target_component = None\<rparr>,
        [0xFE, 0, 7, 1, 1, 0, 3, 4])], framer_new)"
proof -
  let ?h = "\<lparr>hdr_version = Version_V1, hdr_source = node_new 1 1, hdr_msgid = 0, hdr_seq = 7,
      hdr_payload_len = 0, hdr_target_system = None, hdr_target_component = None\<rparr>"
  from emitted_frame_reparses [OF _ drain_noisy_heartbeat, of ?h] show ?thesis by (simp add: framer_new_def framer_extend_def)
qed

section \<open>Encoding\<close>

text \<open>
  The wire format of a MAVLink frame, as a sender builds it (the helpers \<^verbatim>\<open>build_v1\<close> and
  \<^verbatim>\<open>build_v2\<close> of the unit tests, with the sequence number and the source left open).
\<close>

record wire_frame =
  wf_version :: version
  wf_compat :: u8
  wf_seq :: u8
  wf_source :: node_id
  wf_msgid :: u32
  wf_payload :: bytes
  wf_signature :: "bytes option"

definition wf_ok :: "wire_frame \<Rightarrow> bool" where
  "wf_ok w = (length (wf_payload w) \<le> 255 \<and>
     (case wf_version w of
        Version_V1 \<Rightarrow> wf_msgid w < 256 \<and> wf_signature w = None
      | Version_V2 \<Rightarrow> wf_msgid w < 2 ^ 24 \<and> (case wf_signature w of None \<Rightarrow> True | Some sg \<Rightarrow> length sg = 13)))"

definition wf_body :: "wire_frame \<Rightarrow> bytes" where
  "wf_body w =
     (let len = of_nat (length (wf_payload w)); src = wf_source w; m = wf_msgid w
      in case wf_version w of
        Version_V1 \<Rightarrow> [len, wf_seq w, node_sys src, node_comp src, ucast m] @ wf_payload w
      | Version_V2 \<Rightarrow>
          [len, if wf_signature w = None then 0 else 1, wf_compat w, wf_seq w, node_sys src, node_comp src,
           ucast m, ucast (drop_bit 8 m), ucast (drop_bit 16 m)] @ wf_payload w)"

definition encode_frame :: "u8 \<Rightarrow> wire_frame \<Rightarrow> bytes" where
  "encode_frame extra w =
     (let crc = crc_finalize (crc_update_slice crc_new (wf_body w @ [extra]))
      in (case wf_version w of Version_V1 \<Rightarrow> STX_V1 | Version_V2 \<Rightarrow> STX_V2) # wf_body w
         @ [ucast crc, ucast (drop_bit 8 crc)]
         @ (case wf_signature w of None \<Rightarrow> [] | Some sg \<Rightarrow> sg))"

definition payload_at :: "bytes \<Rightarrow> u8 option \<Rightarrow> u8 option" where
  "payload_at p off = (case off of None \<Rightarrow> None | Some k \<Rightarrow> if unat k < length p then Some (p ! unat k) else None)"

definition header_of :: "msg_table \<Rightarrow> wire_frame \<Rightarrow> parsed_header" where
  "header_of tbl w =
     (let e = msg_lookup tbl (wf_msgid w)
      in \<lparr>hdr_version = wf_version w, hdr_source = wf_source w, hdr_msgid = wf_msgid w, hdr_seq = wf_seq w,
          hdr_payload_len = of_nat (length (wf_payload w)),
          hdr_target_system = Option.bind e (\<lambda>e. payload_at (wf_payload w) (target_sys_offset e)),
          hdr_target_component = Option.bind e (\<lambda>e. payload_at (wf_payload w) (target_comp_offset e))\<rparr>)"

text \<open>The checksum seed a sender uses: the table's for a known message, any for another.\<close>

definition seed_ok :: "msg_table \<Rightarrow> u8 \<Rightarrow> wire_frame \<Rightarrow> bool" where
  "seed_ok tbl extra w = (case msg_lookup tbl (wf_msgid w) of None \<Rightarrow> True | Some e \<Rightarrow> crc_extra e = extra)"

lemma unat_ucast_u8: "unat (ucast x :: u8) = unat x mod 256"
  by (simp add: unsigned_ucast_eq take_bit_eq_mod)

lemma unat_ucast_u16: "unat (ucast (x :: u8) :: u16) = unat x"
  using unat_u8_less [of x] by (simp add: unsigned_ucast_eq take_bit_eq_mod)

lemma unat_ucast_u32: "unat (ucast (x :: u8) :: u32) = unat x"
  using unat_u8_less [of x] by (simp add: unsigned_ucast_eq take_bit_eq_mod)

lemma u16_split: "ucast (ucast x :: u8) + 256 * ucast (ucast (drop_bit 8 x) :: u8) = (x :: u16)"
proof -
  have "unat x < 2 ^ LENGTH(16)" by (rule unsigned_less)
  then show ?thesis
    by (simp add: word_unat_eq_iff unat_word_ariths unat_drop_bit_eq drop_bit_eq_div
        unat_ucast_u8 unat_ucast_u16)
qed

lemma nat_split3:
  assumes "n < 16777216"
  shows "n mod 256 + (256 * (n div 256 mod 256) + 65536 * (n div 65536 mod 256)) = (n :: nat)"
proof -
  define q where "q = n div 256"
  define p where "p = q div 256"
  have p: "n div 65536 = p" unfolding p_def q_def by (simp add: div_mult2_eq [symmetric])
  have "p < 256" using assms unfolding p [symmetric] by (simp add: less_mult_imp_div_less)
  moreover have "q = 256 * p + q mod 256" unfolding p_def by simp
  moreover have "n = 256 * q + n mod 256" unfolding q_def by simp
  ultimately show ?thesis unfolding p q_def [symmetric] by simp
qed

lemma u32_split:
  assumes "x < 2 ^ 24"
  shows "ucast (ucast x :: u8) + 256 * ucast (ucast (drop_bit 8 x) :: u8)
     + 65536 * ucast (ucast (drop_bit 16 x) :: u8) = (x :: u32)"
proof -
  let ?n = "unat x mod 256 + (256 * (unat x div 256 mod 256) + 65536 * (unat x div 65536 mod 256))"
  have "?n = unat x" using assms by (intro nat_split3) (simp add: word_less_nat_alt)
  then have "of_nat ?n = x" by (simp only:) simp
  moreover have "ucast (ucast y :: u8) = (of_nat (unat y mod 256) :: u32)" for y :: u32
    by (simp add: word_unat_eq_iff unat_ucast_u32 unat_ucast_u8 unat_of_nat)
  ultimately show ?thesis by (simp add: unat_drop_bit_eq drop_bit_eq_div unat_div add.assoc)
qed

lemma unat_len_u8: "n \<le> 255 \<Longrightarrow> unat (of_nat n :: u8) = n"
  by (simp add: unat_of_nat)

lemma wf_body_len:
  "length (wf_body w) = (case wf_version w of Version_V1 \<Rightarrow> 5 | Version_V2 \<Rightarrow> 9) + length (wf_payload w)"
  by (simp add: wf_body_def Let_def split: version.splits)

lemma encode_frame_start: "wire_start (encode_frame extra w) = (case wf_version w of Version_V1 \<Rightarrow> 6 | Version_V2 \<Rightarrow> 10)"
  by (simp add: wire_start_def encode_frame_def Let_def frame_consts split: version.splits)

lemma encode_frame_length:
  "wf_ok w \<Longrightarrow> wire_len (encode_frame extra w) = Some (length (encode_frame extra w))"
  by (auto simp: wire_len_def encode_frame_def wf_body_def Let_def frame_consts wf_ok_def unat_len_u8
      split: version.splits option.splits)

lemma encode_frame_payload:
  "drop (wire_start (encode_frame extra w)) (encode_frame extra w) =
     wf_payload w @ (let crc = crc_finalize (crc_update_slice crc_new (wf_body w @ [extra])) in [ucast crc, ucast (drop_bit 8 crc)])
     @ (case wf_signature w of None \<Rightarrow> [] | Some sg \<Rightarrow> sg)"
  by (cases "wf_version w") (simp_all add: encode_frame_start, simp_all add: encode_frame_def wf_body_def Let_def)

lemma encode_frame_plen: "encode_frame extra w ! 1 = of_nat (length (wf_payload w))"
  by (simp add: encode_frame_def wf_body_def Let_def split: version.splits)

lemma encode_frame_nth:
  "encode_frame extra w ! (wire_start (encode_frame extra w) + k) =
     (wf_payload w @ (let crc = crc_finalize (crc_update_slice crc_new (wf_body w @ [extra])) in [ucast crc, ucast (drop_bit 8 crc)])
     @ (case wf_signature w of None \<Rightarrow> [] | Some sg \<Rightarrow> sg)) ! k"
proof -
  have "wire_start (encode_frame extra w) \<le> length (encode_frame extra w)"
    by (auto simp: encode_frame_start) (auto simp: encode_frame_def wf_body_len Let_def split: version.splits)
  then show ?thesis using encode_frame_payload [of extra w] nth_drop by metis
qed

lemma encode_frame_msgid: "wf_ok w \<Longrightarrow> wire_msgid (encode_frame extra w) = wf_msgid w"
proof (cases "wf_version w")
  case Version_V1
  moreover assume "wf_ok w"
  ultimately have "unat (wf_msgid w) < 256" by (simp add: wf_ok_def word_less_nat_alt)
  then have "ucast (ucast (wf_msgid w) :: u8) = wf_msgid w"
    by (simp add: word_unat_eq_iff unat_ucast_u8 unat_ucast_u32)
  with Version_V1 show ?thesis
    by (simp add: wire_msgid_def encode_frame_def wf_body_def Let_def frame_consts)
next
  case Version_V2
  moreover assume "wf_ok w"
  ultimately show ?thesis using u32_split [of "wf_msgid w"]
    by (simp add: wire_msgid_def encode_frame_def wf_body_def Let_def frame_consts wf_ok_def)
qed

lemma encode_frame_target:
  "wf_ok w \<Longrightarrow> wire_target (encode_frame extra w) off = payload_at (wf_payload w) off"
  unfolding wire_target_def payload_at_def encode_frame_plen encode_frame_nth
  by (auto simp: wf_ok_def unat_len_u8 nth_append split: option.splits)

lemma encode_frame_header: "wf_ok w \<Longrightarrow> wire_header tbl (encode_frame extra w) = header_of tbl w"
  by (simp add: wire_header_def header_of_def encode_frame_msgid encode_frame_target Let_def)
    (auto simp: encode_frame_def wf_body_def Let_def frame_consts node_new_def split: version.splits)

lemma encode_frame_crc:
  assumes "wf_ok w" and "seed_ok tbl extra w"
  shows "wire_crc_ok tbl (encode_frame extra w)"
proof -
  let ?e = "encode_frame extra w"
  have len: "unat (?e ! 1) = length (wf_payload w)"
    using assms(1) unfolding encode_frame_plen by (simp add: wf_ok_def unat_len_u8)
  have body: "take (wire_start ?e + length (wf_payload w) - 1) (drop 1 ?e) = wf_body w"
    using wf_body_len [of w] by (auto simp: encode_frame_start) (auto simp: encode_frame_def Let_def split: version.splits)
  have "?e ! (wire_start ?e + (length (wf_payload w) + 0)) = ucast (crc_finalize (crc_update_slice crc_new (wf_body w @ [extra])))"
    "?e ! (wire_start ?e + (length (wf_payload w) + 1)) = ucast (drop_bit 8 (crc_finalize (crc_update_slice crc_new (wf_body w @ [extra]))))"
    unfolding encode_frame_nth by (simp_all add: nth_append Let_def)
  with body len assms encode_frame_msgid [OF assms(1)] show ?thesis
    by (auto simp: wire_crc_ok_def seed_ok_def u16_split Let_def add.assoc split: option.splits)
qed

lemma classify_encode:
  assumes "wf_ok w" and "seed_ok tbl extra w"
  shows "classify tbl (encode_frame extra w @ c) = Accept (header_of tbl w) (length (encode_frame extra w))"
proof -
  let ?e = "encode_frame extra w"
  have "classify tbl ?e = Accept (header_of tbl w) (length ?e)"
    using encode_frame_length [OF assms(1), of extra] encode_frame_crc [OF assms] encode_frame_header [OF assms(1)]
      encode_frame_start [of extra w] wire_len_room [of ?e "length ?e"]
    by (auto simp: classify_def) (auto simp: encode_frame_def frame_consts Let_def split: version.splits)
  then show ?thesis using classify_append [of tbl ?e c] by simp
qed

definition noise :: "bytes \<Rightarrow> bool" where
  "noise g = (\<forall>b \<in> set g. stx_from_byte b = None)"

lemma scan_all_noise:
  "noise g \<Longrightarrow> scan_all tbl (g @ b) = (let (fs, s, k, r) = scan_all tbl b in (fs, length g + s, k, r))"
proof (induction g)
  case Nil
  show ?case by (simp add: case_prod_unfold)
next
  case (Cons x g)
  then have "classify tbl (x # g @ b) = Garbage"
    by (auto simp: noise_def classify_def stx_from_byte_None)
  with Cons show ?case by (subst scan_all.simps) (simp add: noise_def split: prod.splits)
qed

lemma scan_all_encode:
  assumes "wf_ok w" and "seed_ok tbl extra w"
  shows "scan_all tbl (encode_frame extra w @ b) =
    (let (fs, s, k, r) = scan_all tbl b in ((header_of tbl w, encode_frame extra w) # fs, s, k, r))"
  by (subst scan_all.simps) (simp add: classify_encode [OF assms] split: prod.splits)

lemma scan_all_stream:
  "\<forall>(g, x, w) \<in> set ps. noise g \<and> wf_ok w \<and> seed_ok tbl x w \<Longrightarrow> noise tail \<Longrightarrow>
   scan_all tbl (concat (map (\<lambda>(g, x, w). g @ encode_frame x w) ps) @ tail) =
     (map (\<lambda>(g, x, w). (header_of tbl w, encode_frame x w)) ps, length (concat (map fst ps)) + length tail, 0, [])"
proof (induction ps)
  case Nil
  then show ?case using scan_all_noise [of tail tbl "[]"] by (simp add: scan_all.simps [of tbl "[]"])
next
  case (Cons p ps)
  obtain g x w where p: "p = (g, x, w)" by (cases p)
  with Cons.prems have "noise g" "wf_ok w" "seed_ok tbl x w" by auto
  with Cons p show ?case by (simp add: scan_all_noise scan_all_encode)
qed

text \<open>
  C5. Encode and decode: a stream of well-formed frames, encoded with the checksum seed of
  their message, with any bytes that are not a start marker before, between and after them,
  is read back as exactly these frames in order, with the header fields and the target bytes
  the sender put in, and with the noise counted in the resync counter.
\<close>

theorem framer_reads_back_encoded_stream:
  assumes "\<forall>(g, x, w) \<in> set ps. noise g \<and> wf_ok w \<and> seed_ok tbl x w" and "noise tail"
    and "length (concat (map (\<lambda>(g, x, w). g @ encode_frame x w) ps) @ tail) < 2 ^ 64"
  shows "drain_frames tbl
      (framer_extend framer_new (concat (map (\<lambda>(g, x, w). g @ encode_frame x w) ps) @ tail)) =
    Some (map (\<lambda>(g, x, w). (header_of tbl w, encode_frame x w)) ps,
      framer_new\<lparr>fr_resync_bytes := of_nat (length (concat (map fst ps)) + length tail)\<rparr>)"
proof -
  have "length (concat (map fst ps)) \<le> length (concat (map (\<lambda>(g, x, w). g @ encode_frame x w) ps))"
    by (induction ps) auto
  with assms(3) have "length (concat (map fst ps)) + length tail \<le> 2 ^ 64 - 1" by simp
  moreover have "fr_buf framer_new = []" by (simp add: framer_new_def)
  ultimately show ?thesis
    using assms(3) drain_frames_scan_all [of "framer_extend framer_new (concat (map (\<lambda>(g, x, w). g @ encode_frame x w) ps) @ tail)" tbl]
      scan_all_stream [OF assms(1,2)]
    by (simp add: bump_extend) (simp add: bump_def framer_new_def sat_bump_def min_def)
qed

theorem framer_reads_back_encoded_stream_witness:
  "drain_frames [(0, \<lparr>crc_extra = 50, target_sys_offset = None, target_comp_offset = None\<rparr>)]
     (framer_extend framer_new (concat (map (\<lambda>(g, x, w). g @ encode_frame x w)
       [([0x55], 50, \<lparr>wf_version = Version_V2, wf_compat = 0, wf_seq = 3, wf_source = node_new 1 1,
         wf_msgid = 0, wf_payload = [9, 8], wf_signature = None\<rparr>)]) @ [7])) \<noteq> None"
  using framer_reads_back_encoded_stream
    [of "[([0x55], 50, \<lparr>wf_version = Version_V2, wf_compat = 0, wf_seq = 3, wf_source = node_new 1 1,
          wf_msgid = 0, wf_payload = [9, 8], wf_signature = None\<rparr>)]"
        "[(0, \<lparr>crc_extra = 50, target_sys_offset = None, target_comp_offset = None\<rparr>)]" "[7]"]
  by (simp add: noise_def stx_from_byte_def frame_consts wf_ok_def seed_ok_def encode_frame_def wf_body_def
      Let_def msg_lookup_def binary_search_by_key_def bsearch_base.simps)

end
