(* ===== verification/Seq_Tracker.thy ===== *)
theory Seq_Tracker
  imports Lru Mav_Frame
begin

text \<open>
  The loss estimator of a reader, \<^verbatim>\<open>src/endpoint/seq_tracker.rs\<close>: the last sequence number
  of each source, and the number of frames inferred lost from a gap.
\<close>

section \<open>The tracker\<close>

definition DEFAULT_SEQ_GAP_THRESHOLD :: u8 where
  "DEFAULT_SEQ_GAP_THRESHOLD = 64"

record seq_entry =
  se_node :: node_id
  se_last_seq :: u8
  se_last_seen :: instant

record seq_tracker =
  st_entries :: "seq_entry list"
  st_capacity :: nat
  st_threshold :: u8

definition seq_new :: "nat \<Rightarrow> seq_tracker" where
  "seq_new capacity =
     \<lparr>st_entries = [], st_capacity = max capacity 1, st_threshold = DEFAULT_SEQ_GAP_THRESHOLD\<rparr>"

definition seq_evict_oldest :: "seq_tracker \<Rightarrow> seq_tracker" where
  "seq_evict_oldest t =
     (case min_index se_last_seen (st_entries t) of
        None \<Rightarrow> t
      | Some index \<Rightarrow> t\<lparr>st_entries := swap_remove index (st_entries t)\<rparr>)"

definition seq_observe :: "node_id \<Rightarrow> u8 \<Rightarrow> instant \<Rightarrow> seq_tracker \<Rightarrow> seq_tracker \<times> u32" where
  "seq_observe node sq now t =
     (case find (\<lambda>entry. se_node entry = node) (st_entries t) of
        Some entry \<Rightarrow>
          let gap = sq - se_last_seq entry - 1
          in (t\<lparr>st_entries := update_first (\<lambda>entry. se_node entry = node)
                 (\<lambda>entry. entry\<lparr>se_last_seq := sq, se_last_seen := now\<rparr>) (st_entries t)\<rparr>,
              if gap > 0 \<and> gap < st_threshold t then ucast gap else 0)
      | None \<Rightarrow>
          let t' = (if st_capacity t \<le> length (st_entries t) then seq_evict_oldest t else t)
          in (t'\<lparr>st_entries := st_entries t' @ [\<lparr>se_node = node, se_last_seq = sq, se_last_seen = now\<rparr>]\<rparr>, 0))"

section \<open>The tracker is an LRU table\<close>

definition seq_seen :: "seq_tracker \<Rightarrow> (node_id \<times> instant) list" where
  "seq_seen t = map (\<lambda>entry. (se_node entry, se_last_seen entry)) (st_entries t)"

lemma seq_keys_seen: "map fst (seq_seen t) = map se_node (st_entries t)"
  by (simp add: seq_seen_def o_def)

lemma seq_find_None: "find (\<lambda>entry. se_node entry = node) (st_entries t) = None \<longleftrightarrow> node \<notin> fst ` set (seq_seen t)"
  by (auto simp: find_None_key seq_seen_def image_iff)

lemma seq_evict_simps [simp]:
  "st_capacity (seq_evict_oldest t) = st_capacity t" "st_threshold (seq_evict_oldest t) = st_threshold t"
  by (simp_all add: seq_evict_oldest_def split: option.split)

interpretation seq_lru: lru_table seq_seen st_capacity "\<lambda>node sq now t. fst (seq_observe node sq now t)"
proof unfold_locales
  fix node :: node_id and sq :: u8 and now s :: instant and t :: seq_tracker
  show "st_capacity (fst (seq_observe node sq now t)) = st_capacity t"
    by (simp add: seq_observe_def Let_def split: option.split)
  show "mset (seq_seen (fst (seq_observe node sq now t))) = add_mset (node, now) (mset (seq_seen t) - {#(node, s)#})"
    if "distinct (map fst (seq_seen t))" "(node, s) \<in> set (seq_seen t)"
  proof -
    from that(2) obtain e where e: "e \<in> set (st_entries t)" "se_node e = node" "se_last_seen e = s"
      by (auto simp: seq_seen_def)
    with that(2) have "find (\<lambda>entry. se_node entry = node) (st_entries t) \<noteq> None"
      using seq_find_None [of node t] by force
    moreover from that(1) have "distinct (map se_node (st_entries t))" by (simp add: seq_keys_seen)
    note refresh_mset [OF this e(1,2), of "\<lambda>entry. (se_node entry, se_last_seen entry)"
        "\<lambda>entry. entry\<lparr>se_last_seq := sq, se_last_seen := now\<rparr>"]
    ultimately show ?thesis using e by (auto simp: seq_observe_def seq_seen_def Let_def)
  qed
  assume new: "node \<notin> fst ` set (seq_seen t)"
  then have none: "find (\<lambda>entry. se_node entry = node) (st_entries t) = None" by (simp add: seq_find_None)
  show "mset (seq_seen (fst (seq_observe node sq now t))) = add_mset (node, now) (mset (seq_seen t))"
    if "length (seq_seen t) < st_capacity t"
    using that none by (simp add: seq_observe_def seq_seen_def)
  show "\<exists>p \<in> set (seq_seen t). (\<forall>q \<in> set (seq_seen t). snd p \<le> snd q)
      \<and> mset (seq_seen (fst (seq_observe node sq now t))) = add_mset (node, now) (mset (seq_seen t) - {#p#})"
    if full: "st_capacity t \<le> length (seq_seen t)" and ne: "seq_seen t \<noteq> []"
  proof -
    from ne obtain i where i: "min_index se_last_seen (st_entries t) = Some i"
      by (cases "min_index se_last_seen (st_entries t)") (auto simp: seq_seen_def)
    from drop_oldest_mset [OF i, of se_node] full none i show ?thesis
      by (auto simp: seq_observe_def seq_evict_oldest_def seq_seen_def Let_def)
  qed
qed

abbreviation seq_ok :: "seq_tracker \<Rightarrow> bool" where
  "seq_ok \<equiv> lru_ok seq_seen st_capacity"

lemma seq_new_ok [simp]: "seq_ok (seq_new c)"
  by (simp add: lru_ok_def seq_new_def seq_seen_def)

lemma seq_observe_ok [intro]: "seq_ok t \<Longrightarrow> seq_ok (fst (seq_observe node sq now t))"
  using seq_lru.touch_ok by simp

section \<open>Loss estimates\<close>

text \<open>The estimates of a reader over the frames it receives, each with its source.\<close>

fun seq_run :: "(node_id \<times> u8 \<times> instant) list \<Rightarrow> seq_tracker \<Rightarrow> (node_id \<times> nat) list" where
  "seq_run [] t = []"
| "seq_run ((node, sq, now) # evs) t =
     (let (t', lost) = seq_observe node sq now t in (node, unat lost) # seq_run evs t')"

text \<open>The abstract tracker: a map from sources to their last sequence number.\<close>

definition gap_lost :: "u8 \<Rightarrow> u8 option \<Rightarrow> u8 \<Rightarrow> nat" where
  "gap_lost thr prev sq =
     (case prev of None \<Rightarrow> 0 | Some s \<Rightarrow> let gap = sq - s - 1 in if gap > 0 \<and> gap < thr then unat gap else 0)"

fun map_run :: "u8 \<Rightarrow> (node_id \<times> u8 \<times> instant) list \<Rightarrow> (node_id \<rightharpoonup> u8) \<Rightarrow> (node_id \<times> nat) list" where
  "map_run thr [] prev_of = []"
| "map_run thr ((node, sq, now) # evs) prev_of =
     (node, gap_lost thr (prev_of node) sq) # map_run thr evs (prev_of(node \<mapsto> sq))"

definition last_seq_of :: "seq_tracker \<Rightarrow> node_id \<rightharpoonup> u8" where
  "last_seq_of t node = map_option se_last_seq (find (\<lambda>entry. se_node entry = node) (st_entries t))"

lemma find_update_first:
  "(\<And>e. k (f e) = k e) \<Longrightarrow> find (\<lambda>e. k e = n) (update_first (\<lambda>e. k e = a) f xs) =
     (if n = a then map_option f (find (\<lambda>e. k e = n) xs) else find (\<lambda>e. k e = n) xs)"
  by (induction xs) auto

lemma find_append: "find P (xs @ ys) = (case find P xs of None \<Rightarrow> find P ys | Some x \<Rightarrow> Some x)"
  by (induction xs) auto

lemma seq_observe_last:
  assumes "length (st_entries t) < st_capacity t \<or> node \<in> fst ` set (seq_seen t)"
  shows "last_seq_of (fst (seq_observe node sq now t)) = (last_seq_of t)(node \<mapsto> sq)"
proof (cases "find (\<lambda>entry. se_node entry = node) (st_entries t)")
  case None
  with assms seq_find_None [of node t] show ?thesis
    by (auto simp: seq_observe_def last_seq_of_def find_append fun_eq_iff split: option.split)
next
  case (Some e)
  then show ?thesis
    by (auto simp: seq_observe_def last_seq_of_def Let_def find_update_first fun_eq_iff)
qed

lemma unat_ucast_u8_u32: "unat (ucast (g :: u8) :: u32) = unat g"
  using unat_u8_less [of g] by (simp add: unsigned_ucast_eq take_bit_eq_mod)

lemma seq_observe_lost: "unat (snd (seq_observe node sq now t)) = gap_lost (st_threshold t) (last_seq_of t node) sq"
  by (simp add: seq_observe_def gap_lost_def last_seq_of_def Let_def unat_ucast_u8_u32 split: option.split)

lemma seq_observe_threshold: "st_threshold (fst (seq_observe node sq now t)) = st_threshold t"
  by (simp add: seq_observe_def Let_def split: option.split)

lemma seq_run_map_run:
  "seq_ok t \<Longrightarrow> card (fst ` set (seq_seen t) \<union> fst ` set evs) \<le> st_capacity t \<Longrightarrow>
   seq_run evs t = map_run (st_threshold t) evs (last_seq_of t)"
proof (induction evs arbitrary: t)
  case Nil
  show ?case by simp
next
  case (Cons ev evs)
  obtain node sq now where ev: "ev = (node, sq, now)" by (cases ev)
  let ?K = "fst ` set (seq_seen t)"
  let ?t = "fst (seq_observe node sq now t)"
  have dist: "distinct (map fst (seq_seen t))" using Cons.prems(1) by (simp add: lru_ok_def)
  then have len: "card ?K = length (seq_seen t)" by (metis distinct_card length_map set_map)
  have room: "length (seq_seen t) < st_capacity t \<or> node \<in> ?K"
  proof (cases "node \<in> ?K")
    case False
    then have "Suc (card ?K) = card (insert node ?K)" by simp
    also have "\<dots> \<le> card (?K \<union> fst ` set (ev # evs))" by (intro card_mono) (auto simp: ev)
    finally show ?thesis using Cons.prems(2) len by linarith
  qed simp
  have "fst ` set (seq_seen ?t) = insert node ?K"
    using seq_lru.touch_keys_room [OF Cons.prems(1) room] by simp
  moreover have "st_capacity ?t = st_capacity t" using seq_lru.touch_cap by simp
  ultimately have "seq_run evs ?t = map_run (st_threshold ?t) evs (last_seq_of ?t)"
    using Cons.prems by (intro Cons.IH) (auto simp: ev)
  moreover have "last_seq_of ?t = (last_seq_of t)(node \<mapsto> sq)"
    using room by (intro seq_observe_last) (simp add: seq_seen_def)
  ultimately show ?case
    using seq_observe_lost [of node sq now t] seq_observe_threshold [of node sq now t]
    by (simp add: ev case_prod_unfold Let_def)
qed

text \<open>The sequence numbers received when the given numbers of frames are lost in between.\<close>

fun seqs_after :: "u8 \<Rightarrow> nat list \<Rightarrow> u8 list" where
  "seqs_after s [] = []"
| "seqs_after s (l # ls) = (s + of_nat l + 1) # seqs_after (s + of_nat l + 1) ls"

lemma gap_lost_exact: "l < 64 \<Longrightarrow> gap_lost 64 (Some s) (s + of_nat l + 1) = l"
  by (auto simp: gap_lost_def Let_def word_less_nat_alt unat_of_nat)

lemma map_run_source:
  "map (\<lambda>ev. fst (snd ev)) (filter (\<lambda>ev. fst ev = n) evs) = seqs_after s losses \<Longrightarrow> prev_of n = Some s \<Longrightarrow>
   \<forall>l \<in> set losses. l < 64 \<Longrightarrow>
   sum_list (map snd (filter (\<lambda>r. fst r = n) (map_run 64 evs prev_of))) = sum_list losses"
proof (induction evs arbitrary: prev_of s losses)
  case Nil
  then show ?case by (cases losses) auto
next
  case (Cons ev evs)
  obtain node sq now where ev: "ev = (node, sq, now)" by (cases ev)
  show ?case
  proof (cases "node = n")
    case False
    with Cons ev show ?thesis by simp
  next
    case True
    with Cons.prems ev obtain d ds where losses: "losses = d # ds" "d < 64" "\<forall>l \<in> set ds. l < 64"
      "sq = s + of_nat d + 1" "map (\<lambda>ev. fst (snd ev)) (filter (\<lambda>ev. fst ev = n) evs) = seqs_after sq ds"
      by (cases losses) auto
    have "sum_list (map snd (filter (\<lambda>r. fst r = n) (map_run 64 evs (prev_of(n \<mapsto> sq))))) = sum_list ds"
      by (rule Cons.IH [OF losses(5) _ losses(3)]) simp
    with True ev losses Cons.prems(2) gap_lost_exact [of d s] show ?thesis by simp
  qed
qed

lemma map_run_first:
  "map (\<lambda>ev. fst (snd ev)) (filter (\<lambda>ev. fst ev = n) evs) = s # seqs_after s losses \<Longrightarrow> prev_of n = None \<Longrightarrow>
   \<forall>l \<in> set losses. l < 64 \<Longrightarrow>
   sum_list (map snd (filter (\<lambda>r. fst r = n) (map_run 64 evs prev_of))) = sum_list losses"
proof (induction evs arbitrary: prev_of)
  case (Cons ev evs)
  obtain node sq now where ev: "ev = (node, sq, now)" by (cases ev)
  show ?case
  proof (cases "node = n")
    case False
    with Cons ev show ?thesis by simp
  next
    case True
    with Cons.prems ev map_run_source [of n evs sq losses "prev_of(n \<mapsto> sq)"] show ?thesis
      by (simp add: gap_lost_def)
  qed
qed simp

text \<open>
  C23. The loss estimate is exact on a link where a source never loses 64 or more frames in a
  row: whatever frames of other sources are interleaved, as long as there are no more sources
  than the tracker has room for, the estimates credited to the source add up to the number
  of frames it lost, across the wrap-around of the 8-bit sequence number.
\<close>

theorem seq_loss_estimate_exact:
  assumes "card (fst ` set evs) \<le> max capacity 1"
    and "map (\<lambda>ev. fst (snd ev)) (filter (\<lambda>ev. fst ev = n) evs) = s # seqs_after s losses"
    and "\<forall>l \<in> set losses. l < 64"
  shows "sum_list (map snd (filter (\<lambda>r. fst r = n) (seq_run evs (seq_new capacity)))) = sum_list losses"
proof -
  have "seq_run evs (seq_new capacity) = map_run 64 evs (last_seq_of (seq_new capacity))"
    using seq_run_map_run [of "seq_new capacity" evs] assms(1)
    by (simp add: seq_new_def seq_seen_def DEFAULT_SEQ_GAP_THRESHOLD_def lru_ok_def)
  moreover have "last_seq_of (seq_new capacity) n = None" by (simp add: last_seq_of_def seq_new_def)
  ultimately show ?thesis using map_run_first [OF assms(2) _ assms(3)] by simp
qed

theorem seq_loss_estimate_exact_witness:
  "sum_list (map snd (filter (\<lambda>r. fst r = node_new 1 1)
     (seq_run [(node_new 1 1, 250, 1), (node_new 2 1, 9, 2), (node_new 1 1, 3, 3), (node_new 1 1, 4, 4)] (seq_new 2)))) = 8"
  using seq_loss_estimate_exact
    [of "[(node_new 1 1, 250, 1), (node_new 2 1, 9, 2), (node_new 1 1, 3, 3), (node_new 1 1, 4, 4)]" 2
      "node_new 1 1" 250 "[8, 0]"]
  by (simp add: node_new_def card_insert_if del: seq_run.simps)

end
