(* ===== verification/Session.thy ===== *)
theory Session
  imports Framer_Stream Seq_Tracker Router
begin

text \<open>
  The reader and writer loop of a stream connection, \<^verbatim>\<open>src/endpoint/session.rs\<close>, shared by the
  serial, TCP client and TCP server endpoints. The transport enters as the results of its reads
  and writes, the channel to the router as its \<^verbatim>\<open>send\<close>.
\<close>

section \<open>State\<close>

datatype session_outcome = Terminated | Disconnected

record session_ctx =
  sc_endpoint_id :: endpoint_id
  sc_stats :: nat
  sc_filters :: filters

record ('q, 'c) session =
  se_framer :: framer
  se_counters :: framer_counters
  se_tracker :: seq_tracker
  se_chan :: 'c
  se_store :: "'q store"
  se_written :: "bytes list"

definition session_new :: "'c \<Rightarrow> 'q store \<Rightarrow> ('q, 'c) session" where
  "session_new ch st =
     \<lparr>se_framer = framer_new, se_counters = counters_new, se_tracker = seq_new SEQ_TRACKER_CAPACITY,
      se_chan = ch, se_store = st, se_written = []\<rparr>"

definition se_upd :: "session_ctx \<Rightarrow> (endpoint_stats \<Rightarrow> endpoint_stats) \<Rightarrow> ('q, 'c) session \<Rightarrow> ('q, 'c) session" where
  "se_upd ctx f s = s\<lparr>se_store := upd_stats (sc_stats ctx) f (se_store s)\<rparr>"

section \<open>Ingress\<close>

text \<open>The body of the loop for one frame; \<^term>\<open>False\<close> when the router channel is closed.\<close>

definition ingest_frame ::
  "(router_frame \<Rightarrow> 'c \<Rightarrow> 'c \<times> bool) \<Rightarrow> session_ctx \<Rightarrow> instant \<Rightarrow> parsed_header \<times> bytes \<Rightarrow> ('q, 'c) session
   \<Rightarrow> ('q, 'c) session \<times> bool" where
  "ingest_frame send ctx now hf s =
     (let (header, frame) = hf;
          s1 = se_upd ctx (add_rx_frame (length frame)) s;
          (tracker, lost) = seq_observe (hdr_source header) (hdr_seq header) now (se_tracker s1);
          s2 = s1\<lparr>se_tracker := tracker\<rparr>;
          s3 = (if lost > 0 then se_upd ctx (\<lambda>st. st\<lparr>es_rx_lost_est := es_rx_lost_est st + ucast lost\<rparr>) s2 else s2)
      in if \<not> passes_in_filter (sc_filters ctx) (hdr_msgid header) (hdr_source header)
         then (se_upd ctx (\<lambda>st. st\<lparr>es_in_filter_drops := es_in_filter_drops st + 1\<rparr>) s3, True)
         else
           let (ch, ok) = send \<lparr>rf_endpoint_id = sc_endpoint_id ctx, rf_frame = frame, rf_header = header\<rparr> (se_chan s3)
           in (s3\<lparr>se_chan := ch\<rparr>, ok))"

lemma ingest_frame_framer [simp]: "se_framer (fst (ingest_frame send ctx now hf s)) = se_framer s"
  by (simp add: ingest_frame_def se_upd_def case_prod_unfold Let_def)

function forward_inbound_frames ::
  "msg_table \<Rightarrow> (router_frame \<Rightarrow> 'c \<Rightarrow> 'c \<times> bool) \<Rightarrow> session_ctx \<Rightarrow> instant \<Rightarrow> ('q, 'c) session
   \<Rightarrow> (('q, 'c) session \<times> bool) may_panic" where
  "forward_inbound_frames tbl send ctx now s =
     (case try_next_frame tbl (se_framer s) of
        None \<Rightarrow> None
      | Some (fr, None) \<Rightarrow> Some (s\<lparr>se_framer := fr\<rparr>, True)
      | Some (fr, Some hf) \<Rightarrow>
          (case ingest_frame send ctx now hf (s\<lparr>se_framer := fr\<rparr>) of
             (s', False) \<Rightarrow> Some (s', False)
           | (s', True) \<Rightarrow> forward_inbound_frames tbl send ctx now s'))"
  by pat_completeness auto
termination
proof (relation "measure (\<lambda>(tbl, send, ctx, now, s). length (fr_buf (se_framer s)))", goal_cases)
  case (2 tbl send ctx now s x fr y hf s' b)
  then have "fst (ingest_frame send ctx now hf (s\<lparr>se_framer := fr\<rparr>)) = s'" by (metis fst_conv)
  then have "se_framer s' = fr" using ingest_frame_framer [of send ctx now hf "s\<lparr>se_framer := fr\<rparr>"] by simp
  moreover have "try_next_frame tbl (se_framer s) = Some (fr, Some hf)" using 2 by simp
  ultimately show ?case by (simp add: try_next_frame_shorter)
qed simp

declare forward_inbound_frames.simps [simp del]

section \<open>The session\<close>

datatype read_result = Read_Ok bytes | Read_Err

text \<open>
  Control flow of the handlers: \<^verbatim>\<open>Break(outcome)\<close> or \<^verbatim>\<open>Continue\<close>. A read of no bytes is the
  end of the stream. The bytes of a read are already in the accumulator when its result is
  handled.
\<close>

definition handle_read_result ::
  "msg_table \<Rightarrow> (router_frame \<Rightarrow> 'c \<Rightarrow> 'c \<times> bool) \<Rightarrow> session_ctx \<Rightarrow> instant \<Rightarrow> read_result \<Rightarrow> ('q, 'c) session
   \<Rightarrow> (('q, 'c) session \<times> session_outcome option) may_panic" where
  "handle_read_result tbl send ctx now res s =
     (case res of
        Read_Err \<Rightarrow> Some (s, Some Disconnected)
      | Read_Ok data \<Rightarrow>
          if data = [] then Some (s, Some Disconnected)
          else
            (case forward_inbound_frames tbl send ctx now s of
               None \<Rightarrow> None
             | Some (s1, False) \<Rightarrow> Some (s1, Some Terminated)
             | Some (s1, True) \<Rightarrow>
                 let (fc, stats) = counters_sync (se_counters s1) (se_framer s1) (sto_stats (se_store s1) (sc_stats ctx))
                 in Some ((se_upd ctx (\<lambda>_. stats) s1)\<lparr>se_counters := fc\<rparr>, None)))"

definition write_outbound_frame ::
  "session_ctx \<Rightarrow> bool \<Rightarrow> bytes \<Rightarrow> ('q, 'c) session \<Rightarrow> ('q, 'c) session \<times> session_outcome option" where
  "write_outbound_frame ctx write_ok frame s =
     (if \<not> write_ok then (s, Some Disconnected)
      else (se_upd ctx (add_tx_frame (length frame)) (s\<lparr>se_written := se_written s @ [frame]\<rparr>), None))"

text \<open>
  One round of the biased \<^verbatim>\<open>select!\<close>: cancellation, then the read, then the queue. What the
  transport does in the round, and what the router has pushed since the last one, is its input.
\<close>

record session_input =
  sn_cancelled :: bool
  sn_read :: "read_result option"
  sn_write_ok :: bool
  sn_now :: instant
  sn_pushed :: "bytes list"

definition session_round ::
  "msg_table \<Rightarrow> (router_frame \<Rightarrow> 'c \<Rightarrow> 'c \<times> bool) \<Rightarrow> 'q array_queue \<Rightarrow> session_ctx \<Rightarrow> tx_queue \<Rightarrow> session_input \<Rightarrow> ('q, 'c) session
   \<Rightarrow> (('q, 'c) session \<times> session_outcome option) may_panic" where
  "session_round tbl send aq ctx tq i s0 =
     (let s = s0\<lparr>se_store := push_all aq tq (sn_pushed i) (se_store s0)\<rparr>
      in if sn_cancelled i then Some (s, Some Terminated)
      else case sn_read i of
        Some res \<Rightarrow>
          let s1 = (case res of
                      Read_Ok data \<Rightarrow> s\<lparr>se_framer := framer_extend (se_framer s) data\<rparr>
                    | Read_Err \<Rightarrow> s)
          in handle_read_result tbl send ctx (sn_now i) res s1
      | None \<Rightarrow>
          (case poll_pop_or_wait aq tq (se_store s) of
             (st, None) \<Rightarrow> Some (s\<lparr>se_store := st\<rparr>, None)
           | (st, Some frame) \<Rightarrow> Some (write_outbound_frame ctx (sn_write_ok i) frame (s\<lparr>se_store := st\<rparr>))))"

text \<open>\<^term>\<open>None\<close> is a panic; a session still running after the given rounds has no outcome yet.\<close>

fun run_session ::
  "msg_table \<Rightarrow> (router_frame \<Rightarrow> 'c \<Rightarrow> 'c \<times> bool) \<Rightarrow> 'q array_queue \<Rightarrow> session_ctx \<Rightarrow> tx_queue \<Rightarrow> session_input list \<Rightarrow> ('q, 'c) session
   \<Rightarrow> (('q, 'c) session \<times> session_outcome option) may_panic" where
  "run_session tbl send aq ctx tq [] s = Some (s, None)"
| "run_session tbl send aq ctx tq (i # is) s =
     (case session_round tbl send aq ctx tq i s of
        None \<Rightarrow> None
      | Some (s', Some outcome) \<Rightarrow> Some (s', Some outcome)
      | Some (s', None) \<Rightarrow> run_session tbl send aq ctx tq is s')"

section \<open>What a session does with its byte stream\<close>

definition forwarded :: "session_ctx \<Rightarrow> (parsed_header \<times> bytes) list \<Rightarrow> router_frame list" where
  "forwarded ctx fs =
     [\<lparr>rf_endpoint_id = sc_endpoint_id ctx, rf_frame = f, rf_header = h\<rparr>.
        (h, f) \<leftarrow> fs, passes_in_filter (sc_filters ctx) (hdr_msgid h) (hdr_source h)]"

text \<open>The ingress counters after the frames \<^term>\<open>fs\<close>, starting from \<^term>\<open>st0\<close>.\<close>

definition rx_counted :: "session_ctx \<Rightarrow> (parsed_header \<times> bytes) list \<Rightarrow> endpoint_stats \<Rightarrow> endpoint_stats \<Rightarrow> bool" where
  "rx_counted ctx fs st0 st \<longleftrightarrow>
     es_rx_frames st = es_rx_frames st0 + of_nat (length fs)
     \<and> es_rx_bytes st = es_rx_bytes st0 + of_nat (\<Sum>(h, f)\<leftarrow>fs. length f)
     \<and> es_in_filter_drops st = es_in_filter_drops st0 + of_nat (length fs - length (forwarded ctx fs))"

text \<open>A channel whose receiver is alive: a send succeeds and appends.\<close>

definition reliable :: "(router_frame \<Rightarrow> 'c \<Rightarrow> 'c \<times> bool) \<Rightarrow> ('c \<Rightarrow> router_frame list) \<Rightarrow> bool" where
  "reliable send contents \<longleftrightarrow> (\<forall>f c. snd (send f c) \<and> contents (fst (send f c)) = contents c @ [f])"

text \<open>The channel of lifecycle events, by its \<^verbatim>\<open>send\<close>, and one whose receiver is alive.\<close>

type_synonym 'e send_event = "endpoint_event \<Rightarrow> 'e \<Rightarrow> 'e \<times> bool"

definition reliable_events :: "'e send_event \<Rightarrow> ('e \<Rightarrow> endpoint_event list) \<Rightarrow> bool" where
  "reliable_events send_event contents \<longleftrightarrow>
     (\<forall>ev e. snd (send_event ev e) \<and> contents (fst (send_event ev e)) = contents e @ [ev])"

lemma reliable_send:
  assumes "reliable send contents"
  obtains ch where "send f c = (ch, True)" and "contents ch = contents c @ [f]"
  using assms unfolding reliable_def by (metis prod.collapse)

lemma forwarded_Nil [simp]: "forwarded ctx [] = []"
  by (simp add: forwarded_def)

lemma forwarded_append [simp]: "forwarded ctx (fs @ gs) = forwarded ctx fs @ forwarded ctx gs"
  by (simp add: forwarded_def)

lemma forwarded_length: "length (forwarded ctx fs) \<le> length fs"
  by (induction fs) (auto simp: forwarded_def)

lemma rx_counted_append:
  "rx_counted ctx fs st0 st1 \<Longrightarrow> rx_counted ctx gs st1 st2 \<Longrightarrow> rx_counted ctx (fs @ gs) st0 st2"
proof -
  have "length fs + length gs - (length (forwarded ctx fs) + length (forwarded ctx gs)) =
      (length fs - length (forwarded ctx fs)) + (length gs - length (forwarded ctx gs))"
    using forwarded_length [of ctx fs] forwarded_length [of ctx gs] by simp
  then show "rx_counted ctx fs st0 st1 \<Longrightarrow> rx_counted ctx gs st1 st2 \<Longrightarrow> rx_counted ctx (fs @ gs) st0 st2"
    by (simp add: rx_counted_def)
qed

abbreviation se_stats :: "session_ctx \<Rightarrow> ('q, 'c) session \<Rightarrow> endpoint_stats" where
  "se_stats ctx s \<equiv> sto_stats (se_store s) (sc_stats ctx)"

text \<open>What a batch of frames leaves of the session; the framer is looked at separately.\<close>

definition ingested ::
  "('c \<Rightarrow> router_frame list) \<Rightarrow> session_ctx \<Rightarrow> (parsed_header \<times> bytes) list \<Rightarrow> ('q, 'c) session \<Rightarrow> ('q, 'c) session \<Rightarrow> bool" where
  "ingested contents ctx fs s s' \<longleftrightarrow>
     contents (se_chan s') = contents (se_chan s) @ forwarded ctx fs
     \<and> rx_counted ctx fs (se_stats ctx s) (se_stats ctx s')
     \<and> es_resync_bytes (se_stats ctx s') = es_resync_bytes (se_stats ctx s)
     \<and> es_crc_errors (se_stats ctx s') = es_crc_errors (se_stats ctx s)
     \<and> es_tx_frames (se_stats ctx s') = es_tx_frames (se_stats ctx s)
     \<and> es_tx_bytes (se_stats ctx s') = es_tx_bytes (se_stats ctx s)
     \<and> se_counters s' = se_counters s \<and> se_written s' = se_written s"

lemma ingested_append:
  "ingested contents ctx fs s s1 \<Longrightarrow> ingested contents ctx gs s1 s2 \<Longrightarrow> ingested contents ctx (fs @ gs) s s2"
  by (auto simp: ingested_def intro: rx_counted_append)

lemma ingested_Nil: "ingested contents ctx [] s s"
  by (simp add: ingested_def rx_counted_def)

lemma ingested_framer: "ingested contents ctx fs (s\<lparr>se_framer := fr\<rparr>) s' = ingested contents ctx fs s s'"
  by (simp add: ingested_def)

lemma ingest_frame_ingested:
  assumes "reliable send contents"
  shows "snd (ingest_frame send ctx now hf s) \<and> ingested contents ctx [hf] s (fst (ingest_frame send ctx now hf s))"
proof -
  obtain h f where hf: "hf = (h, f)" by (cases hf)
  obtain tr lost where ob: "seq_observe (hdr_source h) (hdr_seq h) now (se_tracker s) = (tr, lost)" by (cases "seq_observe (hdr_source h) (hdr_seq h) now (se_tracker s)")
  obtain ch where ch: "send \<lparr>rf_endpoint_id = sc_endpoint_id ctx, rf_frame = f, rf_header = h\<rparr> (se_chan s) = (ch, True)"
    "contents ch = contents (se_chan s) @ [\<lparr>rf_endpoint_id = sc_endpoint_id ctx, rf_frame = f, rf_header = h\<rparr>]"
    by (rule reliable_send [OF assms])
  show ?thesis
    by (simp add: ingest_frame_def hf ob ch se_upd_def upd_stats_def Let_def ingested_def rx_counted_def
        forwarded_def add_rx_frame_def)
qed

text \<open>With a live channel the loop takes out exactly what draining the framer does.\<close>

lemma forward_drains:
  assumes "reliable send contents"
  shows "drain_frames tbl (se_framer s) = Some (fs, fr) \<Longrightarrow>
    \<exists>s'. forward_inbound_frames tbl send ctx now s = Some (s', True) \<and> se_framer s' = fr \<and> ingested contents ctx fs s s'"
proof (induction "length (fr_buf (se_framer s))" arbitrary: s fs rule: less_induct)
  case less
  show ?case
  proof (cases "try_next_frame tbl (se_framer s)")
    case None
    with less.prems show ?thesis by (simp add: drain_frames.simps)
  next
    case (Some x)
    show ?thesis
    proof (cases x)
      case (Pair fr1 out)
      show ?thesis
      proof (cases out)
        case None
        with Some Pair less.prems have "fs = []" "fr = fr1" by (simp_all add: drain_frames.simps)
        with Some Pair None show ?thesis
          using ingested_Nil [of contents ctx s]
          by (simp add: forward_inbound_frames.simps [of tbl send ctx now s] ingested_def)
      next
        case (Some hf)
        let ?s = "s\<lparr>se_framer := fr1\<rparr>"
        note step = \<open>try_next_frame tbl (se_framer s) = Some x\<close> [unfolded Pair Some]
        from step less.prems obtain gs where gs: "drain_frames tbl fr1 = Some (gs, fr)" "fs = hf # gs"
          by (auto simp: drain_frames.simps [of tbl "se_framer s"])
        obtain s1 where one: "ingest_frame send ctx now hf ?s = (s1, True)" "ingested contents ctx [hf] s s1"
          using ingest_frame_ingested [OF assms, of ctx now hf ?s] by (metis ingested_framer prod.collapse)
        then have "se_framer s1 = fr1" using ingest_frame_framer [of send ctx now hf ?s] by simp
        with less.hyps [of s1 gs] gs try_next_frame_shorter [OF step]
        obtain s' where "forward_inbound_frames tbl send ctx now s1 = Some (s', True)" "se_framer s' = fr"
          "ingested contents ctx gs s1 s'" by auto
        with one step gs ingested_append [OF one(2), of gs s'] show ?thesis
          by (simp add: forward_inbound_frames.simps [of tbl send ctx now s])
      qed
    qed
  qed
qed

fun received :: "session_input list \<Rightarrow> bytes" where
  "received [] = []"
| "received (i # is) = (case sn_read i of Some (Read_Ok data) \<Rightarrow> data @ received is | _ \<Rightarrow> received is)"

text \<open>A round that keeps the session going, and how the other rounds end it.\<close>

definition steady :: "session_input \<Rightarrow> bool" where
  "steady i \<longleftrightarrow> \<not> sn_cancelled i \<and>
     (case sn_read i of None \<Rightarrow> sn_write_ok i | Some (Read_Ok data) \<Rightarrow> data \<noteq> [] | Some Read_Err \<Rightarrow> False)"

definition ends_with :: "session_input \<Rightarrow> session_outcome option" where
  "ends_with i =
     (if sn_cancelled i then Some Terminated
      else if sn_read i = Some Read_Err \<or> sn_read i = Some (Read_Ok []) then Some Disconnected else None)"

text \<open>The state of a session after it has read the bytes \<^term>\<open>d\<close>, from the state \<^term>\<open>s0\<close>.\<close>

definition session_after ::
  "msg_table \<Rightarrow> ('c \<Rightarrow> router_frame list) \<Rightarrow> session_ctx \<Rightarrow> ('q, 'c) session \<Rightarrow> bytes \<Rightarrow> ('q, 'c) session \<Rightarrow> bool" where
  "session_after tbl contents ctx s0 d s \<longleftrightarrow>
     (case scan_all tbl d of (fs, n, k, r) \<Rightarrow>
        se_framer s = bump framer_new n k r
        \<and> se_counters s = \<lparr>fc_last_resync_total = sat_bump 0 n, fc_last_crc_total = sat_bump 0 k\<rparr>
        \<and> contents (se_chan s) = contents (se_chan s0) @ forwarded ctx fs
        \<and> rx_counted ctx fs (se_stats ctx s0) (se_stats ctx s)
        \<and> es_resync_bytes (se_stats ctx s) = es_resync_bytes (se_stats ctx s0) + sat_bump 0 n
        \<and> es_crc_errors (se_stats ctx s) = es_crc_errors (se_stats ctx s0) + sat_bump 0 k
        \<and> es_tx_frames (se_stats ctx s) = es_tx_frames (se_stats ctx s0) + of_nat (length (se_written s))
        \<and> es_tx_bytes (se_stats ctx s) = es_tx_bytes (se_stats ctx s0) + of_nat (length (concat (se_written s))))"

lemma poll_stats [simp]: "sto_stats (fst (poll_pop_or_wait aq tq st)) = sto_stats st"
  by (simp add: poll_pop_or_wait_def tx_pop_def case_prod_unfold Let_def)

lemma session_after_push:
  assumes "session_after tbl contents ctx s0 d s"
  shows "session_after tbl contents ctx s0 d (s\<lparr>se_store := push_all aq tq frames (se_store s)\<rparr>)"
proof -
  obtain x where "sto_stats (push_all aq tq frames (se_store s)) (sc_stats ctx) = (se_stats ctx s)\<lparr>es_dropped_tx := x\<rparr>"
    using push_all_stats by blast
  with assms show ?thesis by (simp add: session_after_def rx_counted_def split: prod.splits)
qed

lemma session_after_write:
  assumes "session_after tbl contents ctx s0 d s'" and "steady i" and "sn_read i = None"
  shows "\<exists>s. session_round tbl send aq ctx tq i s' = Some (s, None) \<and> session_after tbl contents ctx s0 d s"
proof -
  define s where "s = s'\<lparr>se_store := push_all aq tq (sn_pushed i) (se_store s')\<rparr>"
  have inv: "session_after tbl contents ctx s0 d s" unfolding s_def by (rule session_after_push [OF assms(1)])
  obtain st out where p: "poll_pop_or_wait aq tq (se_store s) = (st, out)" by (cases "poll_pop_or_wait aq tq (se_store s)")
  then have "sto_stats st = sto_stats (se_store s)" using poll_stats [of aq tq "se_store s"] by simp
  with assms(2,3) inv p show ?thesis unfolding session_round_def s_def [symmetric] Let_def
    by (cases out) (auto simp: steady_def write_outbound_frame_def session_after_def
        se_upd_def upd_stats_def add_tx_frame_def rx_counted_def split: prod.splits)
qed

lemma session_after_read:
  assumes ok: "reliable send contents" and inv': "session_after tbl contents ctx s0 d s'"
    and i: "steady i" "sn_read i = Some (Read_Ok c)" and len: "length d + length c < 2 ^ 64"
  shows "\<exists>s. session_round tbl send aq ctx tq i s' = Some (s, None) \<and> session_after tbl contents ctx s0 (d @ c) s"
proof -
  define s where "s = s'\<lparr>se_store := push_all aq tq (sn_pushed i) (se_store s')\<rparr>"
  have inv: "session_after tbl contents ctx s0 d s" unfolding s_def by (rule session_after_push [OF inv'])
  obtain fs n k r where sc: "scan_all tbl d = (fs, n, k, r)" by (cases "scan_all tbl d")
  obtain gs m j q where sc2: "scan_all tbl (r @ c) = (gs, m, j, q)" by (cases "scan_all tbl (r @ c)")
  have sc3: "scan_all tbl (d @ c) = (fs @ gs, n + m, k + j, q)" using scan_all_append [OF sc] sc2 by simp
  let ?s = "s\<lparr>se_framer := framer_extend (se_framer s) c\<rparr>"
  have fr: "se_framer s = bump framer_new n k r" using inv sc by (simp add: session_after_def)
  have "length r \<le> length d" using scan_all_length [OF sc] by simp
  then have "drain_frames tbl (se_framer ?s) = Some (gs, bump framer_new (n + m) (k + j) q)"
    using drain_frames_scan_all [of "se_framer ?s" tbl] len fr sc2 by (simp add: bump_extend)
  from forward_drains [OF ok this]
  obtain s1 where s1: "forward_inbound_frames tbl send ctx (sn_now i) ?s = Some (s1, True)"
    "se_framer s1 = bump framer_new (n + m) (k + j) q" "ingested contents ctx gs ?s s1" by blast
  have cn: "se_counters s1 = \<lparr>fc_last_resync_total = sat_bump 0 n, fc_last_crc_total = sat_bump 0 k\<rparr>"
    using s1(3) inv sc by (simp add: ingested_def session_after_def)
  have "counters_behind (se_counters s1) (se_framer s1)"
    using sat_bump_mono [of "sat_bump 0 n" m] sat_bump_mono [of "sat_bump 0 k" j]
    by (simp add: counters_behind_def cn s1 framer_new_def bump_def)
  note sync = counters_sync_behind [OF this, of "se_stats ctx s1"]
  let ?s' = "(se_upd ctx (\<lambda>_. (se_stats ctx s1)
        \<lparr>es_resync_bytes := es_resync_bytes (se_stats ctx s1) + (sat_bump 0 (n + m) - sat_bump 0 n),
         es_crc_errors := es_crc_errors (se_stats ctx s1) + (sat_bump 0 (k + j) - sat_bump 0 k)\<rparr>) s1)
      \<lparr>se_counters := \<lparr>fc_last_resync_total = sat_bump 0 (n + m), fc_last_crc_total = sat_bump 0 (k + j)\<rparr>\<rparr>"
  have "session_round tbl send aq ctx tq i s' = Some (?s', None)"
    using i s1(1) unfolding session_round_def s_def [symmetric] Let_def by (simp add: steady_def handle_read_result_def sync) (simp add: s1 cn framer_new_def bump_def)
  moreover have "rx_counted ctx (fs @ gs) (se_stats ctx s0) (se_stats ctx s1)"
    using rx_counted_append [of ctx fs "se_stats ctx s0" "se_stats ctx s" gs] s1(3) inv sc
    by (simp add: ingested_def session_after_def)
  ultimately show ?thesis
    using s1 inv sc sc3
    by (simp add: session_after_def ingested_def se_upd_def upd_stats_def rx_counted_def)
qed

lemma session_after_steady:
  assumes "reliable send contents"
  shows "session_after tbl contents ctx s0 d s \<Longrightarrow> list_all steady is \<Longrightarrow> length d + length (received is) < 2 ^ 64 \<Longrightarrow>
    \<exists>s'. run_session tbl send aq ctx tq (is @ rest) s = run_session tbl send aq ctx tq rest s'
      \<and> session_after tbl contents ctx s0 (d @ received is) s'"
proof (induction "is" arbitrary: d s)
  case (Cons i "is")
  show ?case
  proof (cases "sn_read i")
    case None
    from session_after_write [OF Cons.prems(1) _ None] Cons.prems(2)
    obtain s1 where s1: "session_round tbl send aq ctx tq i s = Some (s1, None)" "session_after tbl contents ctx s0 d s1"
      by fastforce
    from Cons.IH [OF s1(2)] Cons.prems(2,3) None s1(1) show ?thesis by simp
  next
    case (Some res)
    with Cons.prems(2) obtain c where c: "sn_read i = Some (Read_Ok c)" by (cases res) (auto simp: steady_def)
    from session_after_read [OF assms Cons.prems(1) _ c] Cons.prems(2,3) c
    obtain s1 where s1: "session_round tbl send aq ctx tq i s = Some (s1, None)" "session_after tbl contents ctx s0 (d @ c) s1"
      by fastforce
    from Cons.IH [OF s1(2)] Cons.prems(2,3) c s1(1) show ?thesis by simp
  qed
qed auto

lemma ends_round:
  assumes "ends_with i = Some outcome"
  shows "session_round tbl send aq ctx tq i s =
    Some (s\<lparr>se_store := push_all aq tq (sn_pushed i) (se_store s)\<rparr>, Some outcome)"
proof -
  have "framer_extend fr [] = fr" for fr by (simp add: framer_extend_def)
  with assms show ?thesis
    by (auto simp: ends_with_def session_round_def handle_read_result_def Let_def split: if_splits)
qed

lemma session_after_new: "session_after tbl contents ctx (session_new ch st) [] (session_new ch st)"
  by (simp add: session_after_def session_new_def counters_new_def framer_new_def rx_counted_def bump_def scan_all.simps)

lemma sat_bump_exact: "n < 2 ^ 64 \<Longrightarrow> sat_bump 0 n = of_nat n"
  by (simp add: word_unat_eq_iff unat_sat_bump unat_of_nat)

lemma forward_total:
  assumes "reliable send contents" and "length (fr_buf (se_framer s)) < 2 ^ 64"
  shows "\<exists>s'. forward_inbound_frames tbl send ctx now s = Some (s', True) \<and> length (fr_buf (se_framer s')) < 280"
proof -
  obtain fs n k r where sc: "scan_all tbl (fr_buf (se_framer s)) = (fs, n, k, r)" by (cases "scan_all tbl (fr_buf (se_framer s))")
  have "drain_frames tbl (se_framer s) = Some (fs, bump (se_framer s) n k r)"
    using drain_frames_scan_all [OF assms(2), of tbl] sc by simp
  from forward_drains [OF assms(1) this, of ctx now] classify_NeedMore_short [OF scan_all_rest [OF sc]] show ?thesis by fastforce
qed

text \<open>The transmit side: only the queue operations touch the queue and its drop counter.\<close>

definition tx_untouched :: "('q, 'c) session \<Rightarrow> ('q, 'c) session \<Rightarrow> bool" where
  "tx_untouched s s' \<longleftrightarrow> se_written s' = se_written s \<and> sto_queue (se_store s') = sto_queue (se_store s)
     \<and> sto_next (se_store s') = sto_next (se_store s)
     \<and> (\<forall>r. es_dropped_tx (sto_stats (se_store s') r) = es_dropped_tx (sto_stats (se_store s) r))"

lemma tx_untouched_trans: "tx_untouched s s1 \<Longrightarrow> tx_untouched s1 s2 \<Longrightarrow> tx_untouched s s2"
  by (simp add: tx_untouched_def)

lemma ingest_frame_untouched: "tx_untouched s (fst (ingest_frame send ctx now hf s))"
  by (simp add: tx_untouched_def ingest_frame_def se_upd_def case_prod_unfold Let_def add_rx_frame_def)

lemma forward_untouched:
  "forward_inbound_frames tbl send ctx now s = Some (s', go) \<Longrightarrow> tx_untouched s s'"
proof (induction tbl send ctx now s rule: forward_inbound_frames.induct)
  case (1 tbl send ctx now s)
  from "1.prems" obtain fr out where t: "try_next_frame tbl (se_framer s) = Some (fr, out)"
    by (subst (asm) forward_inbound_frames.simps) (auto split: option.splits)
  let ?s = "s\<lparr>se_framer := fr\<rparr>"
  have fr: "tx_untouched s ?s" by (simp add: tx_untouched_def)
  show ?case
  proof (cases out)
    case None
    with "1.prems" t fr show ?thesis by (subst (asm) forward_inbound_frames.simps) simp
  next
    case (Some hf)
    obtain s1 ok where i: "ingest_frame send ctx now hf ?s = (s1, ok)" by (cases "ingest_frame send ctx now hf ?s")
    have s1: "tx_untouched s s1" using tx_untouched_trans [OF fr] ingest_frame_untouched [of ?s send ctx now hf] i by simp
    show ?thesis
    proof (cases ok)
      case True
      with "1.prems" t Some i have "forward_inbound_frames tbl send ctx now s1 = Some (s', go)"
        by (subst (asm) forward_inbound_frames.simps) simp
      from "1.IH" [OF t refl Some i [symmetric] _ this] True have "tx_untouched s1 s'" by simp
      with s1 show ?thesis by (rule tx_untouched_trans)
    next
      case False
      with "1.prems" t Some i s1 show ?thesis by (subst (asm) forward_inbound_frames.simps) simp
    qed
  qed
qed

lemma sync_dropped [simp]: "es_dropped_tx (snd (counters_sync fc fr st)) = es_dropped_tx st"
  by (simp add: counters_sync_def Let_def)

lemma handle_read_untouched: "handle_read_result tbl send ctx now res s = Some (s', out) \<Longrightarrow> tx_untouched s s'"
  by (auto simp: handle_read_result_def tx_untouched_def se_upd_def case_prod_unfold Let_def
      split: read_result.splits if_splits option.splits bool.splits dest!: forward_untouched)

lemma tx_inv_lose_last:
  assumes "tx_inv items capq tq d0 ins (st, out @ [frame])"
  shows "tx_inv items capq tq (d0 - 1) ins (st, out)"
proof -
  from assms have "subseq (out @ items (sto_queue st (tq_inner tq))) ins"
    by (auto simp: tx_inv_def Let_def intro: subseq_mid)
  with assms show ?thesis by (simp add: tx_inv_def Let_def algebra_simps)
qed

text \<open>
  The invariant of the queue across a round, for a session that follows on frames \<^term>\<open>pre\<close> written
  before. A frame whose write fails is lost without being counted, and the session ends.
\<close>

lemma session_round_tx:
  assumes "aq_laws aq items capq" and "tx_inv items capq tq d0 ins (se_store s, pre @ se_written s)"
    and "session_round tbl send aq ctx tq i s = Some (s', out)"
  shows "tx_inv items capq tq d0 (ins @ sn_pushed i) (se_store s', pre @ se_written s')
    \<or> out = Some Disconnected \<and> \<not> sn_write_ok i \<and> tx_inv items capq tq (d0 - 1) (ins @ sn_pushed i) (se_store s', pre @ se_written s')"
proof -
  define s1 where "s1 = s\<lparr>se_store := push_all aq tq (sn_pushed i) (se_store s)\<rparr>"
  have inv: "tx_inv items capq tq d0 (ins @ sn_pushed i) (se_store s1, pre @ se_written s1)"
    using push_all_inv [OF assms(1,2), of "sn_pushed i"] by (simp add: s1_def)
  have keep: "tx_inv items capq tq d0 (ins @ sn_pushed i) (se_store t', pre @ se_written t')"
    if "tx_untouched s1 t'" for t'
    using inv that tx_inv_cong [of "se_store t'" tq "se_store s1"] by (simp add: tx_untouched_def)
  note round = assms(3) [unfolded session_round_def, folded s1_def, unfolded Let_def]
  show ?thesis
  proof (cases "sn_cancelled i")
    case True
    with round inv show ?thesis by simp
  next
    case False
    show ?thesis
    proof (cases "sn_read i")
      case (Some res)
      let ?s = "case res of Read_Ok data \<Rightarrow> s1\<lparr>se_framer := framer_extend (se_framer s1) data\<rparr> | Read_Err \<Rightarrow> s1"
      have "tx_untouched ?s s'" using round False Some by (auto intro: handle_read_untouched)
      moreover have "tx_untouched s1 ?s" by (simp add: tx_untouched_def split: read_result.split)
      ultimately show ?thesis using keep tx_untouched_trans by blast
    next
      case None
      obtain st x where p: "tx_pop aq tq (se_store s1) = (st, x)" by (cases "tx_pop aq tq (se_store s1)")
      note popped = poll_inv [OF assms(1) inv p]
      show ?thesis
      proof (cases "x = None \<or> sn_write_ok i")
        case True
        with popped round False None p show ?thesis
          by (auto simp: poll_pop_or_wait_def write_outbound_frame_def se_upd_def tx_inv_def add_tx_frame_def Let_def
              split: option.splits if_splits)
      next
        case False
        then obtain frame where x: "x = Some frame" and "\<not> sn_write_ok i" by auto
        with tx_inv_lose_last [of items capq tq d0 _ st "pre @ se_written s1" frame] popped round \<open>\<not> sn_cancelled i\<close> None p show ?thesis
          by (auto simp: poll_pop_or_wait_def write_outbound_frame_def)
      qed
    qed
  qed
qed

text \<open>The rounds a session goes through.\<close>

fun rounds_run ::
  "msg_table \<Rightarrow> (router_frame \<Rightarrow> 'c \<Rightarrow> 'c \<times> bool) \<Rightarrow> 'q array_queue \<Rightarrow> session_ctx \<Rightarrow> tx_queue \<Rightarrow> session_input list \<Rightarrow> ('q, 'c) session
   \<Rightarrow> session_input list" where
  "rounds_run tbl send aq ctx tq [] s = []"
| "rounds_run tbl send aq ctx tq (i # is) s =
     i # (case session_round tbl send aq ctx tq i s of
            Some (s', None) \<Rightarrow> rounds_run tbl send aq ctx tq is s'
          | _ \<Rightarrow> [])"

definition pushed_in :: "session_input list \<Rightarrow> bytes list" where
  "pushed_in is = concat (map sn_pushed is)"

lemma pushed_in_simps [simp]: "pushed_in [] = []" "pushed_in (i # is) = sn_pushed i @ pushed_in is"
  by (simp_all add: pushed_in_def)

lemma run_session_tx:
  assumes "aq_laws aq items capq"
  shows "tx_inv items capq tq d0 ins (se_store s, pre @ se_written s) \<Longrightarrow> run_session tbl send aq ctx tq is s = Some (s', out) \<Longrightarrow>
    \<exists>lost. tx_inv items capq tq (d0 - of_nat lost) (ins @ pushed_in (rounds_run tbl send aq ctx tq is s)) (se_store s', pre @ se_written s')
      \<and> lost \<le> 1 \<and> (lost = 1 \<longrightarrow> out = Some Disconnected \<and> \<not> list_all sn_write_ok is)"
proof (induction "is" arbitrary: s ins)
  case Nil
  then show ?case by (auto intro!: exI [of _ 0])
next
  case (Cons i "is")
  from Cons.prems(2) obtain s1 o1 where r: "session_round tbl send aq ctx tq i s = Some (s1, o1)"
    by (auto split: option.splits)
  note round = session_round_tx [OF assms Cons.prems(1) r]
  show ?case
  proof (cases o1)
    case None
    with Cons.prems(2) r have "run_session tbl send aq ctx tq is s1 = Some (s', out)" by simp
    from Cons.IH [OF _ this] round None r show ?thesis by fastforce
  next
    case (Some o2)
    with Cons.prems(2) r have "s' = s1" "out = o1" by simp_all
    with round r Some show ?thesis
      by (auto intro: exI [of _ 0] exI [of _ 1])
  qed
qed


definition demo_rounds :: "session_input list" where
  "demo_rounds = map (\<lambda>c. \<lparr>sn_cancelled = False, sn_read = c, sn_write_ok = True, sn_now = 0, sn_pushed = []\<rparr>)
     [Some (Read_Ok [0x55, 0xFE, 0, 7]), None, Some (Read_Ok [1, 1, 0, 3, 4, 0xFD])]"

lemma demo_scan:
  "scan_all [] (received demo_rounds) =
     ([(\<lparr>hdr_version = Version_V1, hdr_source = node_new 1 1, hdr_msgid = 0, hdr_seq = 7,
        hdr_payload_len = 0, hdr_target_system = None, hdr_target_component = None\<rparr>,
        [0xFE, 0, 7, 1, 1, 0, 3, 4])], 1, 0, [0xFD])"
  by code_simp




end
