(* ===== verification/Backoff.thy ===== *)
theory Backoff
  imports Prelude
begin

unbundle bit_operations_syntax

text \<open>
  Reconnect delays, \<^verbatim>\<open>src/endpoint/backoff.rs\<close>, and the cancellable sleep they are used with
  (\<^verbatim>\<open>wait_or_cancel\<close> of \<^verbatim>\<open>src/endpoint/mod.rs\<close>). Durations and instants are nanoseconds.
\<close>

section \<open>Cancellable sleep\<close>

text \<open>
  A cancellation token is the instant at which it fires, if it does. The sleep returns whether the
  full delay elapsed, and when it returned; the select is biased towards cancellation.
\<close>

type_synonym cancel_token = "instant option"

definition is_cancelled :: "cancel_token \<Rightarrow> instant \<Rightarrow> bool" where
  "is_cancelled cancel now = (case cancel of None \<Rightarrow> False | Some c \<Rightarrow> c \<le> now)"

definition wait_or_cancel :: "cancel_token \<Rightarrow> duration \<Rightarrow> instant \<Rightarrow> bool \<times> instant" where
  "wait_or_cancel cancel delay now =
     (case cancel of
        None \<Rightarrow> (True, now + delay)
      | Some c \<Rightarrow> if c \<le> now + delay then (False, max now c) else (True, now + delay))"

section \<open>Durations\<close>

definition as_millis :: "duration \<Rightarrow> nat" where
  "as_millis d = d div 1000000"

text \<open>The largest \<^verbatim>\<open>Duration\<close>: \<^verbatim>\<open>u64::MAX\<close> seconds and 999999999 nanoseconds.\<close>

definition DURATION_MAX :: duration where
  "DURATION_MAX = 18446744073709551616 * 1000000000 - 1"

definition saturating_mul :: "duration \<Rightarrow> nat \<Rightarrow> duration" where
  "saturating_mul d n = min (d * n) DURATION_MAX"

section \<open>The jitter source\<close>

type_synonym xorshift = u64

definition seeded_from_clock :: "duration option \<Rightarrow> xorshift" where
  "seeded_from_clock since_epoch =
     (case since_epoch of None \<Rightarrow> 0xdeadbeefcafebabe | Some nanos \<Rightarrow> of_nat nanos) OR 1"

definition xorshift_next :: "xorshift \<Rightarrow> xorshift \<times> u64" where
  "xorshift_next state =
     (let s1 = state XOR push_bit 13 state;
          s2 = s1 XOR drop_bit 7 s1;
          s3 = s2 XOR push_bit 17 s2
      in (s3, s3))"

section \<open>The backoff\<close>

record backoff =
  bo_initial :: duration
  bo_max :: duration
  bo_current :: duration
  bo_rng :: xorshift

definition backoff_new :: "u64 \<Rightarrow> u64 \<Rightarrow> duration option \<Rightarrow> backoff" where
  "backoff_new initial max_ms clock =
     (let initial_ms = max initial 1;
          max_ms' = max max_ms initial_ms
      in \<lparr>bo_initial = from_millis initial_ms, bo_max = from_millis max_ms',
          bo_current = from_millis initial_ms, bo_rng = seeded_from_clock clock\<rparr>)"

definition backoff_reset :: "backoff \<Rightarrow> backoff" where
  "backoff_reset b = b\<lparr>bo_current := bo_initial b\<rparr>"

text \<open>
  The \<^verbatim>\<open>i64\<close> arithmetic is done on the words with the same bits: \<^verbatim>\<open>max(1)\<close> compares the signed
  value.
\<close>

definition next_delay :: "backoff \<Rightarrow> backoff \<times> duration" where
  "next_delay b =
     (let base_ms = (of_nat (as_millis (bo_current b)) :: u64);
          jitter_range = base_ms div 5;
          span = jitter_range * 2 + 1;
          (rng, r) = xorshift_next (bo_rng b);
          jitter = r mod span - jitter_range;
          sum = base_ms + jitter;
          jittered_ms = (if sint sum < 1 then 1 else sum);
          delay = from_millis jittered_ms
      in (b\<lparr>bo_rng := rng, bo_current := min (saturating_mul (bo_current b) 2) (bo_max b)\<rparr>, delay))"

section \<open>Binding with retries\<close>

datatype 't bind_outcome = Bound 't | Cancelled

text \<open>
  \<^verbatim>\<open>bind_fn\<close> is the result of the \<^term>\<open>k\<close>-th attempt; an attempt itself takes no time. Running out
  of fuel is \<^term>\<open>None\<close>.
\<close>

fun bind_with_backoff ::
  "nat \<Rightarrow> cancel_token \<Rightarrow> (nat \<Rightarrow> ('e, 't) res) \<Rightarrow> nat \<Rightarrow> backoff \<Rightarrow> instant \<Rightarrow> ('t bind_outcome \<times> backoff \<times> instant) option" where
  "bind_with_backoff 0 cancel bind_fn k b now = None"
| "bind_with_backoff (Suc fuel) cancel bind_fn k b now =
     (if is_cancelled cancel now then Some (Cancelled, b, now)
      else case bind_fn k of
        Inr bound \<Rightarrow> Some (Bound bound, backoff_reset b, now)
      | Inl err \<Rightarrow>
          let (b', delay) = next_delay b;
              (elapsed, now') = wait_or_cancel cancel delay now
          in if \<not> elapsed then Some (Cancelled, b', now')
             else bind_with_backoff fuel cancel bind_fn (Suc k) b' now')"

section \<open>The jitter source never sticks at zero\<close>

lemma push_bit_fixed:
  fixes x :: u64
  assumes "x = push_bit k x" and "0 < k"
  shows "x = 0"
proof -
  have "\<not> bit x n" for n
  proof (induction n rule: less_induct)
    case (less n)
    from assms(1) have "bit x n \<longleftrightarrow> bit (push_bit k x) n" by simp
    with less.IH [of "n - k"] assms(2) show ?case by (auto simp: bit_push_bit_iff)
  qed
  then show ?thesis by (simp add: bit_eq_iff)
qed

lemma drop_bit_fixed:
  fixes x :: u64
  assumes "x = drop_bit k x" and "0 < k"
  shows "x = 0"
proof -
  have "\<not> bit x n" for n
  proof (induction "64 - n" arbitrary: n rule: less_induct)
    case (less n)
    from assms(1) have "bit x n \<longleftrightarrow> bit x (k + n)" by (metis bit_drop_bit_eq comp_apply)
    with less [of "k + n"] assms(2) show ?case
      by (cases "n < 64") (auto simp: bit_word.rep_eq dest: bit_imp_le_length)
  qed
  then show ?thesis by (simp add: bit_eq_iff)
qed

lemma xor_zero_iff: "x XOR y = 0 \<longleftrightarrow> x = y" for x y :: u64
proof
  assume "x XOR y = 0"
  then have "x XOR (x XOR y) = x" by simp
  then show "x = y" by (simp add: xor.assoc [symmetric])
qed simp

lemma xor_push_nonzero: "x \<noteq> 0 \<Longrightarrow> 0 < k \<Longrightarrow> x XOR push_bit k x \<noteq> 0" for x :: u64
  by (metis push_bit_fixed xor_zero_iff)

lemma xor_drop_nonzero: "x \<noteq> 0 \<Longrightarrow> 0 < k \<Longrightarrow> x XOR drop_bit k x \<noteq> 0" for x :: u64
  by (metis drop_bit_fixed xor_zero_iff)

lemma xorshift_next_nonzero: "state \<noteq> 0 \<Longrightarrow> fst (xorshift_next state) \<noteq> 0"
  unfolding xorshift_next_def Let_def fst_conv
  by (intro xor_push_nonzero xor_drop_nonzero) simp_all

lemma seed_nonzero: "seeded_from_clock clock \<noteq> 0"
proof -
  have "bit (seeded_from_clock clock) 0" by (simp add: seeded_from_clock_def bit_or_iff)
  then show ?thesis by auto
qed

section \<open>The delay curve\<close>

text \<open>The state after \<^term>\<open>n\<close> delays, and the delay that follows.\<close>

definition after_delays :: "nat \<Rightarrow> backoff \<Rightarrow> backoff" where
  "after_delays n b = ((\<lambda>b. fst (next_delay b)) ^^ n) b"

lemma next_delay_fields [simp]:
  "bo_initial (fst (next_delay b)) = bo_initial b" "bo_max (fst (next_delay b)) = bo_max b"
  "bo_current (fst (next_delay b)) = min (saturating_mul (bo_current b) 2) (bo_max b)"
  "bo_rng (fst (next_delay b)) = fst (xorshift_next (bo_rng b))"
  by (simp_all add: next_delay_def Let_def case_prod_unfold)

lemma after_delays_Suc [simp]: "after_delays (Suc n) b = fst (next_delay (after_delays n b))"
  by (simp add: after_delays_def)

lemma after_delays_0 [simp]: "after_delays 0 b = b"
  by (simp add: after_delays_def)

lemma after_delays_const [simp]:
  "bo_initial (after_delays n b) = bo_initial b" "bo_max (after_delays n b) = bo_max b"
  by (induction n) simp_all

lemma u64_lt: "unat (x :: u64) < 18446744073709551616"
  using unsigned_less [of x, where ?'a = nat] by simp

text \<open>The base delay doubles up to the ceiling; the saturation of \<^verbatim>\<open>Duration\<close> is never reached.\<close>

lemma curve_current:
  "bo_current (after_delays n (backoff_new i m clock)) =
     min (unat (max i 1) * 2 ^ n) (unat (max m (max i 1))) * 1000000"
proof (induction n)
  case 0
  have "unat (max i 1) \<le> unat (max m (max i 1))" unfolding word_le_nat_alt [symmetric] by simp
  then show ?case by (simp add: backoff_new_def from_millis_def Let_def)
next
  case (Suc n)
  define a where "a = unat (max i 1) * 2 ^ n"
  define m' where "m' = unat (max m (max i 1))"
  have m': "m' < 18446744073709551616" unfolding m'_def by (rule u64_lt)
  have "min a m' * 1000000 * 2 \<le> DURATION_MAX"
    using m' by (simp add: DURATION_MAX_def min_def)
  then have "saturating_mul (min a m' * 1000000) 2 = min a m' * 1000000 * 2"
    by (simp add: saturating_mul_def)
  moreover have "bo_max (backoff_new i m clock) = m' * 1000000"
    by (simp add: backoff_new_def from_millis_def Let_def m'_def)
  moreover have "min (min a m' * 1000000 * 2) (m' * 1000000) = min (2 * a) m' * 1000000"
    by (simp add: min_def)
  moreover have "unat (max i 1) * 2 ^ Suc n = 2 * a" by (simp add: a_def)
  moreover have "bo_current (after_delays n (backoff_new i m clock)) = min a m' * 1000000"
    unfolding a_def m'_def by (rule Suc)
  ultimately show ?case unfolding m'_def [symmetric] by (simp only: after_delays_Suc next_delay_fields after_delays_const)
qed

lemma rng_nonzero: "bo_rng (after_delays n (backoff_new i m clock)) \<noteq> 0"
  by (induction n) (simp_all add: xorshift_next_nonzero seed_nonzero backoff_new_def Let_def)

lemma sint_small: "unat v < 9223372036854775808 \<Longrightarrow> sint v = int (unat v)" for v :: u64
proof -
  assume "unat v < 9223372036854775808"
  then have "int (unat v) < 9223372036854775808" by linarith
  moreover have "- (2 ^ 63) \<le> uint v" by (rule order_trans [of _ 0]) simp_all
  ultimately have "signed_take_bit 63 (uint v) = uint v" by (intro signed_take_bit_int_eq_self) simp_all
  then show ?thesis by (simp add: sint_uint)
qed

lemma jitter_sum:
  fixes base j q :: u64
  assumes "5 * unat q \<le> unat base" and "1 \<le> unat base" and "unat base \<le> 4611686018427387904" and "unat j \<le> 2 * unat q"
  shows "\<not> sint (base + (j - q)) < 1 \<and> unat base - unat q \<le> unat (base + (j - q)) \<and> unat (base + (j - q)) \<le> unat base + unat q"
proof -
  define N where "N = unat base - unat q + unat j"
  have "base + (j - q) = of_nat N" using assms(1) by (simp add: N_def of_nat_diff)
  moreover have "N < 9223372036854775808" using assms by (simp add: N_def)
  ultimately have "unat (base + (j - q)) = N" by (simp add: unat_of_nat del: of_nat_add of_nat_diff)
  moreover from this have "sint (base + (j - q)) = int N"
    using sint_small [of "base + (j - q)"] \<open>N < _\<close> by simp
  moreover have "1 \<le> N" "N \<le> unat base + unat q" "unat base - unat q \<le> N"
    using assms unfolding N_def by linarith+
  ultimately show ?thesis by simp
qed

lemma jitter_bounds:
  fixes base r :: u64
  assumes "1 \<le> unat base" and "unat base \<le> 4611686018427387904"
  shows "\<not> sint (base + (r mod (base div 5 * 2 + 1) - base div 5)) < 1
    \<and> unat base - unat base div 5 \<le> unat (base + (r mod (base div 5 * 2 + 1) - base div 5))
    \<and> unat (base + (r mod (base div 5 * 2 + 1) - base div 5)) \<le> unat base + unat base div 5"
proof -
  have q: "unat (base div 5) = unat base div 5" by (simp add: unat_div)
  have "unat (base div 5 * 2 + 1) = 2 * (unat base div 5) + 1"
    using assms(2) by (simp add: unat_word_ariths q)
  then have "unat (r mod (base div 5 * 2 + 1)) \<le> 2 * unat (base div 5)"
    using mod_less_divisor [of "2 * (unat base div 5) + 1" "unat r"] by (simp add: unat_mod q)
  then show ?thesis using jitter_sum [of "base div 5" base] assms by (simp add: q)
qed

lemma next_delay_delay:
  "snd (next_delay b) = from_millis
     (let base = of_nat (as_millis (bo_current b));
          v = base + (snd (xorshift_next (bo_rng b)) mod (base div 5 * 2 + 1) - base div 5)
      in if sint v < 1 then 1 else v)"
  by (simp add: next_delay_def Let_def case_prod_unfold)

lemma next_delay_positive: "1000000 \<le> snd (next_delay b)"
proof -
  have "1 \<le> unat v" if "\<not> sint v < 1" for v :: u64
    using that by (cases "v = 0") (auto simp: Suc_le_eq unat_gt_0)
  then show ?thesis by (auto simp: next_delay_delay from_millis_def Let_def)
qed

text \<open>
  C27. The reconnect curve: after \<^verbatim>\<open>n\<close> failures the delay lies within twenty per cent of the
  initial delay doubled \<^verbatim>\<open>n\<close> times and capped at the configured ceiling, it is never below a
  millisecond, and the jitter generator never gets stuck at zero.
\<close>

theorem backoff_delay_within_curve:
  fixes initial max_ms :: u64 and n :: nat and clock :: "duration option"
  assumes "max_ms \<le> 4611686018427387904" and "initial \<le> 4611686018427387904"
  defines "b \<equiv> after_delays n (backoff_new initial max_ms clock)"
    and "base \<equiv> min (unat (max initial 1) * 2 ^ n) (unat (max max_ms (max initial 1)))"
  shows "(base - base div 5) * 1000000 \<le> snd (next_delay b)
    \<and> snd (next_delay b) \<le> (base + base div 5) * 1000000
    \<and> 1000000 \<le> snd (next_delay b) \<and> bo_rng b \<noteq> 0"
proof -
  have cur: "bo_current b = base * 1000000" unfolding b_def base_def by (rule curve_current)
  have "max max_ms (max initial 1) \<le> 4611686018427387904" using assms(1,2) by simp
  then have le: "base \<le> 4611686018427387904" by (simp add: base_def word_le_nat_alt min_le_iff_disj)
  have "(1 :: u64) \<le> max initial 1" "(1 :: u64) \<le> max max_ms (max initial 1)" by (simp_all add: le_max_iff_disj)
  then have "1 \<le> unat (max initial 1)" "1 \<le> unat (max max_ms (max initial 1))" unfolding word_le_nat_alt by simp_all
  then have ge: "1 \<le> base" by (simp add: base_def)
  have base: "unat (of_nat base :: u64) = base" using le by (simp add: unat_of_nat)
  have "as_millis (bo_current b) = base" by (simp add: as_millis_def cur)
  moreover note jitter_bounds [of "of_nat base" "snd (xorshift_next (bo_rng b))", unfolded base, OF ge le]
  ultimately show ?thesis
    using next_delay_positive [of b] rng_nonzero [of n initial max_ms clock]
    by (auto simp: next_delay_delay from_millis_def Let_def b_def [symmetric])
qed

theorem backoff_delay_within_curve_witness:
  "snd (next_delay (after_delays 3 (backoff_new 250 30000 None))) \<in> {1600000000..2400000000}"
  using backoff_delay_within_curve [of 30000 250 3 None] by simp

section \<open>Retrying ends\<close>

lemma wait_or_cancel_Some:
  "wait_or_cancel (Some c) delay now = (if c \<le> now + delay then (False, max now c) else (True, now + delay))"
  by (simp add: wait_or_cancel_def)

text \<open>
  What a call of the retry loop promises, started at attempt \<^term>\<open>k\<close> and instant \<^term>\<open>now\<close> with a
  token that fires at \<^term>\<open>c\<close>.
\<close>

definition bind_promise ::
  "instant \<Rightarrow> (nat \<Rightarrow> ('e, 't) res) \<Rightarrow> nat \<Rightarrow> backoff \<Rightarrow> instant \<Rightarrow> 't bind_outcome \<times> backoff \<times> instant \<Rightarrow> bool" where
  "bind_promise c bind_fn k b now = (\<lambda>(out, b', t). now \<le> t \<and> t \<le> c
    \<and> (case out of
         Cancelled \<Rightarrow> t = c
       | Bound x \<Rightarrow> t < c \<and> bo_current b' = bo_initial b
           \<and> (\<exists>j \<ge> k. bind_fn j = Inr x \<and> (\<forall>i. k \<le> i \<and> i < j \<longrightarrow> isl (bind_fn i)))))"

lemma bind_promise_step:
  assumes "bind_promise c bind_fn (Suc k) b1 (now + d) r" and "isl (bind_fn k)" and "bo_initial b1 = bo_initial b"
  shows "bind_promise c bind_fn k b now r"
proof -
  have "\<forall>i. k \<le> i \<and> i < j \<longrightarrow> isl (bind_fn i)" if "\<forall>i. Suc k \<le> i \<and> i < j \<longrightarrow> isl (bind_fn i)" for j
    using that assms(2) by (metis Suc_leI le_neq_implies_less)
  with assms(1,3) show ?thesis
    by (auto simp: bind_promise_def split: bind_outcome.splits) (metis Suc_leD)
qed

text \<open>
  Binding with retries always comes to an end once the token is going to fire: it returns by
  the instant of the cancellation, either with the first attempt that succeeded, and the curve
  reset, or, at exactly that instant, as cancelled. Each failed attempt waits at least a
  millisecond, so the number of milliseconds to the cancellation bounds the attempts.
\<close>

theorem bind_with_backoff_ends:
  assumes "now \<le> c" and "(c - now) div 1000000 < fuel"
  shows "\<exists>r. bind_with_backoff fuel (Some c) bind_fn k b now = Some r \<and> bind_promise c bind_fn k b now r"
  using assms
proof (induction fuel arbitrary: k b now)
  case (Suc fuel)
  obtain b1 d where nd: "next_delay b = (b1, d)" by (cases "next_delay b")
  have d: "1000000 \<le> d" using next_delay_positive [of b] nd by simp
  have init: "bo_initial b1 = bo_initial b" using next_delay_fields(1) [of b] nd by simp
  consider "c \<le> now" | x where "now < c" "bind_fn k = Inr x" | e where "now < c" "bind_fn k = Inl e" "c \<le> now + d"
    | e where "now < c" "bind_fn k = Inl e" "now + d < c"
    by (cases "bind_fn k") (auto simp: not_le [symmetric])
  then show ?case
  proof cases
    case 1
    with Suc.prems show ?thesis by (simp add: is_cancelled_def bind_promise_def)
  next
    case 2
    then show ?thesis by (auto simp: is_cancelled_def backoff_reset_def bind_promise_def intro!: exI [of _ k])
  next
    case 3
    with nd show ?thesis by (simp add: is_cancelled_def wait_or_cancel_Some bind_promise_def)
  next
    case 4
    have "(c - (now + d)) + 1000000 \<le> c - now" using 4 d by simp
    then have "((c - (now + d)) + 1000000) div 1000000 \<le> (c - now) div 1000000" by (rule div_le_mono)
    with Suc.prems(2) have "(c - (now + d)) div 1000000 < fuel" by simp
    with Suc.IH [of "now + d" "Suc k" b1] 4 obtain r where
      "bind_with_backoff fuel (Some c) bind_fn (Suc k) b1 (now + d) = Some r" "bind_promise c bind_fn (Suc k) b1 (now + d) r"
      by auto
    with 4 nd init show ?thesis
      by (auto simp: is_cancelled_def wait_or_cancel_Some intro: bind_promise_step [of c bind_fn k b1 now d r b])
  qed
qed simp

theorem bind_with_backoff_ends_witness:
  "\<exists>out b' t. bind_with_backoff 10 (Some 5000000) (\<lambda>k. if k < 2 then Inl ''in use'' else Inr k)
      0 (backoff_new 1 2 None) 0 = Some (out, b', t) \<and> t \<le> 5000000"
  using bind_with_backoff_ends [of 0 5000000 10 "\<lambda>k. if k < 2 then Inl ''in use'' else Inr k" 0 "backoff_new 1 2 None"]
  by (auto simp: bind_promise_def)

end
