(* ===== verification/Net_Addr.thy ===== *)
theory Net_Addr
  imports Rust_Text Router
begin

text \<open>
  Endpoint identities, \<^verbatim>\<open>src/endpoint/mod.rs\<close>: the id allocator, socket addresses with the text
  form the standard library gives them, and the names of learned peers. Also the defaults of
  \<^verbatim>\<open>src/endpoint/defaults.rs\<close>.
\<close>

section \<open>Defaults\<close>

definition DEFAULT_TX_QUEUE_FRAMES :: nat where
  "DEFAULT_TX_QUEUE_FRAMES = 256"

definition DEFAULT_RECONNECT_INITIAL_MS :: u64 where
  "DEFAULT_RECONNECT_INITIAL_MS = 250"

definition DEFAULT_RECONNECT_MAX_MS :: u64 where
  "DEFAULT_RECONNECT_MAX_MS = 30000"

definition DEFAULT_DEDUP_WINDOW_CAPACITY :: nat where
  "DEFAULT_DEDUP_WINDOW_CAPACITY = 4096"

definition SOCKET_ERROR_RETRY_DELAY :: duration where
  "SOCKET_ERROR_RETRY_DELAY = 10 * 1000000"

section \<open>Endpoint ids\<close>

record id_allocator =
  ida_next :: u64

definition allocator_new :: id_allocator where
  "allocator_new = \<lparr>ida_next = 0\<rparr>"

definition alloc_id :: "id_allocator \<Rightarrow> endpoint_id \<times> id_allocator" where
  "alloc_id a = (ida_next a, a\<lparr>ida_next := ida_next a + 1\<rparr>)"

section \<open>Addresses\<close>

datatype ipv4 = Ipv4 u8 u8 u8 u8

datatype ipv6 = Ipv6 u16 u16 u16 u16 u16 u16 u16 u16

datatype ip_addr = IpV4 ipv4 | IpV6 ipv6

text \<open>An IPv6 socket address also carries its flow information and scope id.\<close>

datatype socket_addr = SocketV4 ipv4 u16 | SocketV6 ipv6 u16 u32 u32

fun sa_ip :: "socket_addr \<Rightarrow> ip_addr" where
  "sa_ip (SocketV4 ip _) = IpV4 ip"
| "sa_ip (SocketV6 ip _ _ _) = IpV6 ip"

fun sa_port :: "socket_addr \<Rightarrow> u16" where
  "sa_port (SocketV4 _ port) = port"
| "sa_port (SocketV6 _ port _ _) = port"

fun sa_new :: "ip_addr \<Rightarrow> u16 \<Rightarrow> socket_addr" where
  "sa_new (IpV4 ip) port = SocketV4 ip port"
| "sa_new (IpV6 ip) port = SocketV6 ip port 0 0"

fun is_ipv6 :: "ip_addr \<Rightarrow> bool" where
  "is_ipv6 (IpV4 _) = False"
| "is_ipv6 (IpV6 _) = True"

text \<open>The high and low byte of a segment, and \<^verbatim>\<open>to_ipv4_mapped\<close>.\<close>

definition hi_byte :: "u16 \<Rightarrow> u8" where
  "hi_byte w = ucast (drop_bit 8 w)"

definition lo_byte :: "u16 \<Rightarrow> u8" where
  "lo_byte w = ucast w"

fun to_ipv4_mapped :: "ipv6 \<Rightarrow> ipv4 option" where
  "to_ipv4_mapped (Ipv6 a b c d e f g h) =
     (if a = 0 \<and> b = 0 \<and> c = 0 \<and> d = 0 \<and> e = 0 \<and> f = 0xffff
      then Some (Ipv4 (hi_byte g) (lo_byte g) (hi_byte h) (lo_byte h)) else None)"

section \<open>Their text form\<close>

fun show_ipv4 :: "ipv4 \<Rightarrow> string" where
  "show_ipv4 (Ipv4 a b c d) = join_with CHR ''.'' [dec_word a, dec_word b, dec_word c, dec_word d]"

definition hex_char :: "nat \<Rightarrow> char" where
  "hex_char d = char_of (if d < 10 then 48 + d else 87 + d)"

fun hex :: "nat \<Rightarrow> string" where
  "hex n = (if n < 16 then [hex_char n] else hex (n div 16) @ [hex_char (n mod 16)])"

declare hex.simps [simp del]

fun segments :: "ipv6 \<Rightarrow> u16 list" where
  "segments (Ipv6 a b c d e f g h) = [a, b, c, d, e, f, g, h]"

text \<open>
  The standard library's search for the first longest run of zero segments: the position, the
  current run and the longest run so far, each a start and a length.
\<close>

fun zero_run :: "nat \<Rightarrow> nat \<times> nat \<Rightarrow> nat \<times> nat \<Rightarrow> u16 list \<Rightarrow> nat \<times> nat" where
  "zero_run i current longest [] = longest"
| "zero_run i current longest (x # xs) =
     (if x = 0 then
        let current' = ((if snd current = 0 then i else fst current), snd current + 1);
            longest' = (if snd current' > snd longest then current' else longest)
        in zero_run (i + 1) current' longest' xs
      else zero_run (i + 1) (0, 0) longest xs)"

definition fmt_subslice :: "u16 list \<Rightarrow> string" where
  "fmt_subslice xs = join_with CHR '':'' (map (\<lambda>w. hex (unat w)) xs)"

definition show_ipv6 :: "ipv6 \<Rightarrow> string" where
  "show_ipv6 ip =
     (case to_ipv4_mapped ip of
        Some v4 \<Rightarrow> ''::ffff:'' @ show_ipv4 v4
      | None \<Rightarrow>
          let (start, len) = zero_run 0 (0, 0) (0, 0) (segments ip)
          in if len > 1
             then fmt_subslice (take start (segments ip)) @ ''::'' @ fmt_subslice (drop (start + len) (segments ip))
             else fmt_subslice (segments ip))"

fun peer_endpoint_name :: "string \<Rightarrow> socket_addr \<Rightarrow> string" where
  "peer_endpoint_name parent_name (SocketV4 ip port) = parent_name @ ''/'' @ show_ipv4 ip @ ''-'' @ dec_word port"
| "peer_endpoint_name parent_name (SocketV6 ip port _ _) =
     parent_name @ ''/['' @ show_ipv6 ip @ '']-'' @ dec_word port"

section \<open>Ids are unique\<close>

fun alloc_ids :: "nat \<Rightarrow> id_allocator \<Rightarrow> endpoint_id list \<times> id_allocator" where
  "alloc_ids 0 a = ([], a)"
| "alloc_ids (Suc n) a = (let (i, a1) = alloc_id a; (is, a2) = alloc_ids n a1 in (i # is, a2))"

lemma alloc_ids_count: "fst (alloc_ids n a) = map (\<lambda>k. ida_next a + of_nat k) [0..<n]"
proof (induction n arbitrary: a)
  case (Suc n)
  have "map (\<lambda>k. ida_next a + of_nat k) [0..<Suc n] = ida_next a # map (\<lambda>k. ida_next a + 1 + of_nat k) [0..<n]"
    by (simp add: upt_rec [of 0 "Suc n"] map_Suc_upt [symmetric] algebra_simps del: upt_Suc)
  with Suc [of "a\<lparr>ida_next := ida_next a + 1\<rparr>"] show ?case by (simp add: alloc_id_def case_prod_unfold Let_def)
qed simp

text \<open>
  Endpoint ids are never reused: as long as fewer than \<^verbatim>\<open>2^64\<close> have been handed out, all the ids
  of an allocator are distinct, whichever state it starts in.
\<close>

theorem endpoint_ids_distinct:
  assumes "n \<le> 2 ^ 64"
  shows "distinct (fst (alloc_ids n a))"
proof -
  have "inj_on (\<lambda>k. of_nat k :: u64) {0..<n}"
    using assms by (intro inj_onI) (simp add: word_unat_eq_iff unat_of_nat)
  then show ?thesis by (simp add: alloc_ids_count distinct_map inj_on_def)
qed

theorem endpoint_ids_distinct_witness: "distinct (fst (alloc_ids 300 \<lparr>ida_next = 0xffffffffffffff00\<rparr>))"
  by (rule endpoint_ids_distinct) simp

text \<open>The identifiers handed out are new as long as the counter has not come round.\<close>

lemma of_nat_fresh: "m < 2 ^ 64 \<Longrightarrow> (of_nat m :: u64) \<notin> of_nat ` {..<m}"
  by (auto simp: word_unat_eq_iff unat_of_nat)

lemma alloc_ids_next: "ida_next (snd (alloc_ids n a)) = ida_next a + of_nat n"
  by (induction n arbitrary: a) (simp_all add: alloc_id_def case_prod_unfold Let_def)

section \<open>Peer names\<close>

lemma dec_word_inj: "dec_word (a :: 'w::len word) = dec_word b \<longleftrightarrow> a = b"
  by (metis dec_word_def digits_val_dec word_unat_eq_iff)

lemma dec_word_no: "of_char d < (48 :: nat) \<or> (57 :: nat) < of_char d \<Longrightarrow> d \<notin> set (dec_word n)"
  unfolding dec_word_def by (rule dec_no)

lemma show_ipv4_no: "CHR ''-'' \<notin> set (show_ipv4 ip)" "CHR ''['' \<notin> set (show_ipv4 ip)"
  by (cases ip, simp add: dec_word_no)+

lemma split_show_ipv4: "split_on CHR ''.'' (show_ipv4 (Ipv4 a b c d)) = [dec_word a, dec_word b, dec_word c, dec_word d]"
  unfolding show_ipv4.simps by (rule split_on_join) (simp_all add: dec_word_no)

lemma show_ipv4_inj: "show_ipv4 a = show_ipv4 b \<longleftrightarrow> a = b"
proof
  assume "show_ipv4 a = show_ipv4 b"
  then have "split_on CHR ''.'' (show_ipv4 a) = split_on CHR ''.'' (show_ipv4 b)" by simp
  then show "a = b" by (cases a; cases b) (simp only: split_show_ipv4 list.inject dec_word_inj)
qed simp

lemma ipv4_port_inj:
  assumes "show_ipv4 ip @ CHR ''-'' # dec_word port = show_ipv4 ip' @ CHR ''-'' # dec_word port'"
  shows "ip = ip' \<and> port = port'"
proof -
  have "split_once CHR ''-'' (show_ipv4 ip @ CHR ''-'' # dec_word port)
      = split_once CHR ''-'' (show_ipv4 ip' @ CHR ''-'' # dec_word port')"
    by (rule arg_cong [OF assms])
  then show ?thesis unfolding split_once_append [OF show_ipv4_no(1)] by (simp add: show_ipv4_inj dec_word_inj)
qed

end
