(* ===== verification/Udp_Server.thy ===== *)
theory Udp_Server
  imports Session Backoff Net_Addr
begin

text \<open>
  The UDP server endpoint, \<^verbatim>\<open>src/endpoint/udp/server.rs\<close>: every sender becomes a routing endpoint
  of its own, with a framer, counters, a queue and a writer task; peers are forgotten when they
  are idle, when the table is full, or at shutdown. The socket is its \<^verbatim>\<open>recv_from\<close> and
  \<^verbatim>\<open>send_to\<close> results, the channels to the router are their \<^verbatim>\<open>send\<close>.
\<close>

section \<open>Data\<close>

definition DEFAULT_IDLE_SECS :: u64 where
  "DEFAULT_IDLE_SECS = 60"

definition DEFAULT_PEER_CAPACITY :: nat where
  "DEFAULT_PEER_CAPACITY = 256"

definition MIN_IDLE_SECS :: u64 where
  "MIN_IDLE_SECS = 1"

definition MAX_IDLE_SECS :: u64 where
  "MAX_IDLE_SECS = 86400"

definition REAP_INTERVAL :: duration where
  "REAP_INTERVAL = 1000000000"

text \<open>A child cancellation token is a number.\<close>

record peer_entry =
  pe_child_id :: endpoint_id
  pe_framer :: framer
  pe_last_seen :: instant
  pe_framer_counters :: framer_counters
  pe_seq_tracker :: seq_tracker
  pe_stats :: nat
  pe_writer_cancel :: nat

record udp_server_endpoint =
  use_bind_addr :: socket_addr
  use_idle_secs :: "u64 option"
  use_identity :: identity_flags

record udp_server_spec =
  uss_listen_addr :: socket_addr
  uss_parent_id :: endpoint_id
  uss_parent_name :: string
  uss_idle_secs :: u64
  uss_peer_capacity :: nat
  uss_reconnect_initial_ms :: u64
  uss_reconnect_max_ms :: u64
  uss_identity :: identity_flags

definition udp_server_from_endpoint :: "udp_server_endpoint \<Rightarrow> endpoint_id \<Rightarrow> string \<Rightarrow> udp_server_spec" where
  "udp_server_from_endpoint ep parent_id parent_name =
     \<lparr>uss_listen_addr = use_bind_addr ep, uss_parent_id = parent_id, uss_parent_name = parent_name,
      uss_idle_secs = (case use_idle_secs ep of Some n \<Rightarrow> n | None \<Rightarrow> DEFAULT_IDLE_SECS),
      uss_peer_capacity = DEFAULT_PEER_CAPACITY,
      uss_reconnect_initial_ms = DEFAULT_RECONNECT_INITIAL_MS, uss_reconnect_max_ms = DEFAULT_RECONNECT_MAX_MS,
      uss_identity = use_identity ep\<rparr>"

text \<open>A writer task that has been spawned.\<close>

record peer_writer =
  pw_addr :: socket_addr
  pw_queue :: tx_queue
  pw_stats :: nat
  pw_cancel :: nat

text \<open>
  The listener's variables, its ends of the two channels, the store shared with the router, and
  the tokens cancelled so far. The table of peers is a hash map: an association list whose order
  is the unspecified iteration order.
\<close>

record ('q, 'c, 'e) udp_server =
  us_peers :: "(socket_addr \<times> peer_entry) list"
  us_alloc :: id_allocator
  us_store :: "'q store"
  us_frame_tx :: 'c
  us_event_tx :: 'e
  us_writers :: "peer_writer list"
  us_next_token :: nat
  us_cancelled :: "nat list"

section \<open>Peers leaving\<close>

text \<open>The common part of eviction, reaping and shutdown: cancel the writer, announce the removal.\<close>

definition retire_peer ::
  "'e send_event \<Rightarrow> endpoint_id \<Rightarrow> peer_removal_reason \<Rightarrow> peer_entry \<Rightarrow> ('q, 'c, 'e) udp_server \<Rightarrow> ('q, 'c, 'e) udp_server" where
  "retire_peer send_event parent_id reason entry u =
     u\<lparr>us_cancelled := pe_writer_cancel entry # us_cancelled u,
       us_event_tx := fst (send_event (PeerRemoved parent_id (pe_child_id entry) reason) (us_event_tx u))\<rparr>"

definition evict_lru_peer :: "'e send_event \<Rightarrow> endpoint_id \<Rightarrow> ('q, 'c, 'e) udp_server \<Rightarrow> ('q, 'c, 'e) udp_server" where
  "evict_lru_peer send_event parent_id u =
     (case min_index (\<lambda>(_, peer). pe_last_seen peer) (us_peers u) of
        None \<Rightarrow> u
      | Some i \<Rightarrow>
          let (victim, entry) = us_peers u ! i
          in retire_peer send_event parent_id Reason_LruEvicted entry (u\<lparr>us_peers := AList.delete victim (us_peers u)\<rparr>))"

definition reap_one ::
  "'e send_event \<Rightarrow> endpoint_id \<Rightarrow> socket_addr \<Rightarrow> ('q, 'c, 'e) udp_server \<Rightarrow> ('q, 'c, 'e) udp_server" where
  "reap_one send_event parent_id addr u =
     (case map_of (us_peers u) addr of
        None \<Rightarrow> u
      | Some entry \<Rightarrow> retire_peer send_event parent_id Reason_Idle entry (u\<lparr>us_peers := AList.delete addr (us_peers u)\<rparr>))"

definition expired_peers :: "instant \<Rightarrow> duration \<Rightarrow> (socket_addr \<times> peer_entry) list \<Rightarrow> socket_addr list" where
  "expired_peers now idle peers = map fst (filter (\<lambda>(addr, entry). now - pe_last_seen entry \<ge> idle) peers)"

definition reap_idle_peers ::
  "'e send_event \<Rightarrow> endpoint_id \<Rightarrow> duration \<Rightarrow> instant \<Rightarrow> ('q, 'c, 'e) udp_server \<Rightarrow> ('q, 'c, 'e) udp_server" where
  "reap_idle_peers send_event parent_id idle now u =
     fold (reap_one send_event parent_id) (expired_peers now idle (us_peers u)) u"

text \<open>\<^verbatim>\<open>drain\<close> empties the map; the writers are then joined.\<close>

definition shutdown_all_peers :: "'e send_event \<Rightarrow> endpoint_id \<Rightarrow> ('q, 'c, 'e) udp_server \<Rightarrow> ('q, 'c, 'e) udp_server" where
  "shutdown_all_peers send_event parent_id u =
     (fold (\<lambda>(addr, entry). retire_peer send_event parent_id Reason_ListenerShutdown entry) (us_peers u)
        (u\<lparr>us_peers := []\<rparr>))\<lparr>us_writers := []\<rparr>"

section \<open>Peers arriving\<close>

definition admit_new_peer ::
  "'q array_queue \<Rightarrow> 'e send_event \<Rightarrow> udp_server_spec \<Rightarrow> instant \<Rightarrow> socket_addr \<Rightarrow> ('q, 'c, 'e) udp_server
   \<Rightarrow> ('q, 'c, 'e) udp_server \<times> bool" where
  "admit_new_peer aq send_event spec now src u =
     (let (child_id, alloc) = alloc_id (us_alloc u);
          (stats, st1) = alloc_stats Connected (us_store u);
          (tx_queue, st2) = tx_new aq DEFAULT_TX_QUEUE_FRAMES stats st1;
          writer_cancel = us_next_token u;
          name = peer_endpoint_name (uss_parent_name spec) src;
          (event_tx, ok) =
            send_event (PeerAdded (uss_parent_id spec) child_id name stats
              \<lparr>ro_tx_queue = tx_queue, ro_identity = uss_identity spec, ro_endpoint_name = uss_parent_name spec\<rparr>) (us_event_tx u);
          u1 = u\<lparr>us_alloc := alloc, us_store := st2, us_next_token := writer_cancel + 1, us_event_tx := event_tx\<rparr>
      in if \<not> ok then (u1, False)
         else
           let u2 = (if length (us_peers u1) \<ge> uss_peer_capacity spec
                     then evict_lru_peer send_event (uss_parent_id spec) u1 else u1);
               u3 = u2\<lparr>us_writers := us_writers u2 @
                      [\<lparr>pw_addr = src, pw_queue = tx_queue, pw_stats = stats, pw_cancel = writer_cancel\<rparr>]\<rparr>;
               entry = \<lparr>pe_child_id = child_id, pe_framer = framer_new, pe_last_seen = now,
                        pe_framer_counters = counters_new, pe_seq_tracker = seq_new SEQ_TRACKER_CAPACITY,
                        pe_stats = stats, pe_writer_cancel = writer_cancel\<rparr>
           in (u3\<lparr>us_peers := AList.update src entry (us_peers u3)\<rparr>, True))"

text \<open>The framing state of one peer together with the shared ends, as a session.\<close>

definition peer_session :: "peer_entry \<Rightarrow> ('q, 'c, 'e) udp_server \<Rightarrow> ('q, 'c) session" where
  "peer_session peer u =
     \<lparr>se_framer = pe_framer peer, se_counters = pe_framer_counters peer, se_tracker = pe_seq_tracker peer,
      se_chan = us_frame_tx u, se_store = us_store u, se_written = []\<rparr>"

definition put_session :: "socket_addr \<Rightarrow> peer_entry \<Rightarrow> ('q, 'c) session \<Rightarrow> ('q, 'c, 'e) udp_server \<Rightarrow> ('q, 'c, 'e) udp_server" where
  "put_session src peer s u =
     u\<lparr>us_peers := AList.update src (peer\<lparr>pe_framer := se_framer s, pe_framer_counters := se_counters s,
         pe_seq_tracker := se_tracker s\<rparr>) (us_peers u),
       us_frame_tx := se_chan s, us_store := se_store s\<rparr>"

definition handle_packet ::
  "msg_table \<Rightarrow> (router_frame \<Rightarrow> 'c \<Rightarrow> 'c \<times> bool) \<Rightarrow> 'q array_queue \<Rightarrow> 'e send_event \<Rightarrow> udp_server_spec \<Rightarrow> instant
   \<Rightarrow> bytes \<Rightarrow> socket_addr \<Rightarrow> ('q, 'c, 'e) udp_server \<Rightarrow> ('q, 'c, 'e) udp_server may_panic" where
  "handle_packet tbl send aq send_event spec now data src u =
     (let (u1, admitted) =
            (if map_of (us_peers u) src = None then admit_new_peer aq send_event spec now src u else (u, True))
      in if \<not> admitted then Some u1
         else case map_of (us_peers u1) src of
           None \<Rightarrow> Some u1
         | Some peer0 \<Rightarrow>
             let peer = peer0\<lparr>pe_last_seen := now, pe_framer := framer_extend (pe_framer peer0) data\<rparr>;
                 ctx = \<lparr>sc_endpoint_id = pe_child_id peer, sc_stats = pe_stats peer,
                        sc_filters = if_filters (uss_identity spec)\<rparr>
             in case forward_inbound_frames tbl send ctx now (peer_session peer u1) of
                  None \<Rightarrow> None
                | Some (s, False) \<Rightarrow> Some (put_session src peer s u1)
                | Some (s, True) \<Rightarrow>
                    let (fc, stats) = counters_sync (se_counters s) (se_framer s) (sto_stats (se_store s) (sc_stats ctx))
                    in Some (put_session src peer ((se_upd ctx (\<lambda>_. stats) s)\<lparr>se_counters := fc\<rparr>) u1))"

section \<open>The writer of a peer\<close>

datatype peer_send = Peer_Sent nat | Peer_Send_Err

record writer_input =
  wi_cancelled :: bool
  wi_send :: peer_send
  wi_pushed :: "bytes list"

text \<open>
  One round: the store, the frames sent so far, and whether the task has returned.
\<close>

definition peer_writer_round ::
  "'q array_queue \<Rightarrow> tx_queue \<Rightarrow> nat \<Rightarrow> writer_input \<Rightarrow> 'q store \<times> bytes list \<Rightarrow> ('q store \<times> bytes list \<times> bool) option" where
  "peer_writer_round aq queue stats i = (\<lambda>(st0, sent).
     let st = push_all aq queue (wi_pushed i) st0
     in if wi_cancelled i then map_option (\<lambda>(st', _). (st', sent, True)) (drain_and_discard aq queue st)
        else case poll_pop_or_wait aq queue st of
          (st', None) \<Rightarrow> Some (st', sent, False)
        | (st', Some frame) \<Rightarrow>
            (case wi_send i of
               Peer_Sent bytes_sent \<Rightarrow> Some (upd_stats stats (add_tx_frame bytes_sent) st', sent @ [frame], False)
             | Peer_Send_Err \<Rightarrow> Some (upd_stats stats (add_dropped_tx 1) st', sent, False)))"

fun run_peer_writer ::
  "'q array_queue \<Rightarrow> tx_queue \<Rightarrow> nat \<Rightarrow> writer_input list \<Rightarrow> 'q store \<times> bytes list \<Rightarrow> ('q store \<times> bytes list \<times> bool) option" where
  "run_peer_writer aq queue stats [] s = Some (fst s, snd s, False)"
| "run_peer_writer aq queue stats (i # is) s =
     (case peer_writer_round aq queue stats i s of
        None \<Rightarrow> None
      | Some (st, sent, True) \<Rightarrow> Some (st, sent, True)
      | Some (st, sent, False) \<Rightarrow> run_peer_writer aq queue stats is (st, sent))"

section \<open>The listener\<close>

datatype packet = Packet bytes socket_addr | Packet_Err

text \<open>
  A round's input: what the socket and the timer give, which writers have finished since, and how
  many ids other tasks took from the shared allocator.
\<close>

record udps_input =
  usi_cancelled :: bool
  usi_tick :: bool
  usi_recv :: "packet option"
  usi_now :: instant
  usi_finished :: "nat list"
  usi_other_ids :: nat

definition reap_finished :: "nat list \<Rightarrow> ('q, 'c, 'e) udp_server \<Rightarrow> ('q, 'c, 'e) udp_server" where
  "reap_finished finished u = u\<lparr>us_writers := filter (\<lambda>w. pw_cancel w \<notin> set finished) (us_writers u)\<rparr>"

definition udps_round ::
  "msg_table \<Rightarrow> (router_frame \<Rightarrow> 'c \<Rightarrow> 'c \<times> bool) \<Rightarrow> 'q array_queue \<Rightarrow> 'e send_event \<Rightarrow> udp_server_spec \<Rightarrow> udps_input
   \<Rightarrow> ('q, 'c, 'e) udp_server \<Rightarrow> (('q, 'c, 'e) udp_server \<times> bool) may_panic" where
  "udps_round tbl send aq send_event spec i u0 =
     (let u = reap_finished (usi_finished i) (u0\<lparr>us_alloc := snd (alloc_ids (usi_other_ids i) (us_alloc u0))\<rparr>)
      in if usi_cancelled i then Some (shutdown_all_peers send_event (uss_parent_id spec) u, True)
         else if usi_tick i then
           Some (reap_idle_peers send_event (uss_parent_id spec) (from_secs (uss_idle_secs spec)) (usi_now i) u, False)
         else case usi_recv i of
           Some (Packet data src) \<Rightarrow>
             map_option (\<lambda>u'. (u', False)) (handle_packet tbl send aq send_event spec (usi_now i) data src u)
         | Some Packet_Err \<Rightarrow> Some (u, False)
         | None \<Rightarrow> Some (u, False))"

fun udps_loop ::
  "msg_table \<Rightarrow> (router_frame \<Rightarrow> 'c \<Rightarrow> 'c \<times> bool) \<Rightarrow> 'q array_queue \<Rightarrow> 'e send_event \<Rightarrow> udp_server_spec \<Rightarrow> udps_input list
   \<Rightarrow> ('q, 'c, 'e) udp_server \<Rightarrow> (('q, 'c, 'e) udp_server \<times> bool) may_panic" where
  "udps_loop tbl send aq send_event spec [] u = Some (u, False)"
| "udps_loop tbl send aq send_event spec (i # is) u =
     (case udps_round tbl send aq send_event spec i u of
        None \<Rightarrow> None
      | Some (u', True) \<Rightarrow> Some (u', True)
      | Some (u', False) \<Rightarrow> udps_loop tbl send aq send_event spec is u')"

definition udps_new :: "id_allocator \<Rightarrow> 'q store \<Rightarrow> 'c \<Rightarrow> 'e \<Rightarrow> ('q, 'c, 'e) udp_server" where
  "udps_new alloc st frame_tx event_tx =
     \<lparr>us_peers = [], us_alloc = alloc, us_store = st, us_frame_tx = frame_tx, us_event_tx = event_tx,
      us_writers = [], us_next_token = 0, us_cancelled = []\<rparr>"

text \<open>
  \<^verbatim>\<open>run_inner\<close>: bind with retries, become connected, then loop. The inner \<^term>\<open>None\<close> is a
  cancelled bind.
\<close>

definition udps_run_inner ::
  "nat \<Rightarrow> cancel_token \<Rightarrow> (socket_addr \<Rightarrow> nat \<Rightarrow> ('x, 's) res) \<Rightarrow> duration option \<Rightarrow> instant
   \<Rightarrow> msg_table \<Rightarrow> (router_frame \<Rightarrow> 'c \<Rightarrow> 'c \<times> bool) \<Rightarrow> 'q array_queue \<Rightarrow> 'e send_event \<Rightarrow> udp_server_spec \<Rightarrow> nat
   \<Rightarrow> udps_input list \<Rightarrow> id_allocator \<Rightarrow> 'q store \<Rightarrow> 'c \<Rightarrow> 'e \<Rightarrow> (('q, 'c, 'e) udp_server \<times> bool) option option" where
  "udps_run_inner fuel cancel bind_udp clock now tbl send aq send_event spec stats is alloc st frame_tx event_tx =
     (case bind_with_backoff fuel cancel (bind_udp (uss_listen_addr spec)) 0
             (backoff_new (uss_reconnect_initial_ms spec) (uss_reconnect_max_ms spec) clock) now of
        None \<Rightarrow> None
      | Some (Cancelled, _, _) \<Rightarrow> Some None
      | Some (Bound socket, _, _) \<Rightarrow>
          map_option Some (udps_loop tbl send aq send_event spec is
            (udps_new alloc (upd_stats stats (store_state Connected) st) frame_tx event_tx)))"

end
