(* ===== verification/Udp_Client.thy ===== *)
theory Udp_Client
  imports Session Backoff Net_Addr
begin

text \<open>
  The UDP client endpoint, \<^verbatim>\<open>src/endpoint/udp/client.rs\<close>: it sends to the configured host until a
  reply from one of the host's addresses latches it onto the exact sender, and falls back when
  that sender has been silent for a while. Name resolution and the socket are parameters: the
  result of \<^verbatim>\<open>lookup_host\<close> for a \<^verbatim>\<open>host:port\<close> text, of \<^verbatim>\<open>recv_from\<close> and of \<^verbatim>\<open>send_to\<close>.
\<close>

section \<open>Data\<close>

definition DEFAULT_LATCH_IDLE_SECS :: u64 where
  "DEFAULT_LATCH_IDLE_SECS = 30"

definition MIN_LATCH_IDLE_SECS :: u64 where
  "MIN_LATCH_IDLE_SECS = 1"

definition MAX_LATCH_IDLE_SECS :: u64 where
  "MAX_LATCH_IDLE_SECS = 86400"

definition REVERT_TICK :: duration where
  "REVERT_TICK = 1000000000"

definition MAX_DATAGRAM_BYTES :: nat where
  "MAX_DATAGRAM_BYTES = 65536"

record udp_client_endpoint =
  uce_host :: string
  uce_port :: u16
  uce_latch_idle_secs :: "u64 option"
  uce_identity :: identity_flags

record udp_client_spec =
  ucs_host :: string
  ucs_port :: u16
  ucs_endpoint_id :: endpoint_id
  ucs_name :: string
  ucs_latch_idle_secs :: u64
  ucs_reconnect_initial_ms :: u64
  ucs_reconnect_max_ms :: u64
  ucs_identity :: identity_flags

definition udp_client_from_endpoint :: "udp_client_endpoint \<Rightarrow> endpoint_id \<Rightarrow> string \<Rightarrow> udp_client_spec" where
  "udp_client_from_endpoint ep endpoint_id name =
     \<lparr>ucs_host = uce_host ep, ucs_port = uce_port ep, ucs_endpoint_id = endpoint_id, ucs_name = name,
      ucs_latch_idle_secs = (case uce_latch_idle_secs ep of Some n \<Rightarrow> n | None \<Rightarrow> DEFAULT_LATCH_IDLE_SECS),
      ucs_reconnect_initial_ms = DEFAULT_RECONNECT_INITIAL_MS,
      ucs_reconnect_max_ms = DEFAULT_RECONNECT_MAX_MS, ucs_identity = uce_identity ep\<rparr>"

record latch_info =
  la_addr :: socket_addr
  la_last_inbound :: instant

record destination =
  de_host :: string
  de_port :: u16
  de_resolved_ips :: "ip_addr list"
  de_latch :: "latch_info option"

definition current_target :: "destination \<Rightarrow> socket_addr option" where
  "current_target dest =
     (case de_latch dest of
        Some latch \<Rightarrow> Some (la_addr latch)
      | None \<Rightarrow> (case de_resolved_ips dest of [] \<Rightarrow> None | ip # _ \<Rightarrow> Some (sa_new ip (de_port dest))))"

datatype inbound_decision = AcceptAndLatch | AcceptUpdate | Reject

fun canonical_ip :: "ip_addr \<Rightarrow> ip_addr" where
  "canonical_ip (IpV6 v6) = (case to_ipv4_mapped v6 of Some v4 \<Rightarrow> IpV4 v4 | None \<Rightarrow> IpV6 v6)"
| "canonical_ip (IpV4 v4) = IpV4 v4"

definition classify_inbound :: "destination \<Rightarrow> ip_addr \<Rightarrow> inbound_decision" where
  "classify_inbound dest src_ip =
     (let src = canonical_ip src_ip
      in case de_latch dest of
           Some latch \<Rightarrow> if canonical_ip (sa_ip (la_addr latch)) = src then AcceptUpdate else Reject
         | None \<Rightarrow>
             if list_ex (\<lambda>ip. canonical_ip ip = src) (de_resolved_ips dest) then AcceptAndLatch else Reject)"

definition pick_local_bind :: "ip_addr list \<Rightarrow> socket_addr" where
  "pick_local_bind resolved_ips =
     (if resolved_ips = [] \<or> list_ex is_ipv6 resolved_ips
      then sa_new (IpV6 (Ipv6 0 0 0 0 0 0 0 0)) 0 else sa_new (IpV4 (Ipv4 0 0 0 0)) 0)"

section \<open>Resolution and binding\<close>

type_synonym lookup_host = "string \<Rightarrow> socket_addr list option"

definition resolve_host :: "lookup_host \<Rightarrow> string \<Rightarrow> u16 \<Rightarrow> ip_addr list" where
  "resolve_host lookup host port =
     (case lookup (host @ '':'' @ dec_word port) of
        Some addrs \<Rightarrow> map sa_ip addrs
      | None \<Rightarrow> [])"

definition bind_local_socket ::
  "nat \<Rightarrow> lookup_host \<Rightarrow> (socket_addr \<Rightarrow> nat \<Rightarrow> ('e, 's) res) \<Rightarrow> duration option \<Rightarrow> cancel_token \<Rightarrow> instant \<Rightarrow> udp_client_spec
   \<Rightarrow> ('s \<times> destination) option option" where
  "bind_local_socket fuel lookup bind_udp clock cancel now spec =
     (let initial_ips = resolve_host lookup (ucs_host spec) (ucs_port spec);
          dest = \<lparr>de_host = ucs_host spec, de_port = ucs_port spec, de_resolved_ips = initial_ips, de_latch = None\<rparr>;
          backoff = backoff_new (ucs_reconnect_initial_ms spec) (ucs_reconnect_max_ms spec) clock;
          local_bind = pick_local_bind (de_resolved_ips dest)
      in case bind_with_backoff fuel cancel (bind_udp local_bind) 0 backoff now of
           None \<Rightarrow> None
         | Some (Bound socket, _, _) \<Rightarrow> Some (Some (socket, dest))
         | Some (Cancelled, _, _) \<Rightarrow> Some None)"

section \<open>Events\<close>

text \<open>
  The state of the event loop: the destination, the framing state with the store and the channel
  to the router (the record of a session), and the datagrams sent so far.
\<close>

record ('q, 'c) udp_client =
  uc_dest :: destination
  uc_session :: "('q, 'c) session"
  uc_sent :: "(socket_addr \<times> bytes) list"

definition set_state :: "session_ctx \<Rightarrow> endpoint_state \<Rightarrow> ('q, 'c) session \<Rightarrow> ('q, 'c) session" where
  "set_state ctx state s = se_upd ctx (store_state state) s"

definition udpc_handle_inbound ::
  "msg_table \<Rightarrow> (router_frame \<Rightarrow> 'c \<Rightarrow> 'c \<times> bool) \<Rightarrow> session_ctx \<Rightarrow> instant \<Rightarrow> bytes \<Rightarrow> socket_addr \<Rightarrow> ('q, 'c) udp_client
   \<Rightarrow> ('q, 'c) udp_client may_panic" where
  "udpc_handle_inbound tbl send ctx now data src u =
     (let go = (\<lambda>dest.
            let s1 = set_state ctx Connected (uc_session u);
                s2 = s1\<lparr>se_framer := framer_extend (se_framer s1) data\<rparr>
            in case forward_inbound_frames tbl send ctx now s2 of
                 None \<Rightarrow> None
               | Some (s3, False) \<Rightarrow> Some (u\<lparr>uc_dest := dest, uc_session := s3\<rparr>)
               | Some (s3, True) \<Rightarrow>
                   let (fc, stats) = counters_sync (se_counters s3) (se_framer s3) (sto_stats (se_store s3) (sc_stats ctx))
                   in Some (u\<lparr>uc_dest := dest, uc_session := (se_upd ctx (\<lambda>_. stats) s3)\<lparr>se_counters := fc\<rparr>\<rparr>))
      in case classify_inbound (uc_dest u) (sa_ip src) of
           Reject \<Rightarrow>
             Some (u\<lparr>uc_session := se_upd ctx (\<lambda>st. st\<lparr>es_in_filter_drops := es_in_filter_drops st + 1\<rparr>) (uc_session u)\<rparr>)
         | AcceptAndLatch \<Rightarrow> go ((uc_dest u)\<lparr>de_latch := Some \<lparr>la_addr = src, la_last_inbound = now\<rparr>\<rparr>)
         | AcceptUpdate \<Rightarrow>
             go ((uc_dest u)\<lparr>de_latch := map_option (\<lambda>latch. latch\<lparr>la_addr := src, la_last_inbound := now\<rparr>) (de_latch (uc_dest u))\<rparr>))"

definition re_resolve :: "lookup_host \<Rightarrow> destination \<Rightarrow> destination" where
  "re_resolve lookup dest =
     (let fresh = resolve_host lookup (de_host dest) (de_port dest)
      in if fresh \<noteq> [] then dest\<lparr>de_resolved_ips := fresh\<rparr> else dest)"

text \<open>\<^verbatim>\<open>send_to\<close> gives the number of bytes sent, or an error.\<close>

definition udpc_send_frame ::
  "lookup_host \<Rightarrow> nat option \<Rightarrow> session_ctx \<Rightarrow> bytes \<Rightarrow> ('q, 'c) udp_client \<Rightarrow> ('q, 'c) udp_client" where
  "udpc_send_frame lookup send_to ctx frame u =
     (case current_target (uc_dest u) of
        None \<Rightarrow>
          let u1 = u\<lparr>uc_dest := re_resolve lookup (uc_dest u)\<rparr>
          in if current_target (uc_dest u1) = None
             then u1\<lparr>uc_session := set_state ctx Reconnecting (uc_session u1)\<rparr> else u1
      | Some target \<Rightarrow>
          (case send_to of
             Some bytes_sent \<Rightarrow>
               u\<lparr>uc_session := set_state ctx Connected (se_upd ctx (add_tx_frame bytes_sent) (uc_session u)),
                 uc_sent := uc_sent u @ [(target, frame)]\<rparr>
           | None \<Rightarrow>
               u\<lparr>uc_dest := re_resolve lookup (uc_dest u), uc_session := set_state ctx Reconnecting (uc_session u)\<rparr>))"

definition check_latch_idle :: "lookup_host \<Rightarrow> instant \<Rightarrow> duration \<Rightarrow> destination \<Rightarrow> destination" where
  "check_latch_idle lookup now idle dest =
     (case de_latch dest of
        None \<Rightarrow> dest
      | Some latch \<Rightarrow>
          if now - la_last_inbound latch < idle then dest
          else (re_resolve lookup dest)\<lparr>de_latch := None\<rparr>)"

datatype udp_recv = Datagram bytes socket_addr | Recv_Err

record udpc_input =
  ui_cancelled :: bool
  ui_tick :: bool
  ui_recv :: "udp_recv option"
  ui_send_to :: "nat option"
  ui_lookup :: lookup_host
  ui_now :: instant
  ui_pushed :: "bytes list"

text \<open>A round of the select; the second component tells whether the task has returned.\<close>

definition udpc_round ::
  "msg_table \<Rightarrow> (router_frame \<Rightarrow> 'c \<Rightarrow> 'c \<times> bool) \<Rightarrow> 'q array_queue \<Rightarrow> udp_client_spec \<Rightarrow> session_ctx \<Rightarrow> tx_queue \<Rightarrow> udpc_input
   \<Rightarrow> ('q, 'c) udp_client \<Rightarrow> (('q, 'c) udp_client \<times> bool) may_panic" where
  "udpc_round tbl send aq spec ctx tq i u0 =
     (let s0 = uc_session u0;
          u = u0\<lparr>uc_session := s0\<lparr>se_store := push_all aq tq (ui_pushed i) (se_store s0)\<rparr>\<rparr>
      in if ui_cancelled i then
           map_option (\<lambda>(st, _). (u\<lparr>uc_session := (uc_session u)\<lparr>se_store := st\<rparr>\<rparr>, True))
             (drain_and_discard aq tq (se_store (uc_session u)))
         else if ui_tick i then
           Some (u\<lparr>uc_dest := check_latch_idle (ui_lookup i) (ui_now i) (from_secs (ucs_latch_idle_secs spec)) (uc_dest u)\<rparr>, False)
         else case ui_recv i of
           Some (Datagram data src) \<Rightarrow> map_option (\<lambda>u'. (u', False)) (udpc_handle_inbound tbl send ctx (ui_now i) data src u)
         | Some Recv_Err \<Rightarrow> Some (u, False)
         | None \<Rightarrow>
             (case poll_pop_or_wait aq tq (se_store (uc_session u)) of
                (st, None) \<Rightarrow> Some (u\<lparr>uc_session := (uc_session u)\<lparr>se_store := st\<rparr>\<rparr>, False)
              | (st, Some frame) \<Rightarrow>
                  Some (udpc_send_frame (ui_lookup i) (ui_send_to i) ctx frame
                          (u\<lparr>uc_session := (uc_session u)\<lparr>se_store := st\<rparr>\<rparr>), False)))"

fun udpc_event_loop ::
  "msg_table \<Rightarrow> (router_frame \<Rightarrow> 'c \<Rightarrow> 'c \<times> bool) \<Rightarrow> 'q array_queue \<Rightarrow> udp_client_spec \<Rightarrow> session_ctx \<Rightarrow> tx_queue \<Rightarrow> udpc_input list
   \<Rightarrow> ('q, 'c) udp_client \<Rightarrow> (('q, 'c) udp_client \<times> bool) may_panic" where
  "udpc_event_loop tbl send aq spec ctx tq [] u = Some (u, False)"
| "udpc_event_loop tbl send aq spec ctx tq (i # is) u =
     (case udpc_round tbl send aq spec ctx tq i u of
        None \<Rightarrow> None
      | Some (u', True) \<Rightarrow> Some (u', True)
      | Some (u', False) \<Rightarrow> udpc_event_loop tbl send aq spec ctx tq is u')"

definition udpc_new :: "destination \<Rightarrow> session_ctx \<Rightarrow> 'c \<Rightarrow> 'q store \<Rightarrow> ('q, 'c) udp_client" where
  "udpc_new dest ctx ch st =
     \<lparr>uc_dest = dest, uc_session = session_new ch (upd_stats (sc_stats ctx) (store_state Connected) st), uc_sent = []\<rparr>"

text \<open>\<^verbatim>\<open>run_inner\<close>: bind, become connected, run the loop. The inner \<^term>\<open>None\<close> is a cancelled bind.\<close>

definition udpc_run_inner ::
  "nat \<Rightarrow> lookup_host \<Rightarrow> (socket_addr \<Rightarrow> nat \<Rightarrow> ('e, 's) res) \<Rightarrow> duration option \<Rightarrow> cancel_token \<Rightarrow> instant
   \<Rightarrow> msg_table \<Rightarrow> (router_frame \<Rightarrow> 'c \<Rightarrow> 'c \<times> bool) \<Rightarrow> 'q array_queue \<Rightarrow> udp_client_spec \<Rightarrow> nat \<Rightarrow> tx_queue
   \<Rightarrow> udpc_input list \<Rightarrow> 'c \<Rightarrow> 'q store \<Rightarrow> (('q, 'c) udp_client \<times> bool) option option" where
  "udpc_run_inner fuel lookup bind_udp clock cancel now tbl send aq spec stats tq is ch st =
     (case bind_local_socket fuel lookup bind_udp clock cancel now spec of
        None \<Rightarrow> None
      | Some None \<Rightarrow> Some None
      | Some (Some (socket, dest)) \<Rightarrow>
          let ctx = \<lparr>sc_endpoint_id = ucs_endpoint_id spec, sc_stats = stats, sc_filters = if_filters (ucs_identity spec)\<rparr>
          in map_option Some (udpc_event_loop tbl send aq spec ctx tq is (udpc_new dest ctx ch st)))"

section \<open>Whom the client talks to\<close>

text \<open>The destination and the datagrams sent only ever involve addresses in \<^term>\<open>R\<close>.\<close>

definition dest_within :: "ip_addr set \<Rightarrow> destination \<Rightarrow> bool" where
  "dest_within R dest \<longleftrightarrow> canonical_ip ` set (de_resolved_ips dest) \<subseteq> R
     \<and> (\<forall>latch. de_latch dest = Some latch \<longrightarrow> canonical_ip (sa_ip (la_addr latch)) \<in> R)"

definition udpc_within :: "ip_addr set \<Rightarrow> ('q, 'c) udp_client \<Rightarrow> bool" where
  "udpc_within R u \<longleftrightarrow> dest_within R (uc_dest u) \<and> (\<forall>(t, f) \<in> set (uc_sent u). canonical_ip (sa_ip t) \<in> R)"

definition lookup_within :: "ip_addr set \<Rightarrow> destination \<Rightarrow> lookup_host \<Rightarrow> bool" where
  "lookup_within R dest lookup \<longleftrightarrow> canonical_ip ` set (resolve_host lookup (de_host dest) (de_port dest)) \<subseteq> R"

lemma sa_ip_new [simp]: "sa_ip (sa_new ip port) = ip"
  by (cases ip) simp_all

lemma target_within: "dest_within R dest \<Longrightarrow> current_target dest = Some t \<Longrightarrow> canonical_ip (sa_ip t) \<in> R"
  by (auto simp: dest_within_def current_target_def split: option.splits list.splits)

lemma re_resolve_within: "dest_within R dest \<Longrightarrow> lookup_within R dest lookup \<Longrightarrow> dest_within R (re_resolve lookup dest)"
  by (auto simp: dest_within_def lookup_within_def re_resolve_def Let_def)

lemma re_resolve_host [simp]:
  "de_host (re_resolve lookup dest) = de_host dest" "de_port (re_resolve lookup dest) = de_port dest"
  "de_latch (re_resolve lookup dest) = de_latch dest"
  by (simp_all add: re_resolve_def Let_def)

lemma check_latch_within:
  "dest_within R dest \<Longrightarrow> lookup_within R dest lookup \<Longrightarrow> dest_within R (check_latch_idle lookup now idle dest)"
  using re_resolve_within [of R dest lookup]
  by (auto simp: check_latch_idle_def dest_within_def split: option.splits)

lemma classify_within:
  "dest_within R dest \<Longrightarrow> canonical_ip src \<notin> R \<Longrightarrow> classify_inbound dest src = Reject"
  by (auto simp: classify_inbound_def dest_within_def list_ex_iff Let_def split: option.splits)

lemma classify_accept_within:
  "dest_within R dest \<Longrightarrow> classify_inbound dest src \<noteq> Reject \<Longrightarrow> canonical_ip src \<in> R"
  using classify_within by blast

text \<open>What the operations leave of the destination.\<close>

lemma handle_inbound_dest:
  assumes "udpc_handle_inbound tbl send ctx now data src u = Some u'"
  shows "uc_sent u' = uc_sent u \<and> uc_dest u' =
    (case classify_inbound (uc_dest u) (sa_ip src) of
       Reject \<Rightarrow> uc_dest u
     | _ \<Rightarrow> (uc_dest u)\<lparr>de_latch := Some \<lparr>la_addr = src, la_last_inbound = now\<rparr>\<rparr>)"
proof -
  have latch: "classify_inbound (uc_dest u) (sa_ip src) = AcceptUpdate \<Longrightarrow> \<exists>l. de_latch (uc_dest u) = Some l"
    by (auto simp: classify_inbound_def Let_def split: option.splits if_splits)
  show ?thesis
  proof (cases "classify_inbound (uc_dest u) (sa_ip src)")
    case AcceptUpdate
    with latch obtain l where "de_latch (uc_dest u) = Some l" by blast
    with assms AcceptUpdate show ?thesis
      by (auto simp: udpc_handle_inbound_def Let_def split: option.splits bool.splits prod.splits)
  qed (use assms in \<open>auto simp: udpc_handle_inbound_def Let_def split: option.splits bool.splits prod.splits\<close>)
qed

lemma send_frame_dest:
  "de_host (uc_dest (udpc_send_frame lookup r ctx frame u)) = de_host (uc_dest u)"
  "de_port (uc_dest (udpc_send_frame lookup r ctx frame u)) = de_port (uc_dest u)"
  by (auto simp: udpc_send_frame_def Let_def split: option.splits)

lemma check_latch_host [simp]:
  "de_host (check_latch_idle lookup now idle dest) = de_host dest" "de_port (check_latch_idle lookup now idle dest) = de_port dest"
  by (auto simp: check_latch_idle_def split: option.splits)

lemma send_frame_within:
  assumes "udpc_within R u" and "lookup_within R (uc_dest u) lookup"
  shows "udpc_within R (udpc_send_frame lookup r ctx frame u)"
  using assms re_resolve_within [of R "uc_dest u" lookup] target_within [of R "uc_dest u"]
  by (auto simp: udpc_send_frame_def udpc_within_def Let_def split: option.splits)

lemma udpc_round_within:
  assumes "udpc_within R u" and "lookup_within R (uc_dest u) (ui_lookup i)"
    and "udpc_round tbl send aq spec ctx tq i u = Some (u', fin)"
  shows "udpc_within R u' \<and> de_host (uc_dest u') = de_host (uc_dest u) \<and> de_port (uc_dest u') = de_port (uc_dest u)"
proof -
  define u1 where "u1 = u\<lparr>uc_session := (uc_session u)\<lparr>se_store := push_all aq tq (ui_pushed i) (se_store (uc_session u))\<rparr>\<rparr>"
  have same: "uc_dest u1 = uc_dest u" "uc_sent u1 = uc_sent u" by (simp_all add: u1_def)
  note round = assms(3) [unfolded udpc_round_def Let_def, folded u1_def]
  have "udpc_within R u'' \<and> de_host (uc_dest u'') = de_host (uc_dest u) \<and> de_port (uc_dest u'') = de_port (uc_dest u)"
    if "udpc_handle_inbound tbl send ctx now data src u1 = Some u''" for now data src u''
    using handle_inbound_dest [OF that] assms(1) classify_accept_within [of R "uc_dest u" "sa_ip src"]
    by (auto simp: udpc_within_def dest_within_def same split: inbound_decision.splits)
  moreover have "udpc_within R (udpc_send_frame (ui_lookup i) r ctx frame (u1\<lparr>uc_session := x\<rparr>))" for r frame x
    using assms(1,2) by (intro send_frame_within) (simp_all add: udpc_within_def same)
  moreover have "udpc_within R (u1\<lparr>uc_dest := check_latch_idle (ui_lookup i) (ui_now i) idle (uc_dest u1)\<rparr>)" for idle
    using assms(1,2) by (simp add: udpc_within_def same check_latch_within)
  moreover have "udpc_within R (u1\<lparr>uc_session := x\<rparr>)" "udpc_within R u1" for x using assms(1) by (simp_all add: udpc_within_def same)
  ultimately show ?thesis
    using round same by (auto simp: send_frame_dest split: if_splits option.splits udp_recv.splits prod.splits)
qed

lemma udpc_loop_within:
  "udpc_within R u \<Longrightarrow> \<forall>i \<in> set is. lookup_within R (uc_dest u) (ui_lookup i) \<Longrightarrow>
   udpc_event_loop tbl send aq spec ctx tq is u = Some (u', fin) \<Longrightarrow> udpc_within R u'"
proof (induction "is" arbitrary: u)
  case (Cons i "is")
  from Cons.prems(3) obtain u1 f1 where r: "udpc_round tbl send aq spec ctx tq i u = Some (u1, f1)"
    by (auto split: option.splits)
  from udpc_round_within [OF Cons.prems(1) _ r] Cons.prems(2)
  have w: "udpc_within R u1" "de_host (uc_dest u1) = de_host (uc_dest u)" "de_port (uc_dest u1) = de_port (uc_dest u)" by auto
  with Cons.IH [OF w(1)] Cons.prems(2,3) r show ?case
    by (cases f1) (auto simp: lookup_within_def)
qed simp

text \<open>
  C29. A UDP client talks only to its host: over any run, with \<^verbatim>\<open>R\<close> the addresses the host name
  resolved to before and during the run (up to IPv4-mapped forms), every datagram is sent to an
  address in \<^verbatim>\<open>R\<close>, the current target is in \<^verbatim>\<open>R\<close>, and a datagram from any other source has no
  effect at all but for being counted as an inbound drop: it neither reaches the framer nor moves
  the latch.
\<close>

theorem udpc_talks_only_to_host:
  assumes "udpc_event_loop tbl send aq spec ctx tq is (udpc_new dest ctx ch st) = Some (u, fin)"
    and "de_latch dest = None" and "canonical_ip ` set (de_resolved_ips dest) \<subseteq> R"
    and "\<forall>i \<in> set is. canonical_ip ` set (resolve_host (ui_lookup i) (de_host dest) (de_port dest)) \<subseteq> R"
  shows "(\<forall>(t, frame) \<in> set (uc_sent u). canonical_ip (sa_ip t) \<in> R)
    \<and> (\<forall>t. current_target (uc_dest u) = Some t \<longrightarrow> canonical_ip (sa_ip t) \<in> R)
    \<and> (\<forall>now data src. canonical_ip (sa_ip src) \<notin> R \<longrightarrow>
        udpc_handle_inbound tbl send ctx now data src u =
          Some (u\<lparr>uc_session := se_upd ctx (\<lambda>st. st\<lparr>es_in_filter_drops := es_in_filter_drops st + 1\<rparr>) (uc_session u)\<rparr>))"
proof -
  have "udpc_within R (udpc_new dest ctx ch st)"
    using assms(2,3) by (simp add: udpc_within_def udpc_new_def dest_within_def)
  from udpc_loop_within [OF this _ assms(1)] assms(4) have u: "udpc_within R u"
    by (auto simp: lookup_within_def udpc_new_def)
  then have dest: "dest_within R (uc_dest u)" by (simp add: udpc_within_def)
  with u show ?thesis
    by (auto simp: udpc_within_def target_within udpc_handle_inbound_def classify_within)
qed

definition demo_host :: ipv4 where
  "demo_host = Ipv4 192 168 144 15"

definition demo_udpc_input :: "udp_recv option \<Rightarrow> bytes list \<Rightarrow> udpc_input" where
  "demo_udpc_input r frames = \<lparr>ui_cancelled = False, ui_tick = False, ui_recv = r, ui_send_to = Some 3,
     ui_lookup = (\<lambda>_. None), ui_now = 7, ui_pushed = frames\<rparr>"

definition demo_udpc_run :: "((nat \<times> bytes list, router_frame list) udp_client \<times> bool) option" where
  "demo_udpc_run = udpc_event_loop [] (\<lambda>f c. (c @ [f], True)) list_queue
     (udp_client_from_endpoint \<lparr>uce_host = ''fc'', uce_port = 14550, uce_latch_idle_secs = None, uce_identity = identity_default\<rparr> 5 ''up'')
     \<lparr>sc_endpoint_id = 5, sc_stats = 0, sc_filters = filters_default\<rparr> \<lparr>tq_inner = 0, tq_notify = 0, tq_stats = 0\<rparr>
     [demo_udpc_input (Some (Datagram [1, 2] (SocketV6 (Ipv6 0 0 0 0 0 0xffff 0xc0a8 0x900f) 9999 0 0))) [],
      demo_udpc_input None [[4, 5, 6]]]
     (udpc_new \<lparr>de_host = ''fc'', de_port = 14550, de_resolved_ips = [IpV4 demo_host], de_latch = None\<rparr>
        \<lparr>sc_endpoint_id = 5, sc_stats = 0, sc_filters = filters_default\<rparr> []
        \<lparr>sto_stats = (\<lambda>_. stats_new Reconnecting), sto_queue = (\<lambda>_. (2, [])), sto_notified = (\<lambda>_. 0), sto_next = 1\<rparr>)"

lemma demo_udpc_sent:
  "map_option (\<lambda>(u, fin). (uc_sent u, fin)) demo_udpc_run =
     Some ([(SocketV6 (Ipv6 0 0 0 0 0 0xffff 0xc0a8 0x900f) 9999 0 0, [4, 5, 6])], False)"
  by code_simp

theorem udpc_talks_only_to_host_witness:
  "\<exists>u fin. demo_udpc_run = Some (u, fin) \<and> uc_sent u \<noteq> []
    \<and> (\<forall>(t, frame) \<in> set (uc_sent u). canonical_ip (sa_ip t) = IpV4 demo_host)"
proof -
  obtain u fin where u: "demo_udpc_run = Some (u, fin)" "uc_sent u \<noteq> []"
    using demo_udpc_sent by (cases demo_udpc_run) auto
  have none: "resolve_host (\<lambda>_. None) h p = []" for h p by (simp add: resolve_host_def)
  have "\<forall>(t, frame) \<in> set (uc_sent u). canonical_ip (sa_ip t) \<in> {IpV4 demo_host}"
    by (rule conjunct1 [OF udpc_talks_only_to_host [OF u(1) [unfolded demo_udpc_run_def]]])
      (simp_all add: demo_udpc_input_def none)
  with u show ?thesis by auto
qed

section \<open>The latch\<close>

lemma canonical_idem: "canonical_ip (canonical_ip ip) = canonical_ip ip"
  by (cases ip) (auto split: option.split)

text \<open>
  C33. The latch follows the sender and lets go again. An accepted datagram makes its exact source
  the target, and while it is latched only that host is accepted, from any port. After
  \<^verbatim>\<open>latch_idle_secs\<close> without a datagram the next tick drops the latch and the target is the first
  address of a fresh resolution, or of the last successful one; before that the tick changes
  nothing.
\<close>

theorem udpc_latch_follows_and_reverts:
  assumes "udpc_handle_inbound tbl send ctx now data src u = Some u'" and "classify_inbound (uc_dest u) (sa_ip src) \<noteq> Reject"
    and "de_resolved_ips (uc_dest u) \<noteq> []"
  shows "current_target (uc_dest u') = Some src
    \<and> (\<forall>other. classify_inbound (uc_dest u') (sa_ip other) =
        (if canonical_ip (sa_ip other) = canonical_ip (sa_ip src) then AcceptUpdate else Reject))
    \<and> (\<forall>later lookup. later - now < idle \<longrightarrow> check_latch_idle lookup later idle (uc_dest u') = uc_dest u')
    \<and> (\<forall>later lookup. idle \<le> later - now \<longrightarrow>
        current_target (check_latch_idle lookup later idle (uc_dest u')) =
          Some (sa_new (hd (resolve_host lookup (de_host (uc_dest u)) (de_port (uc_dest u)) @ de_resolved_ips (uc_dest u)))
                 (de_port (uc_dest u))))"
proof -
  have "uc_dest u' = (uc_dest u)\<lparr>de_latch := Some \<lparr>la_addr = src, la_last_inbound = now\<rparr>\<rparr>"
    using handle_inbound_dest [OF assms(1)] assms(2) by (auto split: inbound_decision.splits)
  with assms(3) show ?thesis
    by (auto simp: current_target_def classify_inbound_def check_latch_idle_def re_resolve_def Let_def hd_append
        neq_Nil_conv split: list.splits)
qed

theorem udpc_latch_follows_and_reverts_witness:
  "\<exists>u'. udpc_handle_inbound [] (\<lambda>f c. (c @ [f], True)) \<lparr>sc_endpoint_id = 5, sc_stats = 0, sc_filters = filters_default\<rparr> 7 [1, 2]
      (SocketV4 demo_host 9999)
      (udpc_new \<lparr>de_host = ''fc'', de_port = 14550, de_resolved_ips = [IpV4 demo_host], de_latch = None\<rparr>
        \<lparr>sc_endpoint_id = 5, sc_stats = 0, sc_filters = filters_default\<rparr> []
        \<lparr>sto_stats = (\<lambda>_. stats_new Reconnecting), sto_queue = (\<lambda>_. (2 :: nat, [] :: bytes list)), sto_notified = (\<lambda>_. 0), sto_next = 1\<rparr>) = Some u'
    \<and> current_target (uc_dest u') = Some (SocketV4 demo_host 9999)"
proof -
  let ?ctx = "\<lparr>sc_endpoint_id = 5, sc_stats = 0, sc_filters = filters_default\<rparr>"
  let ?u = "udpc_new \<lparr>de_host = ''fc'', de_port = 14550, de_resolved_ips = [IpV4 demo_host], de_latch = None\<rparr> ?ctx []
        \<lparr>sto_stats = (\<lambda>_. stats_new Reconnecting), sto_queue = (\<lambda>_. (2 :: nat, [] :: bytes list)), sto_notified = (\<lambda>_. 0), sto_next = 1\<rparr>"
  have "map_option (\<lambda>_. True) (udpc_handle_inbound [] (\<lambda>f c. (c @ [f], True)) ?ctx 7 [1, 2] (SocketV4 demo_host 9999) ?u) = Some True"
    by code_simp
  then obtain u' where "udpc_handle_inbound [] (\<lambda>f c. (c @ [f], True)) ?ctx 7 [1, 2] (SocketV4 demo_host 9999) ?u = Some u'" by auto
  with udpc_latch_follows_and_reverts [OF this, of 0] show ?thesis
    by (auto simp: udpc_new_def classify_inbound_def Let_def)
qed

text \<open>
  An inbound datagram never triggers a resolution: a client whose host has not resolved yet
  rejects every datagram and stays unresolved.
\<close>

lemma udpc_inbound_never_resolves:
  assumes "de_resolved_ips (uc_dest u) = []" and "de_latch (uc_dest u) = None"
    and "udpc_handle_inbound tbl send ctx now data src u = Some u'"
  shows "uc_dest u' = uc_dest u"
  using handle_inbound_dest [OF assms(3)] assms(1,2) by (simp add: classify_inbound_def Let_def)

end
