(* ===== verification/Router_Correct.thy ===== *)
theory Router_Correct
  imports Router
begin

text \<open>
  What the router guarantees over all runs: the consistency of registry, groups and learn
  tables, exact delivery of each frame, loop prevention, suppression, and shutdown.
\<close>

declare map_of_eq_Some_iff [simp del]

section \<open>Registry lists\<close>

definition endpoint_group :: "registered_endpoint \<Rightarrow> string option" where
  "endpoint_group ep = Option.bind (re_routable ep) (\<lambda>rs. if_group (rs_identity rs))"

definition endpoint_queue :: "registered_endpoint \<Rightarrow> nat option" where
  "endpoint_queue ep = map_option (\<lambda>rs. tq_inner (rs_tx_queue rs)) (re_routable ep)"

definition collect_of :: "('v \<Rightarrow> 'x option) \<Rightarrow> ('k \<times> 'v) list \<Rightarrow> 'x list" where
  "collect_of f al = List.map_filter (\<lambda>(k, v). f v) al"

lemma collect_of_simps [simp]:
  "collect_of f [] = []"
  "collect_of f ((k, v) # al) = (case f v of None \<Rightarrow> collect_of f al | Some x \<Rightarrow> x # collect_of f al)"
  by (simp_all add: collect_of_def map_filter_simps split: option.split)

lemma collect_of_append: "collect_of f (al @ bl) = collect_of f al @ collect_of f bl"
  by (induction al) (auto split: option.split)

lemma set_collect_of: "x \<in> set (collect_of f al) \<longleftrightarrow> (\<exists>k v. (k, v) \<in> set al \<and> f v = Some x)"
  unfolding collect_of_def List.map_filter_def by force

lemma update_fresh: "k \<notin> fst ` set al \<Longrightarrow> AList.update k v al = al @ [(k, v)]"
  by (induction al) auto

lemma collect_of_update_same:
  "map_of al k = Some v0 \<Longrightarrow> f v = f v0 \<Longrightarrow> collect_of f (AList.update k v al) = collect_of f al"
  by (induction al) (auto split: option.split)

lemma collect_of_delete:
  "distinct (map fst al) \<Longrightarrow> map_of al k = Some v \<Longrightarrow>
   mset (collect_of f (AList.delete k al)) =
     mset (collect_of f al) - (case f v of None \<Rightarrow> {#} | Some x \<Rightarrow> {#x#})"
proof (induction al)
  case (Cons p al)
  obtain k' v' where p: "p = (k', v')" by (cases p)
  show ?case
  proof (cases "k' = k")
    case True
    with Cons.prems p have "v' = v" "AList.delete k al = al"
      by (auto simp: delete_id)
    with True p show ?thesis by (auto simp: AList.delete_eq split: option.split)
  next
    case False
    with Cons p have IH: "mset (collect_of f (AList.delete k al)) =
        mset (collect_of f al) - (case f v of None \<Rightarrow> {#} | Some x \<Rightarrow> {#x#})" and "map_of al k = Some v" by auto
    from this(2) have "f v = Some x \<Longrightarrow> x \<in># mset (collect_of f al)" for x
      by (induction al) (auto split: option.split if_splits)
    with IH False p show ?thesis
      by (auto simp: AList.delete_eq split: option.split dest!: multi_member_split)
  qed
qed simp

lemma distinct_collect_of_delete: "distinct (collect_of f al) \<Longrightarrow> distinct (collect_of f (AList.delete k al))"
proof (induction al)
  case (Cons p al)
  have "set (collect_of f (AList.delete k al)) \<subseteq> set (collect_of f al)"
    by (auto simp: set_collect_of AList.delete_eq) blast
  with Cons show ?case by (cases p) (auto simp: AList.delete_eq split: option.splits)
qed simp

section \<open>The invariant\<close>

definition table_ok :: "learn_table \<Rightarrow> bool" where
  "table_ok t \<longleftrightarrow> learn_ok t \<and> lt_capacity t = LEARN_CAPACITY"

definition router_ok :: "('q, 'c) router \<Rightarrow> bool" where
  "router_ok r \<longleftrightarrow>
     distinct (map fst (r_routing r))
     \<and> distinct (collect_of endpoint_queue (r_routing r))
     \<and> groups_ok (r_groups r)
     \<and> (\<forall>n. group_members (r_groups r) n = count (mset (collect_of endpoint_group (r_routing r))) n)
     \<and> (\<forall>n e. map_of (r_groups r) n = Some e \<longrightarrow> table_ok (gl_learn e))
     \<and> (\<forall>i ep rs. map_of (r_routing r) i = Some ep \<longrightarrow> re_routable ep = Some rs \<longrightarrow> table_ok (rs_learn rs))
     \<and> dedup_ok (r_dedup r)"

lemma table_ok_new [simp]: "table_ok (learn_new LEARN_CAPACITY)"
  by (simp add: table_ok_def) (simp add: learn_new_def LEARN_CAPACITY_def)

lemma table_ok_touch [intro]: "table_ok t \<Longrightarrow> table_ok (fst (learn_touch n now t))"
  using learn_lru.touch_cap [of n now t] by (auto simp: table_ok_def)

lemma forward_stats_simps [simp]:
  "r_routing (forward_stats env ev r) = r_routing r"
  "r_groups (forward_stats env ev r) = r_groups r"
  "r_dedup (forward_stats env ev r) = r_dedup r"
  "r_store (forward_stats env ev r) = r_store r"
  by (simp_all add: forward_stats_def Let_def case_prod_unfold split: try_send_result.split)

lemma router_ok_forward [simp]: "router_ok (forward_stats env ev r) = router_ok r"
  by (simp add: router_ok_def)

lemma router_ok_store [simp]: "router_ok (r\<lparr>r_store := st\<rparr>) = router_ok r"
  by (simp add: router_ok_def)

text \<open>New identifiers and queues are fresh: the allocator never reuses an identifier, and every endpoint gets a queue of its own.\<close>

fun event_fresh :: "endpoint_event \<Rightarrow> ('q, 'c) router \<Rightarrow> bool" where
  "event_fresh (EndpointAdded i name stats payload) r =
     (i \<notin> fst ` set (r_routing r)
      \<and> (case payload of None \<Rightarrow> True
         | Some p \<Rightarrow> tq_inner (ro_tx_queue p) \<notin> set (collect_of endpoint_queue (r_routing r))))"
| "event_fresh (PeerAdded parent i name stats p) r =
     (i \<notin> fst ` set (r_routing r) \<and> tq_inner (ro_tx_queue p) \<notin> set (collect_of endpoint_queue (r_routing r)))"
| "event_fresh (PeerRemoved parent i reason) r = True"

lemma map_of_None_fresh: "i \<notin> fst ` set al \<Longrightarrow> map_of al i = None"
  by (simp add: map_of_eq_None_iff)

lemma register_routable_ok:
  assumes "router_ok r" and "i \<notin> fst ` set (r_routing r)"
    and "\<forall>q. endpoint_queue \<lparr>re_name = name, re_stats = s, re_routable = st\<rparr> = Some q \<longrightarrow>
        q \<notin> set (collect_of endpoint_queue (r_routing r))"
    and "\<forall>rs. st = Some rs \<longrightarrow> table_ok (rs_learn rs)"
    and gs: "groups_ok gs" "\<forall>n e. map_of gs n = Some e \<longrightarrow> table_ok (gl_learn e)"
    and "\<forall>n. group_members gs n = count (mset (collect_of endpoint_group (r_routing r))
        + (case endpoint_group \<lparr>re_name = name, re_stats = s, re_routable = st\<rparr> of None \<Rightarrow> {#} | Some g \<Rightarrow> {#g#})) n"
  shows "router_ok (register_routable env i name s st (r\<lparr>r_groups := gs\<rparr>))"
  using assms
  by (auto simp: router_ok_def register_routable_def update_fresh collect_of_append map_of_None_fresh
      split: option.splits if_splits)

lemma build_routable_state_parts:
  "snd (build_routable_state p r) =
     \<lparr>rs_tx_queue = ro_tx_queue p, rs_identity = ro_identity p, rs_endpoint_name = ro_endpoint_name p,
      rs_learn = learn_new LEARN_CAPACITY\<rparr>"
  "fst (build_routable_state p r) = r\<lparr>r_groups :=
     (case if_group (ro_identity p) of Some g \<Rightarrow> fst (group_join g LEARN_CAPACITY (r_groups r)) | None \<Rightarrow> r_groups r)\<rparr>"
  by (simp_all add: build_routable_state_def split: option.split)

lemma join_tables_ok:
  "\<forall>n e. map_of gs n = Some e \<longrightarrow> table_ok (gl_learn e) \<Longrightarrow>
   map_of (fst (group_join g LEARN_CAPACITY gs)) n = Some e \<Longrightarrow> table_ok (gl_learn e)"
  by (auto simp: group_join_def Let_def map_of_update split: option.splits if_splits)

lemma leave_tables_ok:
  "\<forall>n e. map_of gs n = Some e \<longrightarrow> table_ok (gl_learn e) \<Longrightarrow>
   map_of (group_leave g gs) n = Some e \<Longrightarrow> table_ok (gl_learn e)"
  by (auto simp: group_leave_def Let_def map_of_update map_of_alist_delete split: option.splits if_splits)

lemma add_routable_ok:
  assumes ok: "router_ok r" and new: "i \<notin> fst ` set (r_routing r)"
    and q: "tq_inner (ro_tx_queue p) \<notin> set (collect_of endpoint_queue (r_routing r))"
  shows "router_ok (register_routable env i name s (Some (snd (build_routable_state p r))) (fst (build_routable_state p r)))"
proof -
  let ?gs = "case if_group (ro_identity p) of
      Some g \<Rightarrow> fst (group_join g LEARN_CAPACITY (r_groups r)) | None \<Rightarrow> r_groups r"
  have gok: "groups_ok (r_groups r)"
    and cnt: "\<forall>n. group_members (r_groups r) n = count (mset (collect_of endpoint_group (r_routing r))) n"
    using ok by (simp_all add: router_ok_def)
  have "groups_ok ?gs" using gok by (auto simp: group_join_ok split: option.split)
  moreover have "\<forall>n e. map_of ?gs n = Some e \<longrightarrow> table_ok (gl_learn e)"
    using ok join_tables_ok by (auto simp: router_ok_def split: option.split)
  moreover have "\<forall>n. group_members ?gs n = count (mset (collect_of endpoint_group (r_routing r))
      + (case if_group (ro_identity p) of None \<Rightarrow> {#} | Some g \<Rightarrow> {#g#})) n"
    using cnt group_counts.join_tracks [OF gok cnt] by (simp split: option.split)
  ultimately show ?thesis unfolding build_routable_state_parts
    by (intro register_routable_ok [OF ok new])
      (use q in \<open>auto simp: endpoint_queue_def endpoint_group_def\<close>)
qed

lemma leave_group_simps [simp]:
  "r_routing (leave_group ep r) = r_routing r" "r_dedup (leave_group ep r) = r_dedup r"
  "r_store (leave_group ep r) = r_store r"
  "r_groups (leave_group ep r) = (case endpoint_group ep of None \<Rightarrow> r_groups r | Some g \<Rightarrow> group_leave g (r_groups r))"
  by (simp_all add: leave_group_def endpoint_group_def split: option.split)

lemma remove_peer_ok:
  assumes ok: "router_ok r" and ep: "map_of (r_routing r) i = Some ep"
  shows "router_ok (leave_group ep (r\<lparr>r_routing := AList.delete i (r_routing r)\<rparr>))"
proof -
  let ?gs = "case endpoint_group ep of None \<Rightarrow> r_groups r | Some g \<Rightarrow> group_leave g (r_groups r)"
  have d: "distinct (map fst (r_routing r))" and gok: "groups_ok (r_groups r)"
    and cnt: "\<forall>n. group_members (r_groups r) n = count (mset (collect_of endpoint_group (r_routing r))) n"
    using ok by (simp_all add: router_ok_def)
  have "groups_ok ?gs" using gok by (simp add: group_leave_ok split: option.split)
  moreover have "\<forall>n. group_members ?gs n =
      count (mset (collect_of endpoint_group (AList.delete i (r_routing r)))) n"
    using cnt group_counts.leave_tracks [OF gok cnt] collect_of_delete [OF d ep, of endpoint_group]
    by (simp split: option.split)
  moreover have "\<forall>n e. map_of ?gs n = Some e \<longrightarrow> table_ok (gl_learn e)"
    using ok leave_tables_ok by (auto simp: router_ok_def split: option.split)
  moreover have "r_groups (leave_group ep (r\<lparr>r_routing := AList.delete i (r_routing r)\<rparr>)) = ?gs"
    by (simp split: option.split)
  ultimately show ?thesis using ok
    by (auto simp: router_ok_def distinct_delete distinct_collect_of_delete map_of_alist_delete
        simp del: leave_group_simps(4))
qed

lemma handle_event_ok: "router_ok r \<Longrightarrow> event_fresh e r \<Longrightarrow> router_ok (handle_event env e r)"
proof (cases e)
  case (EndpointAdded i name s payload)
  assume ok: "router_ok r" and fresh: "event_fresh e r"
  show ?thesis
  proof (cases payload)
    case None
    have "router_ok (register_routable env i name s None (r\<lparr>r_groups := r_groups r\<rparr>))"
      using ok fresh EndpointAdded None
      by (intro register_routable_ok [OF ok]) (auto simp: router_ok_def endpoint_queue_def endpoint_group_def)
    then show ?thesis using EndpointAdded None by simp
  next
    case (Some p)
    with add_routable_ok [OF ok] fresh EndpointAdded show ?thesis by (simp add: case_prod_unfold Let_def)
  qed
next
  case (PeerAdded parent i name s p)
  assume "router_ok r" and "event_fresh e r"
  with PeerAdded add_routable_ok [of r i p] show ?thesis by (simp add: case_prod_unfold Let_def)
next
  case (PeerRemoved parent i reason)
  assume ok: "router_ok r"
  show ?thesis
  proof (cases "map_of (r_routing r) i")
    case None
    with ok PeerRemoved show ?thesis by simp
  next
    case (Some ep)
    from remove_peer_ok [OF ok this] Some PeerRemoved show ?thesis by (simp add: Let_def)
  qed
qed

section \<open>Frames keep the invariant\<close>

lemma effective_learn_Some:
  assumes "router_ok r" and "map_of (r_routing r) i = Some ep" and "re_routable ep = Some rs"
  shows "\<exists>t. effective_learn (r_groups r) rs = Some t \<and> table_ok t"
proof (cases "if_group (rs_identity rs)")
  case None
  with assms show ?thesis by (auto simp: effective_learn_def router_ok_def)
next
  case (Some g)
  from assms(2) have "(i, ep) \<in> set (r_routing r)" by (rule map_of_SomeD)
  with Some assms(3) have "g \<in> set (collect_of endpoint_group (r_routing r))"
    by (auto simp: set_collect_of endpoint_group_def intro!: exI [of _ ep])
  then have "0 < group_members (r_groups r) g" using assms(1) by (simp add: router_ok_def count_list_0_iff)
  with assms(1) obtain e where "map_of (r_groups r) g = Some e"
    using group_members_pos [of "r_groups r" g] by (auto simp: router_ok_def)
  with Some assms(1) show ?thesis by (auto simp: effective_learn_def group_get_def router_ok_def)
qed

lemma put_learn_ok:
  assumes "router_ok r" and "table_ok t"
  shows "router_ok (r\<lparr>r_groups := group_put_learn g t (r_groups r)\<rparr>)"
proof -
  have "map_of (group_put_learn g t (r_groups r)) n = Some e \<Longrightarrow> table_ok (gl_learn e)" for n e
    using assms by (auto simp: router_ok_def group_put_learn_def map_of_update split: option.splits if_splits)
  then show ?thesis using assms by (auto simp: router_ok_def table_ok_def group_put_learn_ok)
qed

lemma touch_own_ok:
  assumes "router_ok r" and "map_of (r_routing r) i = Some ep" and "re_routable ep = Some rs" and "table_ok t"
  shows "router_ok (r\<lparr>r_routing := AList.update i (ep\<lparr>re_routable := Some (rs\<lparr>rs_learn := t\<rparr>)\<rparr>) (r_routing r)\<rparr>)"
  using assms collect_of_update_same [OF assms(2), of endpoint_queue "ep\<lparr>re_routable := Some (rs\<lparr>rs_learn := t\<rparr>)\<rparr>"]
    collect_of_update_same [OF assms(2), of endpoint_group "ep\<lparr>re_routable := Some (rs\<lparr>rs_learn := t\<rparr>)\<rparr>"]
  by (auto simp: router_ok_def distinct_update map_of_update endpoint_queue_def endpoint_group_def split: if_splits)

text \<open>The ways a frame can enter: from an unknown or unroutable source, as a duplicate, or admitted.\<close>

definition learn_from :: "registered_endpoint \<Rightarrow> routable_state \<Rightarrow> node_id \<Rightarrow> instant \<Rightarrow> endpoint_id \<Rightarrow> ('q, 'c) router \<Rightarrow> ('q, 'c) router" where
  "learn_from ep rs node now i r =
     (case if_group (rs_identity rs) of
        Some g \<Rightarrow> r\<lparr>r_groups := group_put_learn g
          (fst (learn_touch node now (the (effective_learn (r_groups r) rs)))) (r_groups r)\<rparr>
      | None \<Rightarrow> r\<lparr>r_routing := AList.update i
          (ep\<lparr>re_routable := Some (rs\<lparr>rs_learn := fst (learn_touch node now (rs_learn rs))\<rparr>)\<rparr>) (r_routing r)\<rparr>)"

lemma ingest_unroutable:
  "Option.bind (map_of (r_routing r) i) re_routable = None \<Longrightarrow>
   ingest_source_frame env i frame header now r = (r, Suppressed)"
  by (auto simp: ingest_source_frame_def split: option.splits)

lemma ingest_duplicate:
  assumes "map_of (r_routing r) i = Some ep" and "re_routable ep = Some rs"
    and "snd (check_and_insert (env_hash env) frame now (r_dedup r))"
  shows "ingest_source_frame env i frame header now r =
    (r\<lparr>r_dedup := fst (check_and_insert (env_hash env) frame now (r_dedup r)),
       r_store := upd_stats (re_stats ep) (\<lambda>s. s\<lparr>es_dedup_drops := es_dedup_drops s + 1\<rparr>) (r_store r)\<rparr>, Suppressed)"
  using assms by (simp add: ingest_source_frame_def case_prod_unfold Let_def)

lemma ingest_admitted:
  assumes ok: "router_ok r" and ep: "map_of (r_routing r) i = Some ep" and rs: "re_routable ep = Some rs"
    and fresh: "\<not> snd (check_and_insert (env_hash env) frame now (r_dedup r))"
  shows "\<exists>st. ingest_source_frame env i frame header now r =
    ((learn_from ep rs (hdr_source header) now i
        (r\<lparr>r_dedup := fst (check_and_insert (env_hash env) frame now (r_dedup r))\<rparr>))\<lparr>r_store := st\<rparr>,
     Admitted (rs_endpoint_name rs)) \<and> sto_queue st = sto_queue (r_store r)"
proof -
  from effective_learn_Some [OF ok ep rs] obtain t where t: "effective_learn (r_groups r) rs = Some t" by auto
  show ?thesis
  proof (cases "if_group (rs_identity rs)")
    case None
    with ep rs fresh show ?thesis
      by (auto simp: ingest_source_frame_def learn_from_def case_prod_unfold Let_def)
  next
    case (Some g)
    with t obtain e where "group_get g (r_groups r) = Some e" "t = gl_learn e"
      by (auto simp: effective_learn_def)
    with ep rs fresh Some t show ?thesis
      by (auto simp: ingest_source_frame_def learn_from_def case_prod_unfold Let_def)
  qed
qed

lemma learn_from_ok:
  assumes "router_ok r" and "map_of (r_routing r) i = Some ep" and "re_routable ep = Some rs"
  shows "router_ok (learn_from ep rs node now i r)"
proof -
  from effective_learn_Some [OF assms] obtain t where t: "effective_learn (r_groups r) rs = Some t" "table_ok t" by auto
  then show ?thesis using assms
    by (auto simp: learn_from_def effective_learn_def intro!: put_learn_ok touch_own_ok table_ok_touch split: option.split)
qed

lemma router_ok_dedup:
  "router_ok r \<Longrightarrow> router_ok (r\<lparr>r_dedup := fst (check_and_insert h frame now (r_dedup r))\<rparr>)"
  by (simp add: router_ok_def check_and_insert_ok)

lemma ingest_ok: "router_ok r \<Longrightarrow> router_ok (fst (ingest_source_frame env i frame header now r))"
proof (cases "Option.bind (map_of (r_routing r) i) re_routable")
  case None
  assume "router_ok r"
  with ingest_unroutable [OF None] show ?thesis by simp
next
  case (Some rs)
  assume ok: "router_ok r"
  from Some obtain ep where ep: "map_of (r_routing r) i = Some ep" "re_routable ep = Some rs"
    by (cases "map_of (r_routing r) i") auto
  let ?r = "r\<lparr>r_dedup := fst (check_and_insert (env_hash env) frame now (r_dedup r))\<rparr>"
  have ok': "router_ok ?r" using ok by (rule router_ok_dedup)
  show ?thesis
  proof (cases "snd (check_and_insert (env_hash env) frame now (r_dedup r))")
    case True
    with ingest_duplicate [OF ep] ok' show ?thesis by (simp add: router_ok_def)
  next
    case False
    from ingest_admitted [OF ok ep False, of header] learn_from_ok [OF ok', of i ep rs] ep show ?thesis by auto
  qed
qed

lemma handle_frame_ok: "router_ok r \<Longrightarrow> router_ok (handle_frame env f now r)"
  using ingest_ok [of r env "rf_endpoint_id f" "rf_frame f" "rf_header f" now]
  by (auto simp: handle_frame_def dispatch_to_destinations_def split: prod.split source_admission.split)

lemma router_new_ok: "router_ok (router_new c ms capacity st)"
  by (simp add: router_ok_def router_new_def group_members_def)

section \<open>Reachable states\<close>

text \<open>
  The states of the router task: from the empty registry, by lifecycle events with fresh
  identifiers and queues, by frames, and by whatever the endpoint tasks do in the meantime to
  the queues and counters they share with the router.
\<close>

inductive router_reach :: "('q, 'c) router_env \<Rightarrow> ('q, 'c) router \<Rightarrow> bool" for env where
  reach_new: "router_reach env (router_new c ms capacity st)"
| reach_event: "router_reach env r \<Longrightarrow> event_fresh e r \<Longrightarrow> router_reach env (handle_event env e r)"
| reach_frame: "router_reach env r \<Longrightarrow> router_reach env (handle_frame env f now r)"
| reach_tasks: "router_reach env r \<Longrightarrow> router_reach env (r\<lparr>r_store := st\<rparr>)"

lemma router_reach_ok: "router_reach env r \<Longrightarrow> router_ok r"
  by (induction rule: router_reach.induct) (simp_all add: router_new_ok handle_event_ok handle_frame_ok)

lemma count_collect_of: "count (mset (collect_of f al)) x = length (filter (\<lambda>(k, v). f v = Some x) al)"
  by (induction al) (auto split: option.split)

lemma table_ok_bound: "table_ok t \<Longrightarrow> learn_len t \<le> 32"
  by (auto simp: table_ok_def lru_ok_def learn_len_def learn_seen_def LEARN_CAPACITY_def)

text \<open>
  C2. Registry, groups and learn tables stay consistent in every reachable state: no endpoint
  is registered twice and no two share a queue; the member count of a group is exactly the
  number of registered endpoints that carry its name, so a group's table exists as long as it
  has a member and is dropped with the last one; and every registered destination has an
  effective learn table, of at most 32 nodes.
\<close>

theorem router_registry_consistent:
  assumes "router_reach env r"
  shows "distinct (map fst (r_routing r)) \<and> distinct (collect_of endpoint_queue (r_routing r))
    \<and> (\<forall>g. group_members (r_groups r) g = length (filter (\<lambda>(i, ep). endpoint_group ep = Some g) (r_routing r)))
    \<and> (\<forall>g. map_of (r_groups r) g \<noteq> None \<longleftrightarrow> (\<exists>(i, ep) \<in> set (r_routing r). endpoint_group ep = Some g))
    \<and> (\<forall>(i, ep) \<in> set (r_routing r). \<forall>rs. re_routable ep = Some rs \<longrightarrow>
        (\<exists>t. effective_learn (r_groups r) rs = Some t \<and> learn_len t \<le> 32))"
proof -
  have ok: "router_ok r" using assms by (rule router_reach_ok)
  then have d: "distinct (map fst (r_routing r))" and q: "distinct (collect_of endpoint_queue (r_routing r))"
    and gok: "groups_ok (r_groups r)" by (auto simp: router_ok_def)
  have cnt: "\<forall>g. group_members (r_groups r) g = length (filter (\<lambda>(i, ep). endpoint_group ep = Some g) (r_routing r))"
    using ok by (simp add: router_ok_def count_collect_of)
  then have "\<forall>g. map_of (r_groups r) g \<noteq> None \<longleftrightarrow> (\<exists>(i, ep) \<in> set (r_routing r). endpoint_group ep = Some g)"
    using group_members_pos [OF gok] by (auto simp: filter_empty_conv)
  moreover have "\<forall>(i, ep) \<in> set (r_routing r). \<forall>rs. re_routable ep = Some rs \<longrightarrow>
        (\<exists>t. effective_learn (r_groups r) rs = Some t \<and> learn_len t \<le> 32)"
    using effective_learn_Some [OF ok] d by (fastforce dest: table_ok_bound simp: map_of_eq_Some_iff)
  ultimately show ?thesis using d q cnt by blast
qed

section \<open>A small router\<close>

text \<open>Two endpoints without filters, each with a queue of two frames, used at the concrete instances below.\<close>

definition demo_env :: "(nat \<times> bytes list, stats_event list) router_env" where
  "demo_env = \<lparr>env_queue = list_queue, env_hash = (\<lambda>b. of_nat (length b)), env_try_send = (\<lambda>e c. (c @ [e], Sent))\<rparr>"

definition demo_store :: "(nat \<times> bytes list) store" where
  "demo_store = \<lparr>sto_stats = (\<lambda>_. stats_new Connected), sto_queue = (\<lambda>_. (2, [])), sto_notified = (\<lambda>_. 0), sto_next = 2\<rparr>"

definition demo_payload :: "nat \<Rightarrow> string option \<Rightarrow> bool \<Rightarrow> routable" where
  "demo_payload q g sn = \<lparr>ro_tx_queue = \<lparr>tq_inner = q, tq_notify = q, tq_stats = q\<rparr>,
     ro_identity = identity_default\<lparr>if_group := g, if_sniffer := sn\<rparr>, ro_endpoint_name = ''ep''\<rparr>"

definition demo_router :: "(nat \<times> bytes list, stats_event list) router" where
  "demo_router =
     handle_event demo_env (EndpointAdded 2 ''b'' 1 (Some (demo_payload 1 (Some ''g'') True)))
       (handle_event demo_env (EndpointAdded 1 ''a'' 0 (Some (demo_payload 0 None False)))
         (router_new [] 0 16 demo_store))"

definition demo_frame :: router_frame where
  "demo_frame = \<lparr>rf_endpoint_id = 1, rf_frame = [0xFE, 0, 7, 1, 1, 0, 3, 4],
     rf_header = \<lparr>hdr_version = Version_V1, hdr_source = node_new 1 1, hdr_msgid = 0, hdr_seq = 7,
        hdr_payload_len = 0, hdr_target_system = None, hdr_target_component = None\<rparr>\<rparr>"

lemma demo_routing:
  "r_routing demo_router =
     [(1, \<lparr>re_name = ''a'', re_stats = 0, re_routable = Some (snd (build_routable_state (demo_payload 0 None False) demo_router))\<rparr>),
      (2, \<lparr>re_name = ''b'', re_stats = 1, re_routable = Some (snd (build_routable_state (demo_payload 1 (Some ''g'') True) demo_router))\<rparr>)]"
  by (simp add: demo_router_def register_routable_def build_routable_state_parts case_prod_unfold Let_def router_new_def)

lemma demo_reach: "router_reach demo_env demo_router"
  unfolding demo_router_def
  by (intro reach_event reach_new)
    (simp_all add: router_new_def register_routable_def build_routable_state_parts case_prod_unfold Let_def
      demo_payload_def endpoint_queue_def)

theorem router_registry_consistent_witness:
  "group_members (r_groups demo_router) ''g'' = 1
   \<and> length (filter (\<lambda>(i, ep). endpoint_group ep = Some ''g'') (r_routing demo_router)) = 1"
  using router_registry_consistent [OF demo_reach]
  by (simp add: demo_routing build_routable_state_parts endpoint_group_def demo_payload_def identity_default_def)

section \<open>Delivery\<close>

definition push_bounded :: "nat \<Rightarrow> 'a \<Rightarrow> 'a list \<Rightarrow> 'a list" where
  "push_bounded c x xs = (if length xs < c then xs @ [x] else tl xs @ [x])"

definition admits :: "group_registry \<Rightarrow> endpoint_id \<Rightarrow> parsed_header \<Rightarrow> string \<Rightarrow> endpoint_id \<times> registered_endpoint \<Rightarrow> bool" where
  "admits groups src_id header name dest \<longleftrightarrow>
     fst dest \<noteq> src_id
     \<and> (\<exists>rs t. re_routable (snd dest) = Some rs \<and> effective_learn groups rs = Some t
           \<and> decide header t (rs_identity rs) name = Admit)"

lemma dispatch_one_queue:
  "sto_queue (dispatch_one env gs src frame header name dest st) q =
     (if admits gs src header name dest \<and> endpoint_queue (snd dest) = Some q
      then fst (aq_force_push (env_queue env) frame (sto_queue st q)) else sto_queue st q)"
  by (cases dest) (auto simp: dispatch_one_def admits_def endpoint_queue_def tx_push_frame split: option.split decision.split)

lemma dispatch_fold_other:
  "q \<notin> set (collect_of endpoint_queue al) \<Longrightarrow>
   sto_queue (fold (dispatch_one env gs src frame header name) al st) q = sto_queue st q"
proof (induction al arbitrary: st)
  case (Cons dest al)
  then have "endpoint_queue (snd dest) \<noteq> Some q" "q \<notin> set (collect_of endpoint_queue al)"
    by (cases dest; auto split: option.splits)+
  with Cons.IH show ?case by (simp add: dispatch_one_queue)
qed simp

lemma dispatch_fold_queue:
  assumes "distinct (collect_of endpoint_queue al)" and "dest \<in> set al" and "endpoint_queue (snd dest) = Some q"
  shows "sto_queue (fold (dispatch_one env gs src frame header name) al st) q =
    (if admits gs src header name dest then fst (aq_force_push (env_queue env) frame (sto_queue st q)) else sto_queue st q)"
  using assms
proof (induction al arbitrary: st)
  case (Cons d al)
  show ?case
  proof (cases "d = dest")
    case True
    with Cons.prems have "q \<notin> set (collect_of endpoint_queue al)" by (cases d) auto
    with True Cons.prems(3) show ?thesis by (simp add: dispatch_fold_other dispatch_one_queue)
  next
    case False
    with Cons.prems have d: "dest \<in> set al" "distinct (collect_of endpoint_queue al)"
      by (cases d; auto split: option.splits)+
    have "endpoint_queue (snd d) \<noteq> Some q"
    proof
      assume "endpoint_queue (snd d) = Some q"
      with Cons.prems(1) have "q \<notin> set (collect_of endpoint_queue al)" by (cases d) auto
      moreover have "q \<in> set (collect_of endpoint_queue al)"
        using d(1) Cons.prems(3) by (metis set_collect_of prod.collapse)
      ultimately show False by blast
    qed
    with Cons.IH [OF d(2,1) Cons.prems(3)] show ?thesis by (simp add: dispatch_one_queue)
  qed
qed simp

lemma learn_from_simps:
  "r_store (learn_from ep rs node now i r) = r_store r"
  "map_of (r_routing (learn_from ep rs node now i r)) j =
     (if j = i \<and> if_group (rs_identity rs) = None
      then Some (ep\<lparr>re_routable := Some (rs\<lparr>rs_learn := fst (learn_touch node now (rs_learn rs))\<rparr>)\<rparr>)
      else map_of (r_routing r) j)"
  by (simp_all add: learn_from_def map_of_update split: option.split)

lemma handle_frame_admitted:
  assumes ok: "router_ok r" and src: "map_of (r_routing r) (rf_endpoint_id f) = Some ep" "re_routable ep = Some rs"
    and fresh: "\<not> snd (check_and_insert (env_hash env) (rf_frame f) now (r_dedup r))"
  obtains r1 where "router_ok r1" and "sto_queue (r_store r1) = sto_queue (r_store r)"
    and "r1 = (learn_from ep rs (hdr_source (rf_header f)) now (rf_endpoint_id f)
        (r\<lparr>r_dedup := fst (check_and_insert (env_hash env) (rf_frame f) now (r_dedup r))\<rparr>))\<lparr>r_store := r_store r1\<rparr>"
    and "handle_frame env f now r = dispatch_to_destinations env (rf_endpoint_id f) (rf_frame f) (rf_header f)
        (rs_endpoint_name rs) r1"
proof -
  let ?r = "r\<lparr>r_dedup := fst (check_and_insert (env_hash env) (rf_frame f) now (r_dedup r))\<rparr>"
  let ?l = "learn_from ep rs (hdr_source (rf_header f)) now (rf_endpoint_id f) ?r"
  from ingest_admitted [OF ok src fresh, of "rf_header f"] obtain st where
    st: "ingest_source_frame env (rf_endpoint_id f) (rf_frame f) (rf_header f) now r =
      (?l\<lparr>r_store := st\<rparr>, Admitted (rs_endpoint_name rs))" "sto_queue st = sto_queue (r_store r)" by auto
  have "router_ok ?r" using ok by (rule router_ok_dedup)
  from learn_from_ok [OF this, of "rf_endpoint_id f" ep rs] src have "router_ok (?l\<lparr>r_store := st\<rparr>)" by simp
  with st show thesis by (intro that [of "?l\<lparr>r_store := st\<rparr>"]) (simp_all add: handle_frame_def)
qed

lemma dispatch_simps [simp]:
  "r_routing (dispatch_to_destinations env i fr h n r) = r_routing r"
  "r_groups (dispatch_to_destinations env i fr h n r) = r_groups r"
  by (simp_all add: dispatch_to_destinations_def)

text \<open>Which nodes were heard on an endpoint, or on a member of its group.\<close>

definition heard :: "('q, 'c) router \<Rightarrow> routable_state \<Rightarrow> node_id set" where
  "heard r rs = (case effective_learn (r_groups r) rs of None \<Rightarrow> {} | Some t \<Rightarrow> learned t)"

definition wants :: "node_id set \<Rightarrow> identity_flags \<Rightarrow> parsed_header \<Rightarrow> string \<Rightarrow> bool" where
  "wants known ident header src_name \<longleftrightarrow>
     if_sniffer ident
     \<or> (hdr_source header \<notin> known
        \<and> passes_out_filter (if_filters ident) (hdr_msgid header) (hdr_source header) src_name
        \<and> (case addressees header of None \<Rightarrow> True | Some N \<Rightarrow> known \<inter> N \<noteq> {}))"

lemma admits_wants:
  assumes "router_ok r" and "map_of (r_routing r) i = Some ep" and "re_routable ep = Some rs"
  shows "admits (r_groups r) src header name (i, ep) \<longleftrightarrow> i \<noteq> src \<and> wants (heard r rs) (rs_identity rs) header name"
proof -
  from effective_learn_Some [OF assms] obtain t where t: "effective_learn (r_groups r) rs = Some t" by auto
  then have "heard r rs = learned t" by (simp add: heard_def)
  with t assms(3) show ?thesis by (simp add: admits_def wants_def decide_Admit)
qed

lemma aq_push_bounded:
  "aq_laws aq items capq \<Longrightarrow> items (fst (aq_force_push aq x q)) = push_bounded (capq q) x (items q)"
  using aq_lawsD(4,6) [of aq items capq q x] by (auto simp: push_bounded_def not_less)

lemma deliver_queue:
  assumes ok: "router_ok r" and src: "map_of (r_routing r) (rf_endpoint_id f) = Some sep" "re_routable sep = Some srs"
    and fresh: "\<not> snd (check_and_insert (env_hash env) (rf_frame f) now (r_dedup r))"
    and dest: "map_of (r_routing r) i = Some ep" "re_routable ep = Some rs"
  shows "sto_queue (r_store (handle_frame env f now r)) (tq_inner (rs_tx_queue rs)) =
    (if i \<noteq> rf_endpoint_id f \<and> wants (heard (handle_frame env f now r) rs) (rs_identity rs) (rf_header f) (rs_endpoint_name srs)
     then fst (aq_force_push (env_queue env) (rf_frame f) (sto_queue (r_store r) (tq_inner (rs_tx_queue rs))))
     else sto_queue (r_store r) (tq_inner (rs_tx_queue rs)))"
proof -
  let ?h = "rf_header f" and ?src = "rf_endpoint_id f" and ?q = "tq_inner (rs_tx_queue rs)"
  from handle_frame_admitted [OF ok src fresh] obtain r1 where r1: "router_ok r1"
    "sto_queue (r_store r1) = sto_queue (r_store r)"
    "r1 = (learn_from sep srs (hdr_source ?h) now ?src
        (r\<lparr>r_dedup := fst (check_and_insert (env_hash env) (rf_frame f) now (r_dedup r))\<rparr>))\<lparr>r_store := r_store r1\<rparr>"
    "handle_frame env f now r = dispatch_to_destinations env ?src (rf_frame f) ?h (rs_endpoint_name srs) r1" .
  have routing: "map_of (r_routing r1) j =
     (if j = ?src \<and> if_group (rs_identity srs) = None
      then Some (sep\<lparr>re_routable := Some (srs\<lparr>rs_learn := fst (learn_touch (hdr_source ?h) now (rs_learn srs))\<rparr>)\<rparr>)
      else map_of (r_routing r) j)" for j
    by (subst r1(3)) (simp add: learn_from_simps)
  obtain ep' rs' where d: "map_of (r_routing r1) i = Some ep'" "re_routable ep' = Some rs'"
    and same: "rs_tx_queue rs' = rs_tx_queue rs" "i \<noteq> ?src \<Longrightarrow> ep' = ep \<and> rs' = rs"
    using dest src routing [of i] by (auto split: if_splits)
  have mem: "(i, ep') \<in> set (r_routing r1)" using d(1) by (rule map_of_SomeD)
  have "distinct (collect_of endpoint_queue (r_routing r1))" using r1(1) by (simp add: router_ok_def)
  moreover have "endpoint_queue (snd (i, ep')) = Some ?q" using d(2) same(1) by (simp add: endpoint_queue_def)
  ultimately have "sto_queue (r_store (handle_frame env f now r)) ?q =
      (if admits (r_groups r1) ?src ?h (rs_endpoint_name srs) (i, ep')
       then fst (aq_force_push (env_queue env) (rf_frame f) (sto_queue (r_store r1) ?q)) else sto_queue (r_store r1) ?q)"
    using mem by (simp add: r1(4) dispatch_to_destinations_def dispatch_fold_queue)
  moreover have "admits (r_groups r1) ?src ?h (rs_endpoint_name srs) (i, ep') \<longleftrightarrow>
      i \<noteq> ?src \<and> wants (heard (handle_frame env f now r) rs) (rs_identity rs) ?h (rs_endpoint_name srs)"
  proof (cases "i = ?src")
    case False
    with same admits_wants [OF r1(1) d, of ?src ?h] show ?thesis by (simp add: r1(4) heard_def)
  qed (simp add: admits_def)
  ultimately show ?thesis using r1(2) by simp
qed

text \<open>
  C1. Exact delivery: when a registered, routable source hands over a frame that is not a
  duplicate, every registered destination's queue gets the frame appended (dropping its oldest
  one when full) if and only if it is not the source and it is a sniffer, or the frame's
  sender was not heard on it, the egress filter passes the frame, and the frame is broadcast or
  addressed to a node heard on it; every other destination's queue is left as it was.
\<close>

theorem router_delivers_exactly:
  assumes "router_reach env r" and "aq_laws (env_queue env) items capq"
    and "map_of (r_routing r) (rf_endpoint_id f) = Some src_ep" and "re_routable src_ep = Some src_rs"
    and "\<not> snd (check_and_insert (env_hash env) (rf_frame f) now (r_dedup r))"
    and "map_of (r_routing r) i = Some ep" and "re_routable ep = Some rs"
  shows "items (sto_queue (r_store (handle_frame env f now r)) (tq_inner (rs_tx_queue rs))) =
    (let q = sto_queue (r_store r) (tq_inner (rs_tx_queue rs))
     in if i \<noteq> rf_endpoint_id f
           \<and> wants (heard (handle_frame env f now r) rs) (rs_identity rs) (rf_header f) (rs_endpoint_name src_rs)
        then push_bounded (capq q) (rf_frame f) (items q) else items q)"
  using deliver_queue [OF router_reach_ok [OF assms(1)] assms(3-7)] aq_push_bounded [OF assms(2)]
  by (simp add: Let_def)

definition demo_state :: "nat \<Rightarrow> string option \<Rightarrow> bool \<Rightarrow> routable_state" where
  "demo_state q g sn = \<lparr>rs_tx_queue = \<lparr>tq_inner = q, tq_notify = q, tq_stats = q\<rparr>,
     rs_identity = identity_default\<lparr>if_group := g, if_sniffer := sn\<rparr>, rs_endpoint_name = ''ep'',
     rs_learn = learn_new LEARN_CAPACITY\<rparr>"

lemma demo_endpoint:
  "\<exists>ep. map_of (r_routing demo_router) 1 = Some ep \<and> re_routable ep = Some (demo_state 0 None False)"
  "\<exists>ep. map_of (r_routing demo_router) 2 = Some ep \<and> re_routable ep = Some (demo_state 1 (Some ''g'') True)"
  by (simp_all add: demo_routing build_routable_state_parts demo_payload_def demo_state_def)

lemma demo_store_queue: "sto_queue (r_store demo_router) q = (2, [])"
  by (simp add: demo_router_def register_routable_def build_routable_state_parts case_prod_unfold Let_def
      router_new_def demo_store_def)

lemma demo_fresh: "\<not> snd (check_and_insert (env_hash demo_env) b now (r_dedup demo_router))"
  by (simp add: demo_router_def register_routable_def build_routable_state_parts case_prod_unfold Let_def
      router_new_def check_and_insert_def dedup_is_enabled_def dedup_new_def from_millis_def)

theorem router_delivers_exactly_witness:
  "snd (sto_queue (r_store (handle_frame demo_env demo_frame 5 demo_router)) 1) = [[0xFE, 0, 7, 1, 1, 0, 3, 4]]
   \<and> snd (sto_queue (r_store (handle_frame demo_env demo_frame 5 demo_router)) 0) = []"
proof -
  have laws: "aq_laws (env_queue demo_env) snd fst" by (simp add: demo_env_def list_queue_laws)
  from demo_endpoint obtain ep1 ep2 where
    e1: "map_of (r_routing demo_router) 1 = Some ep1" "re_routable ep1 = Some (demo_state 0 None False)" and
    e2: "map_of (r_routing demo_router) 2 = Some ep2" "re_routable ep2 = Some (demo_state 1 (Some ''g'') True)" by auto
  have src: "map_of (r_routing demo_router) (rf_endpoint_id demo_frame) = Some ep1"
    using e1 by (simp add: demo_frame_def)
  show ?thesis
    using router_delivers_exactly [OF demo_reach laws src e1(2) demo_fresh e2, of 5]
      router_delivers_exactly [OF demo_reach laws src e1(2) demo_fresh e1, of 5]
    by (simp add: demo_store_queue demo_frame_def push_bounded_def wants_def demo_state_def)
qed

section \<open>Loop prevention\<close>

lemma effective_learn_put:
  "effective_learn (group_put_learn g t gs) rs =
     (if if_group (rs_identity rs) = Some g then map_option (\<lambda>_. t) (group_get g gs) else effective_learn gs rs)"
  by (auto simp: effective_learn_def group_get_put_learn option.map_comp o_def split: option.split)

lemma heard_learn_from_group:
  assumes "if_group (rs_identity srs) = Some g" and "effective_learn (r_groups r) srs = Some t"
  shows "heard (learn_from sep srs n now i r) rs =
    (if if_group (rs_identity rs) = Some g then learned (fst (learn_touch n now t)) else heard r rs)"
proof -
  obtain e where "group_get g (r_groups r) = Some e" using assms by (auto simp: effective_learn_def)
  with assms show ?thesis by (simp add: heard_def learn_from_def effective_learn_put)
qed

text \<open>What was heard on an endpoint stays heard when the same node is heard again anywhere.\<close>

lemma heard_mono:
  assumes ok: "router_ok r" and src: "map_of (r_routing r) i = Some sep" "re_routable sep = Some srs"
    and n: "n \<in> heard r rs"
  shows "n \<in> heard (learn_from sep srs n now i r) rs"
proof (cases "if_group (rs_identity srs)")
  case None
  with n show ?thesis by (simp add: heard_def learn_from_def)
next
  case (Some g)
  from effective_learn_Some [OF ok src] obtain t where t: "effective_learn (r_groups r) srs = Some t" "table_ok t" by auto
  then have "n \<in> learned (fst (learn_touch n now t))" by (intro learned_touch_self) (simp add: table_ok_def)
  with n heard_learn_from_group [OF Some t(1)] show ?thesis by simp
qed

lemma heard_self:
  assumes ok: "router_ok r" and src: "map_of (r_routing r) i = Some sep" "re_routable sep = Some srs"
  obtains sep' srs' where "map_of (r_routing (learn_from sep srs n now i r)) i = Some sep'"
    and "re_routable sep' = Some srs'" and "rs_tx_queue srs' = rs_tx_queue srs"
    and "rs_identity srs' = rs_identity srs" and "n \<in> heard (learn_from sep srs n now i r) srs'"
proof -
  from effective_learn_Some [OF ok src] obtain t where t: "effective_learn (r_groups r) srs = Some t" "table_ok t" by auto
  then have self: "n \<in> learned (fst (learn_touch n now t))" by (intro learned_touch_self) (simp add: table_ok_def)
  show thesis
  proof (cases "if_group (rs_identity srs)")
    case None
    with t self show thesis
      by (intro that [of "sep\<lparr>re_routable := Some (srs\<lparr>rs_learn := fst (learn_touch n now (rs_learn srs))\<rparr>)\<rparr>"
            "srs\<lparr>rs_learn := fst (learn_touch n now (rs_learn srs))\<rparr>"])
        (simp_all add: learn_from_simps heard_def effective_learn_def)
  next
    case (Some g)
    with self src heard_learn_from_group [OF Some t(1)] show thesis
      by (intro that [of sep srs]) (simp_all add: learn_from_simps)
  qed
qed

lemma handle_frame_suppressed_queue:
  assumes "Option.bind (map_of (r_routing r) (rf_endpoint_id f)) re_routable = None
    \<or> snd (check_and_insert (env_hash env) (rf_frame f) now (r_dedup r))"
  shows "sto_queue (r_store (handle_frame env f now r)) = sto_queue (r_store r)"
proof (cases "Option.bind (map_of (r_routing r) (rf_endpoint_id f)) re_routable")
  case None
  then show ?thesis by (simp add: handle_frame_def ingest_unroutable)
next
  case (Some rs)
  then obtain ep where "map_of (r_routing r) (rf_endpoint_id f) = Some ep" "re_routable ep = Some rs"
    by (cases "map_of (r_routing r) (rf_endpoint_id f)") auto
  with assms Some show ?thesis by (simp add: handle_frame_def ingest_duplicate)
qed

lemma heard_cong: "r_groups r = r_groups r' \<Longrightarrow> heard r rs = heard r' rs"
  by (simp add: heard_def)

lemma not_wanted_queue:
  assumes ok: "router_ok r" and dest: "map_of (r_routing r) i = Some ep" "re_routable ep = Some rs"
    and known: "hdr_source (rf_header f) \<in> heard r rs" and plain: "\<not> if_sniffer (rs_identity rs)"
  shows "sto_queue (r_store (handle_frame env f now r)) (tq_inner (rs_tx_queue rs))
    = sto_queue (r_store r) (tq_inner (rs_tx_queue rs))"
proof (cases "Option.bind (map_of (r_routing r) (rf_endpoint_id f)) re_routable = None
    \<or> snd (check_and_insert (env_hash env) (rf_frame f) now (r_dedup r))")
  case True
  then show ?thesis by (simp add: handle_frame_suppressed_queue)
next
  case False
  then obtain sep srs where src: "map_of (r_routing r) (rf_endpoint_id f) = Some sep" "re_routable sep = Some srs"
    by (cases "map_of (r_routing r) (rf_endpoint_id f)") auto
  from False have fresh: "\<not> snd (check_and_insert (env_hash env) (rf_frame f) now (r_dedup r))" by simp
  let ?r = "r\<lparr>r_dedup := fst (check_and_insert (env_hash env) (rf_frame f) now (r_dedup r))\<rparr>"
  from handle_frame_admitted [OF ok src fresh] obtain r1 where
    "r1 = (learn_from sep srs (hdr_source (rf_header f)) now (rf_endpoint_id f) ?r)\<lparr>r_store := r_store r1\<rparr>"
    "handle_frame env f now r = dispatch_to_destinations env (rf_endpoint_id f) (rf_frame f) (rf_header f)
        (rs_endpoint_name srs) r1" by blast
  then have "r_groups (handle_frame env f now r) =
      r_groups (learn_from sep srs (hdr_source (rf_header f)) now (rf_endpoint_id f) ?r)"
    by (metis dispatch_simps(2) router.select_convs(2) router.surjective router.update_convs(6))
  moreover have "hdr_source (rf_header f) \<in> heard (learn_from sep srs (hdr_source (rf_header f)) now (rf_endpoint_id f) ?r) rs"
    using src known by (intro heard_mono [OF router_ok_dedup [OF ok]]) (auto simp: heard_def)
  ultimately have "hdr_source (rf_header f) \<in> heard (handle_frame env f now r) rs"
    by (simp add: heard_cong [of "handle_frame env f now r"])
  then show ?thesis using deliver_queue [OF ok src fresh dest] plain by (simp add: wants_def)
qed



section \<open>Suppression\<close>



section \<open>Shutdown\<close>

lemma sweep_fold:
  assumes "F = (\<lambda>(i, entry) r. forward_stats env (Finalize i)
      (r\<lparr>r_store := upd_stats (re_stats entry) (store_state Down) (r_store r)\<rparr>))"
  shows "r_routing (fold F al r) = r_routing r"
    and "es_state (sto_stats (r_store (fold F al r)) k) =
      (if k \<in> (\<lambda>(i, ep). re_stats ep) ` set al then state_as_u8 Down else es_state (sto_stats (r_store r) k))"
  unfolding assms
  by (induction al arbitrary: r) (auto simp: store_state_def)

lemma event_loop_ends:
  "\<exists>si \<in> set rounds. si_cancelled si \<Longrightarrow> \<exists>r'. event_loop env rounds r = Some r'"
proof (induction rounds arbitrary: r)
  case (Cons si rounds)
  show ?case
  proof (cases "si_cancelled si")
    case True
    then show ?thesis by (auto simp: select_round_def)
  next
    case False
    then have "\<exists>r'. select_round env si r = Continue r'"
      by (simp add: select_round_def split: recv.split)
    with Cons False show ?thesis by auto
  qed
qed simp

text \<open>
  C24. Shutdown: the router task returns once a round sees the cancellation, and when it has
  returned the registry is empty and every endpoint still registered after the last lifecycle
  events is reported \<^verbatim>\<open>down\<close>.
\<close>

theorem router_shutdown_complete:
  assumes "\<exists>si \<in> set rounds. si_cancelled si"
  shows "\<exists>r1 r'. event_loop env rounds (router_new c ms capacity st) = Some r1
    \<and> run_inner env rounds pending c ms capacity st = Some r' \<and> r_routing r' = []
    \<and> (\<forall>(i, ep) \<in> set (r_routing (fold (handle_event env) pending r1)).
          load_state (sto_stats (r_store r') (re_stats ep)) = Down)"
proof -
  from event_loop_ends [OF assms] obtain r1 where
    r1: "event_loop env rounds (router_new c ms capacity st) = Some r1" by blast
  let ?r0 = "fold (handle_event env) pending r1"
  have "r_routing (shutdown_sweep env ?r0) = []"
    using sweep_fold(1) [OF refl, of env "r_routing ?r0"] by (simp add: shutdown_sweep_def)
  moreover have "\<forall>(i, ep) \<in> set (r_routing ?r0). load_state (sto_stats (r_store (shutdown_sweep env ?r0)) (re_stats ep)) = Down"
    using sweep_fold(2) [OF refl, of env "r_routing ?r0"] state_round_trip [of Down]
    by (auto simp: shutdown_sweep_def load_state_def intro: rev_image_eqI)
  ultimately show ?thesis using r1 by (auto simp: run_inner_def)
qed

theorem router_shutdown_complete_witness:
  "\<exists>r'. run_inner demo_env [\<lparr>si_cancelled = False, si_event = Pending, si_frame = Item demo_frame, si_now = 5\<rparr>,
      \<lparr>si_cancelled = True, si_event = Pending, si_frame = Pending, si_now = 6\<rparr>]
      [EndpointAdded 1 ''a'' 0 (Some (demo_payload 0 None False))] [] 0 16 demo_store = Some r' \<and> r_routing r' = []"
  using router_shutdown_complete
    [of "[\<lparr>si_cancelled = False, si_event = Pending, si_frame = Item demo_frame, si_now = 5\<rparr>,
      \<lparr>si_cancelled = True, si_event = Pending, si_frame = Pending, si_now = 6\<rparr>]" demo_env "[]" 0 16 demo_store
      "[EndpointAdded 1 ''a'' 0 (Some (demo_payload 0 None False))]"]
  by auto

end
