(* ===== verification/Lifecycle.thy ===== *)
theory Lifecycle
  imports Router_Correct
begin

text \<open>
  The contract between a listener (\<^verbatim>\<open>tcps:\<close> or \<^verbatim>\<open>udps:\<close>) and the router about peers: an
  identifier and a queue are announced once, a peer is removed once and only after it was
  announced. The contract is an automaton on the events sent; a listener that keeps it leaves the
  router's registry exact.
\<close>

section \<open>The automaton\<close>

text \<open>The state: identifiers and queues ever announced, and the peers alive.\<close>

type_synonym life = "endpoint_id set \<times> nat set \<times> endpoint_id set"

fun life_step :: "endpoint_event \<Rightarrow> life \<Rightarrow> life option" where
  "life_step (EndpointAdded i name stats payload) l = None"
| "life_step (PeerAdded parent c name stats payload) (ids, queues, alive) =
     (if c \<notin> ids \<and> tq_inner (ro_tx_queue payload) \<notin> queues
      then Some (insert c ids, insert (tq_inner (ro_tx_queue payload)) queues, insert c alive) else None)"
| "life_step (PeerRemoved parent c reason) (ids, queues, alive) =
     (if c \<in> alive then Some (ids, queues, alive - {c}) else None)"

fun life_run :: "endpoint_event list \<Rightarrow> life \<Rightarrow> life option" where
  "life_run [] l = Some l"
| "life_run (ev # evs) l = (case life_step ev l of None \<Rightarrow> None | Some l' \<Rightarrow> life_run evs l')"

lemma life_run_append: "life_run (evs @ evs') l = (case life_run evs l of None \<Rightarrow> None | Some l' \<Rightarrow> life_run evs' l')"
  by (induction evs arbitrary: l) (auto split: option.split)

lemma life_run_snoc: "life_run evs l = Some l' \<Longrightarrow> life_step ev l' = Some l'' \<Longrightarrow> life_run (evs @ [ev]) l = Some l''"
  by (simp add: life_run_append)

section \<open>A listener\<close>

fun run_steps :: "('i \<Rightarrow> 's \<Rightarrow> 's option) \<Rightarrow> 'i list \<Rightarrow> 's \<Rightarrow> 's option" where
  "run_steps step [] s = Some s"
| "run_steps step (i # is) s = (case step i s of None \<Rightarrow> None | Some s' \<Rightarrow> run_steps step is s')"

text \<open>
  A listener as the router sees it: its steps, the events it has sent, and an invariant that
  relates its state to the automaton's. A step may consume identifiers of the shared allocator,
  of which there are finitely many.
\<close>

locale peer_listener =
  fixes step :: "'i \<Rightarrow> 's \<Rightarrow> 's option"
    and sent :: "'s \<Rightarrow> endpoint_event list"
    and cost :: "'i \<Rightarrow> nat"
    and budget :: nat
    and inv :: "nat \<Rightarrow> life \<Rightarrow> 's \<Rightarrow> bool"
  assumes step_life: "inv k l s \<Longrightarrow> k + cost i \<le> budget \<Longrightarrow> step i s = Some s' \<Longrightarrow>
      \<exists>evs l'. sent s' = sent s @ evs \<and> life_run evs l = Some l' \<and> inv (k + cost i) l' s'"
begin

lemma steps_life:
  "inv k l s \<Longrightarrow> k + sum_list (map cost is) \<le> budget \<Longrightarrow> run_steps step is s = Some s' \<Longrightarrow>
   \<exists>evs l'. sent s' = sent s @ evs \<and> life_run evs l = Some l' \<and> inv (k + sum_list (map cost is)) l' s'"
proof (induction "is" arbitrary: k l s)
  case (Cons i "is")
  from Cons.prems(3) obtain s1 where s1: "step i s = Some s1" "run_steps step is s1 = Some s'" by (auto split: option.splits)
  from step_life [OF Cons.prems(1) _ s1(1)] Cons.prems(2) obtain evs l1 where
    e: "sent s1 = sent s @ evs" "life_run evs l = Some l1" "inv (k + cost i) l1 s1" by auto
  from Cons.IH [OF e(3) _ s1(2)] Cons.prems(2) obtain evs' l2 where
    "sent s' = sent s1 @ evs'" "life_run evs' l1 = Some l2" "inv (k + cost i + sum_list (map cost is)) l2 s'" by auto
  with e show ?case by (intro exI [of _ "evs @ evs'"] exI [of _ l2]) (simp add: life_run_append add.assoc)
qed auto

end

section \<open>What the router makes of it\<close>

definition registered :: "endpoint_id set \<Rightarrow> life \<Rightarrow> ('q, 'c) router \<Rightarrow> bool" where
  "registered base l r \<longleftrightarrow>
     (case l of (ids, queues, alive) \<Rightarrow>
        fst ` set (r_routing r) = base \<union> alive \<and> base \<union> alive \<subseteq> ids \<and> base \<inter> alive = {}
        \<and> set (collect_of endpoint_queue (r_routing r)) \<subseteq> queues)"

lemma build_routing [simp]: "r_routing (fst (build_routable_state p r)) = r_routing r"
  by (simp add: build_routable_state_def split: option.split)

lemma life_step_registered:
  assumes "registered base l r" and "life_step ev l = Some l'" and "router_reach env r"
  shows "registered base l' (handle_event env ev r) \<and> router_reach env (handle_event env ev r)"
proof -
  obtain ids queues alive where l: "l = (ids, queues, alive)" by (cases l)
  show ?thesis
  proof (cases ev)
    case (EndpointAdded i name stats payload)
    with assms(2) show ?thesis by simp
  next
    case (PeerAdded parent c name stats p)
    with assms(2) l have fresh: "c \<notin> ids" "tq_inner (ro_tx_queue p) \<notin> queues"
      and l': "l' = (insert c ids, insert (tq_inner (ro_tx_queue p)) queues, insert c alive)" by (auto split: if_splits)
    have c: "c \<notin> fst ` set (r_routing r)" using assms(1) fresh by (auto simp: registered_def l)
    have "event_fresh ev r" using assms(1) fresh c by (auto simp: registered_def l PeerAdded)
    with assms(3) have "router_reach env (handle_event env ev r)" by (rule reach_event)
    moreover have "r_routing (handle_event env ev r) = r_routing r @
        [(c, \<lparr>re_name = name, re_stats = stats, re_routable = Some (snd (build_routable_state p r))\<rparr>)]"
      using c by (simp add: PeerAdded register_routable_def case_prod_unfold Let_def update_fresh)
    ultimately show ?thesis using assms(1) c fresh
      by (auto simp: registered_def l l' collect_of_append endpoint_queue_def build_routable_state_def)
  next
    case (PeerRemoved parent c reason)
    with assms(2) l have c: "c \<in> alive" and l': "l' = (ids, queues, alive - {c})" by (auto split: if_splits)
    have "router_reach env (handle_event env ev r)" by (rule reach_event [OF assms(3)]) (simp add: PeerRemoved)
    moreover have "c \<in> fst ` set (r_routing r)" using assms(1) c by (auto simp: registered_def l)
    then obtain entry where "map_of (r_routing r) c = Some entry" by (metis map_of_eq_None_iff option.exhaust)
    then have "r_routing (handle_event env ev r) = AList.delete c (r_routing r)" by (simp add: PeerRemoved Let_def)
    moreover have "set (collect_of endpoint_queue (AList.delete c (r_routing r))) \<subseteq> set (collect_of endpoint_queue (r_routing r))"
      by (fastforce simp: set_collect_of AList.delete_eq)
    moreover have "fst ` set (AList.delete c (r_routing r)) = fst ` set (r_routing r) - {c}" by (auto simp: AList.delete_eq)
    ultimately show ?thesis using assms(1) c by (auto simp: registered_def l l')
  qed
qed

lemma life_run_registered:
  "registered base l r \<Longrightarrow> life_run evs l = Some l' \<Longrightarrow> router_reach env r \<Longrightarrow>
   registered base l' (fold (handle_event env) evs r) \<and> router_reach env (fold (handle_event env) evs r)"
proof (induction evs arbitrary: l r)
  case (Cons ev evs)
  from Cons.prems(2) obtain l1 where l1: "life_step ev l = Some l1" "life_run evs l1 = Some l'" by (auto split: option.splits)
  from life_step_registered [OF Cons.prems(1) l1(1) Cons.prems(3)] Cons.IH [OF _ l1(2)] show ?case by simp
qed simp

end
