(* ===== verification/Udp_Server_Correct.thy ===== *)
theory Udp_Server_Correct
  imports Udp_Server Udp_Client Lifecycle
begin

text \<open>
  The UDP server keeps the listener's side of the peer contract, its table of peers stays within
  its capacity, and an idle or evicted peer is the one the policy says.
\<close>

declare map_of_eq_Some_iff [simp del]

section \<open>The table of peers\<close>

definition child_ids :: "(socket_addr \<times> peer_entry) list \<Rightarrow> endpoint_id list" where
  "child_ids peers = map (\<lambda>(_, peer). pe_child_id peer) peers"

lemma child_ids_simps [simp]:
  "child_ids [] = []" "child_ids ((a, p) # peers) = pe_child_id p # child_ids peers"
  "child_ids (xs @ ys) = child_ids xs @ child_ids ys"
  by (simp_all add: child_ids_def)

lemma child_ids_delete:
  assumes "distinct (map fst peers)" and "distinct (child_ids peers)" and "(a, p) \<in> set peers"
  shows "set (child_ids (AList.delete a peers)) = set (child_ids peers) - {pe_child_id p}"
    and "distinct (child_ids (AList.delete a peers))"
    and "distinct (map fst (AList.delete a peers))" and "length (AList.delete a peers) < length peers"
proof -
  have "set (child_ids (AList.delete a peers)) = set (child_ids peers) - {pe_child_id p}
      \<and> distinct (child_ids (AList.delete a peers)) \<and> length (AList.delete a peers) < length peers"
    using assms
  proof (induction peers)
    case (Cons x peers)
    obtain b q where x: "x = (b, q)" by (cases x)
    show ?case
    proof (cases "b = a")
      case True
      with Cons.prems x have "AList.delete a peers = peers" "q = p" by (auto simp: delete_id) force+
      with Cons.prems x True show ?thesis by simp
    next
      case False
      with Cons.prems x have "(a, p) \<in> set peers" by auto
      moreover from this have "pe_child_id p \<in> set (child_ids peers)" by (force simp: child_ids_def)
      ultimately show ?thesis using Cons x False by auto
    qed
  qed simp
  then show "set (child_ids (AList.delete a peers)) = set (child_ids peers) - {pe_child_id p}"
    "distinct (child_ids (AList.delete a peers))" "length (AList.delete a peers) < length peers" by auto
  show "distinct (map fst (AList.delete a peers))" using assms(1) by (simp add: distinct_delete)
qed

lemma child_ids_update:
  assumes "map_of peers a = Some p" and "pe_child_id p' = pe_child_id p"
  shows "child_ids (AList.update a p' peers) = child_ids peers" "map fst (AList.update a p' peers) = map fst peers"
  using assms by (induction peers) auto

section \<open>The invariant\<close>

text \<open>
  \<^term>\<open>k\<close> bounds the identifiers taken from the shared allocator so far. Every identifier in use is
  below the allocator's counter, every queue below the store's.
\<close>

definition udps_ok :: "nat \<Rightarrow> nat \<Rightarrow> life \<Rightarrow> ('q, 'c, 'e) udp_server \<Rightarrow> bool" where
  "udps_ok cap k l u \<longleftrightarrow>
     (case l of (ids, queues, alive) \<Rightarrow>
        (\<exists>m \<le> k. ida_next (us_alloc u) = of_nat m \<and> ids \<subseteq> of_nat ` {..<m})
        \<and> queues \<subseteq> {..<sto_next (us_store u)} \<and> alive \<subseteq> ids
        \<and> distinct (map fst (us_peers u)) \<and> distinct (child_ids (us_peers u))
        \<and> alive = set (child_ids (us_peers u)) \<and> length (us_peers u) \<le> max cap 1)"

text \<open>The events a step sends drive the automaton from \<^term>\<open>l\<close> to \<^term>\<open>l'\<close>.\<close>

definition announces :: "('e \<Rightarrow> endpoint_event list) \<Rightarrow> life \<Rightarrow> life \<Rightarrow> ('q, 'c, 'e) udp_server \<Rightarrow> ('q, 'c, 'e) udp_server \<Rightarrow> bool" where
  "announces contents l l' u u' \<longleftrightarrow>
     (\<exists>evs. contents (us_event_tx u') = contents (us_event_tx u) @ evs \<and> life_run evs l = Some l')"

lemma announces_refl: "us_event_tx u' = us_event_tx u \<Longrightarrow> announces contents l l u u'"
  by (auto simp: announces_def intro: exI [of _ "[]"])

lemma announces_trans: "announces contents l l1 u u1 \<Longrightarrow> announces contents l1 l2 u1 u2 \<Longrightarrow> announces contents l l2 u u2"
  unfolding announces_def by (metis (no_types, lifting) append.assoc life_run_append option.simps(5))

lemma announces_one:
  "contents (us_event_tx u') = contents (us_event_tx u) @ [ev] \<Longrightarrow> life_step ev l = Some l' \<Longrightarrow> announces contents l l' u u'"
  unfolding announces_def by (intro exI [of _ "[ev]"]) simp

lemma retire_peer_simps [simp]:
  "us_peers (retire_peer se pid rsn e u) = us_peers u" "us_alloc (retire_peer se pid rsn e u) = us_alloc u"
  "us_store (retire_peer se pid rsn e u) = us_store u"
  "us_frame_tx (retire_peer se pid rsn e u) = us_frame_tx u" "us_writers (retire_peer se pid rsn e u) = us_writers u"
  by (simp_all add: retire_peer_def)

text \<open>Forgetting one peer of the table.\<close>

lemma retire_ok:
  fixes pid :: endpoint_id and reason :: peer_removal_reason
  assumes "reliable_events send_event contents" and "udps_ok cap k (ids, queues, alive) u" and "(a, p) \<in> set (us_peers u)"
  defines "u' \<equiv> retire_peer send_event pid reason p (u\<lparr>us_peers := AList.delete a (us_peers u)\<rparr>)"
  shows "udps_ok cap k (ids, queues, alive - {pe_child_id p}) u'
    \<and> announces contents (ids, queues, alive) (ids, queues, alive - {pe_child_id p}) u u'
    \<and> length (us_peers u') < length (us_peers u)"
proof -
  have d: "distinct (map fst (us_peers u))" "distinct (child_ids (us_peers u))" and alive: "alive = set (child_ids (us_peers u))"
    using assms(2) by (auto simp: udps_ok_def)
  note del = child_ids_delete [OF d assms(3)]
  have "pe_child_id p \<in> alive" using assms(3) alive by (force simp: child_ids_def)
  then have "life_step (PeerRemoved pid (pe_child_id p) reason) (ids, queues, alive) = Some (ids, queues, alive - {pe_child_id p})" by simp
  moreover have "contents (us_event_tx u') = contents (us_event_tx u) @ [PeerRemoved pid (pe_child_id p) reason]"
    using assms(1) by (simp add: u'_def retire_peer_def reliable_events_def)
  ultimately have "announces contents (ids, queues, alive) (ids, queues, alive - {pe_child_id p}) u u'"
    by (rule announces_one [rotated])
  moreover have "udps_ok cap k (ids, queues, alive - {pe_child_id p}) u'"
    using assms(2) del alive by (auto simp: udps_ok_def u'_def)
  ultimately show ?thesis using del by (simp add: u'_def)
qed

lemma reap_one_ok:
  assumes "reliable_events send_event contents" and "udps_ok cap k l u"
  shows "\<exists>l'. udps_ok cap k l' (reap_one send_event pid a u) \<and> announces contents l l' u (reap_one send_event pid a u)"
proof (cases "map_of (us_peers u) a")
  case None
  then have "reap_one send_event pid a u = u" by (simp add: reap_one_def)
  with assms(2) announces_refl [of u u contents l] show ?thesis by metis
next
  case (Some p)
  obtain ids queues alive where l: "l = (ids, queues, alive)" by (cases l)
  from retire_ok [OF assms(1) assms(2) [unfolded l] map_of_SomeD [OF Some], of pid Reason_Idle] Some show ?thesis
    by (auto simp: reap_one_def l)
qed

lemma reap_all_ok:
  assumes "reliable_events send_event contents"
  shows "udps_ok cap k l u \<Longrightarrow>
    \<exists>l'. udps_ok cap k l' (fold (reap_one send_event pid) addrs u) \<and> announces contents l l' u (fold (reap_one send_event pid) addrs u)"
proof (induction addrs arbitrary: l u)
  case Nil
  with announces_refl [of u u contents l] show ?case by (metis fold_simps(1))
next
  case (Cons a addrs)
  from reap_one_ok [OF assms Cons.prems, of pid a] obtain l1 where
    l1: "udps_ok cap k l1 (reap_one send_event pid a u)" "announces contents l l1 u (reap_one send_event pid a u)" by blast
  from Cons.IH [OF l1(1)] announces_trans [OF l1(2)] show ?case by fastforce
qed

lemma evict_ok:
  assumes "reliable_events send_event contents" and "udps_ok cap k (ids, queues, alive) u" and "us_peers u \<noteq> []"
  shows "\<exists>p \<in> snd ` set (us_peers u).
    udps_ok cap k (ids, queues, alive - {pe_child_id p}) (evict_lru_peer send_event pid u)
    \<and> length (us_peers (evict_lru_peer send_event pid u)) < length (us_peers u)
    \<and> contents (us_event_tx (evict_lru_peer send_event pid u)) =
        contents (us_event_tx u) @ [PeerRemoved pid (pe_child_id p) Reason_LruEvicted]
    \<and> fst ` set (us_peers (evict_lru_peer send_event pid u)) \<subseteq> fst ` set (us_peers u)"
proof -
  obtain i where i: "min_index (\<lambda>(_, peer). pe_last_seen peer) (us_peers u) = Some i"
    using assms(3) by (cases "min_index (\<lambda>(_, peer). pe_last_seen peer) (us_peers u)") auto
  obtain a p where ap: "us_peers u ! i = (a, p)" by (cases "us_peers u ! i")
  have mem: "(a, p) \<in> set (us_peers u)" using min_index_Some [OF i] ap by (metis nth_mem)
  have ev: "evict_lru_peer send_event pid u =
      retire_peer send_event pid Reason_LruEvicted p (u\<lparr>us_peers := AList.delete a (us_peers u)\<rparr>)"
    by (simp add: evict_lru_peer_def i ap)
  have "contents (us_event_tx (evict_lru_peer send_event pid u)) =
      contents (us_event_tx u) @ [PeerRemoved pid (pe_child_id p) Reason_LruEvicted]"
    using assms(1) by (simp add: ev retire_peer_def reliable_events_def)
  moreover have "fst ` set (us_peers (evict_lru_peer send_event pid u)) \<subseteq> fst ` set (us_peers u)"
    by (auto simp: ev AList.delete_eq)
  ultimately show ?thesis using retire_ok [OF assms(1,2) mem, of pid Reason_LruEvicted] mem by (force simp: ev)
qed

lemma udps_ok_other:
  assumes "udps_ok cap k l u"
  shows "udps_ok cap (k + n) l (reap_finished fin (u\<lparr>us_alloc := snd (alloc_ids n (us_alloc u))\<rparr>))"
proof -
  obtain ids queues alive where l: "l = (ids, queues, alive)" by (cases l)
  from assms obtain m where m: "m \<le> k" "ida_next (us_alloc u) = of_nat m" "ids \<subseteq> of_nat ` {..<m}" by (auto simp: udps_ok_def l)
  then have "m + n \<le> k + n" "ida_next (snd (alloc_ids n (us_alloc u))) = of_nat (m + n)" "ids \<subseteq> of_nat ` {..<m + n}"
    by (auto simp: alloc_ids_next)
  then have "\<exists>m' \<le> k + n. ida_next (snd (alloc_ids n (us_alloc u))) = of_nat m' \<and> ids \<subseteq> of_nat ` {..<m'}" by blast
  with assms show ?thesis by (auto simp: udps_ok_def l reap_finished_def)
qed

lemma udps_ok_mono: "udps_ok cap k l u \<Longrightarrow> k \<le> k' \<Longrightarrow> udps_ok cap k' l u"
  unfolding udps_ok_def by (auto split: prod.splits) (metis le_trans)

text \<open>Making room for a newcomer \<^term>\<open>c\<close> that has just been announced.\<close>

lemma make_room:
  fixes pid :: endpoint_id
  assumes "reliable_events send_event contents" and ok: "udps_ok cap k (ids, queues, alive) u" and "c \<notin> ids"
  defines "u' \<equiv> if cap \<le> length (us_peers u) then evict_lru_peer send_event pid u else u"
  shows "\<exists>alive'. udps_ok cap k (ids, queues, alive') u' \<and> length (us_peers u') < max cap 1
    \<and> announces contents (insert c ids, qs, insert c alive) (insert c ids, qs, insert c alive') u u'
    \<and> fst ` set (us_peers u') \<subseteq> fst ` set (us_peers u)"
proof (cases "cap \<le> length (us_peers u) \<and> us_peers u \<noteq> []")
  case True
  from evict_ok [OF assms(1) ok, of pid] True obtain p where
    p: "p \<in> snd ` set (us_peers u)" "udps_ok cap k (ids, queues, alive - {pe_child_id p}) u'"
      "length (us_peers u') < length (us_peers u)"
      "contents (us_event_tx u') = contents (us_event_tx u) @ [PeerRemoved pid (pe_child_id p) Reason_LruEvicted]"
      "fst ` set (us_peers u') \<subseteq> fst ` set (us_peers u)" by (auto simp: u'_def)
  have "pe_child_id p \<in> alive" using p(1) ok by (force simp: udps_ok_def child_ids_def)
  moreover from this ok have "pe_child_id p \<noteq> c" using assms(3) by (auto simp: udps_ok_def)
  ultimately have "life_step (PeerRemoved pid (pe_child_id p) Reason_LruEvicted) (insert c ids, qs, insert c alive)
      = Some (insert c ids, qs, insert c (alive - {pe_child_id p}))" by auto
  from announces_one [OF p(4) this] have "announces contents (insert c ids, qs, insert c alive) (insert c ids, qs, insert c (alive - {pe_child_id p})) u u'" .
  moreover have "length (us_peers u') < max cap 1" using p(3) ok by (auto simp: udps_ok_def)
  ultimately show ?thesis using p(2,5) by blast
next
  case False
  then have "u' = u" by (auto simp: u'_def evict_lru_peer_def)
  moreover have "length (us_peers u) < max cap 1" using False by (cases "us_peers u") (auto simp: max_def)
  ultimately show ?thesis using ok announces_refl [of u u contents] by auto
qed

lemma insert_peer_ok:
  assumes "udps_ok cap k (ids, queues, alive) u" and "ida_next (us_alloc u) = of_nat (Suc m)" and "m < k"
    and "ids \<subseteq> of_nat ` {..<m}" and "c = of_nat m" and "c \<notin> ids" and "q < sto_next (us_store u)"
    and "length (us_peers u) < max cap 1" and "src \<notin> fst ` set (us_peers u)" and "pe_child_id entry = c"
  shows "udps_ok cap k (insert c ids, insert q queues, insert c alive)
    (u\<lparr>us_writers := ws, us_peers := AList.update src entry (us_peers u)\<rparr>)"
proof -
  have "insert c ids \<subseteq> of_nat ` {..<Suc m}" using assms(4,5) by auto
  then have "\<exists>m' \<le> k. ida_next (us_alloc u) = of_nat m' \<and> insert c ids \<subseteq> of_nat ` {..<m'}"
    using assms(2,3) by (intro exI [of _ "Suc m"]) auto
  with assms show ?thesis by (auto simp: udps_ok_def update_fresh)
qed

lemma admit_ok:
  assumes rel: "reliable_events send_event contents" and ok: "udps_ok (uss_peer_capacity spec) k l u" and "k < 2 ^ 64"
    and new: "map_of (us_peers u) src = None"
  shows "\<exists>u' l'. admit_new_peer aq send_event spec now src u = (u', True)
    \<and> udps_ok (uss_peer_capacity spec) (Suc k) l' u' \<and> announces contents l l' u u'"
proof -
  let ?cap = "uss_peer_capacity spec"
  obtain ids queues alive where l: "l = (ids, queues, alive)" by (cases l)
  from ok obtain m where m: "m \<le> k" "ida_next (us_alloc u) = of_nat m" "ids \<subseteq> of_nat ` {..<m}" by (auto simp: udps_ok_def l)
  define c where "c = ida_next (us_alloc u)"
  have cm: "c = of_nat m" using m(2) by (simp add: c_def)
  have fresh: "c \<notin> ids" using m(1,3) assms(3) of_nat_fresh [of m] by (auto simp: cm)
  define q where "q = Suc (sto_next (us_store u))"
  define st where "st = snd (tx_new aq DEFAULT_TX_QUEUE_FRAMES (sto_next (us_store u)) (snd (alloc_stats Connected (us_store u))))"
  define ro where "ro = \<lparr>ro_tx_queue = \<lparr>tq_inner = q, tq_notify = q, tq_stats = sto_next (us_store u)\<rparr>,
      ro_identity = uss_identity spec, ro_endpoint_name = uss_parent_name spec\<rparr>"
  define ev where "ev = PeerAdded (uss_parent_id spec) c (peer_endpoint_name (uss_parent_name spec) src) (sto_next (us_store u)) ro"
  define u1 where "u1 = u\<lparr>us_alloc := (us_alloc u)\<lparr>ida_next := c + 1\<rparr>, us_store := st, us_next_token := us_next_token u + 1,
      us_event_tx := fst (send_event ev (us_event_tx u))\<rparr>"
  define u2 where "u2 = (if ?cap \<le> length (us_peers u1) then evict_lru_peer send_event (uss_parent_id spec) u1 else u1)"
  have st: "sto_next st = Suc q" by (simp add: st_def tx_new_def alloc_stats_def q_def Let_def)
  have add: "announces contents l (insert c ids, insert q queues, insert c alive) u u1"
  proof (rule announces_one [where ev = ev])
    show "contents (us_event_tx u1) = contents (us_event_tx u) @ [ev]" using rel by (simp add: u1_def reliable_events_def)
    have "q \<notin> queues" using ok by (auto simp: udps_ok_def l q_def)
    with fresh show "life_step ev l = Some (insert c ids, insert q queues, insert c alive)" by (simp add: ev_def ro_def l)
  qed
  have "\<exists>m' \<le> Suc k. ida_next (us_alloc u1) = of_nat m' \<and> ids \<subseteq> of_nat ` {..<m'}"
    using m by (intro exI [of _ "Suc m"]) (auto simp: u1_def cm)
  moreover have "queues \<subseteq> {..<sto_next (us_store u1)}" using ok st by (auto simp: udps_ok_def l u1_def q_def)
  ultimately have "udps_ok ?cap (Suc k) (ids, queues, alive) u1" using ok by (auto simp: udps_ok_def l u1_def)
  from make_room [OF rel this fresh, of "uss_parent_id spec" "insert q queues", folded u2_def] obtain alive' where
    room: "udps_ok ?cap (Suc k) (ids, queues, alive') u2" "length (us_peers u2) < max ?cap 1"
      "announces contents (insert c ids, insert q queues, insert c alive) (insert c ids, insert q queues, insert c alive') u1 u2"
      "fst ` set (us_peers u2) \<subseteq> fst ` set (us_peers u1)" by blast
  have same: "us_alloc u2 = us_alloc u1" "us_store u2 = us_store u1"
    by (simp_all add: u2_def evict_lru_peer_def case_prod_unfold Let_def split: option.split)
  have src: "src \<notin> fst ` set (us_peers u2)" using new room(4) by (auto simp: u1_def map_of_eq_None_iff)
  define ws where "ws = us_writers u2 @ [\<lparr>pw_addr = src, pw_queue = ro_tx_queue ro, pw_stats = sto_next (us_store u), pw_cancel = us_next_token u\<rparr>]"
  define entry where "entry = \<lparr>pe_child_id = c, pe_framer = framer_new, pe_last_seen = now,
      pe_framer_counters = counters_new, pe_seq_tracker = seq_new SEQ_TRACKER_CAPACITY,
      pe_stats = sto_next (us_store u), pe_writer_cancel = us_next_token u\<rparr>"
  have sent: "snd (send_event ev (us_event_tx u))" using rel by (simp add: reliable_events_def)
  have fin: "admit_new_peer aq send_event spec now src u =
      (u2\<lparr>us_writers := ws, us_peers := AList.update src entry (us_peers u2)\<rparr>, True)"
    using sent
    by (simp add: admit_new_peer_def alloc_id_def alloc_stats_def tx_new_def Let_def case_prod_unfold
        u2_def u1_def ev_def ro_def c_def st_def q_def ws_def entry_def)
  have child: "pe_child_id entry = c" by (simp add: entry_def)
  have "udps_ok ?cap (Suc k) (insert c ids, insert q queues, insert c alive')
      (u2\<lparr>us_writers := ws, us_peers := AList.update src entry (us_peers u2)\<rparr>)"
    by (rule insert_peer_ok [OF room(1) _ _ m(3) cm fresh _ room(2) src child])
      (use m(1) st in \<open>simp_all add: same u1_def cm\<close>)
  moreover have "announces contents l (insert c ids, insert q queues, insert c alive') u
      (u2\<lparr>us_writers := ws, us_peers := AList.update src entry (us_peers u2)\<rparr>)"
    using announces_trans [OF announces_trans [OF add room(3)] announces_refl] by simp
  ultimately show ?thesis using fin by blast
qed

lemma put_session_ok:
  assumes "udps_ok cap k l u" and "map_of (us_peers u) src = Some p0" and "pe_child_id peer = pe_child_id p0"
    and "sto_next (se_store s) = sto_next (us_store u)"
  shows "udps_ok cap k l (put_session src peer s u)"
proof -
  define p where "p = peer\<lparr>pe_framer := se_framer s, pe_framer_counters := se_counters s, pe_seq_tracker := se_tracker s\<rparr>"
  have "pe_child_id p = pe_child_id p0" using assms(3) by (simp add: p_def)
  note upd = child_ids_update [OF assms(2) this]
  have "length (AList.update src p (us_peers u)) = length (us_peers u)" using arg_cong [OF upd(2), of length] by simp
  with assms(1,4) upd show ?thesis unfolding put_session_def p_def [symmetric] by (auto simp: udps_ok_def)
qed

lemma handle_packet_ok:
  assumes rel: "reliable_events send_event contents" and ok: "udps_ok (uss_peer_capacity spec) k l u" and "k < 2 ^ 64"
    and run: "handle_packet tbl send aq send_event spec now data src u = Some u'"
  shows "\<exists>l'. udps_ok (uss_peer_capacity spec) (Suc k) l' u' \<and> announces contents l l' u u'"
proof -
  have "\<exists>u1 l1. (if map_of (us_peers u) src = None then admit_new_peer aq send_event spec now src u else (u, True)) = (u1, True)
      \<and> udps_ok (uss_peer_capacity spec) (Suc k) l1 u1 \<and> announces contents l l1 u u1"
  proof (cases "map_of (us_peers u) src = None")
    case True
    with admit_ok [OF rel ok assms(3) True, of aq now] show ?thesis by simp
  next
    case False
    have "udps_ok (uss_peer_capacity spec) (Suc k) l u \<and> announces contents l l u u"
      using udps_ok_mono [OF ok, of "Suc k"] announces_refl [of u u contents l] by simp
    with False show ?thesis by (intro exI [of _ u] exI [of _ l]) auto
  qed
  then obtain u1 l1 where u1: "(if map_of (us_peers u) src = None then admit_new_peer aq send_event spec now src u else (u, True)) = (u1, True)"
    "udps_ok (uss_peer_capacity spec) (Suc k) l1 u1" "announces contents l l1 u u1" by blast
  show ?thesis
  proof (cases "map_of (us_peers u1) src")
    case None
    with run u1(1) have "u' = u1" by (simp add: handle_packet_def)
    with u1 show ?thesis by blast
  next
    case (Some p0)
    define peer where "peer = p0\<lparr>pe_last_seen := now, pe_framer := framer_extend (pe_framer p0) data\<rparr>"
    define ctx where "ctx = \<lparr>sc_endpoint_id = pe_child_id peer, sc_stats = pe_stats peer, sc_filters = if_filters (uss_identity spec)\<rparr>"
    from run u1(1) Some obtain s go where f: "forward_inbound_frames tbl send ctx now (peer_session peer u1) = Some (s, go)"
      and u': "u' = put_session src peer (if go then (se_upd ctx (\<lambda>_. snd (counters_sync (se_counters s) (se_framer s)
          (sto_stats (se_store s) (sc_stats ctx)))) s)\<lparr>se_counters := fst (counters_sync (se_counters s) (se_framer s)
          (sto_stats (se_store s) (sc_stats ctx)))\<rparr> else s) u1"
      by (auto simp: handle_packet_def Let_def case_prod_unfold peer_def [symmetric] ctx_def [symmetric] split: option.splits bool.splits)
    have "sto_next (se_store s) = sto_next (us_store u1)"
      using forward_untouched [OF f] by (simp add: tx_untouched_def peer_session_def)
    then have "udps_ok (uss_peer_capacity spec) (Suc k) l1 u'"
      unfolding u' by (intro put_session_ok [OF u1(2) Some]) (simp_all add: peer_def se_upd_def)
    moreover have "announces contents l l1 u u'"
      using announces_trans [OF u1(3) announces_refl] by (simp add: u' put_session_def)
    ultimately show ?thesis by blast
  qed
qed

lemma retire_all:
  assumes "reliable_events send_event contents"
  shows "distinct (child_ids ps) \<Longrightarrow>
    announces contents (ids, queues, set (child_ids ps)) (ids, queues, {}) u
      (fold (\<lambda>(addr, entry). retire_peer send_event pid reason entry) ps u)"
proof (induction ps arbitrary: u)
  case Nil
  show ?case by (simp add: announces_refl)
next
  case (Cons x ps)
  obtain a p where x: "x = (a, p)" by (cases x)
  have "announces contents (ids, queues, set (child_ids (x # ps))) (ids, queues, set (child_ids ps)) u (retire_peer send_event pid reason p u)"
  proof (rule announces_one)
    show "contents (us_event_tx (retire_peer send_event pid reason p u)) = contents (us_event_tx u) @ [PeerRemoved pid (pe_child_id p) reason]"
      using assms by (simp add: retire_peer_def reliable_events_def)
  qed (use Cons.prems x in simp)
  with Cons.IH [of "retire_peer send_event pid reason p u"] Cons.prems x show ?case by (auto intro: announces_trans)
qed

lemma fold_retire_simps:
  "us_alloc (fold (\<lambda>(addr, entry). retire_peer se pid rsn entry) ps u) = us_alloc u"
  "us_store (fold (\<lambda>(addr, entry). retire_peer se pid rsn entry) ps u) = us_store u"
  "us_peers (fold (\<lambda>(addr, entry). retire_peer se pid rsn entry) ps u) = us_peers u"
  by (induction ps arbitrary: u) auto

lemma shutdown_ok:
  assumes "reliable_events send_event contents" and "udps_ok cap k (ids, queues, alive) u"
  shows "udps_ok cap k (ids, queues, {}) (shutdown_all_peers send_event pid u)
    \<and> announces contents (ids, queues, alive) (ids, queues, {}) u (shutdown_all_peers send_event pid u)
    \<and> us_peers (shutdown_all_peers send_event pid u) = []"
proof -
  have "distinct (child_ids (us_peers u))" and alive: "alive = set (child_ids (us_peers u))" using assms(2) by (auto simp: udps_ok_def)
  from retire_all [OF assms(1) this(1), of ids queues "u\<lparr>us_peers := []\<rparr>" pid Reason_ListenerShutdown]
  have "announces contents (ids, queues, alive) (ids, queues, {}) u (shutdown_all_peers send_event pid u)"
    by (simp add: announces_def shutdown_all_peers_def alive)
  with assms(2) show ?thesis by (auto simp: udps_ok_def shutdown_all_peers_def fold_retire_simps)
qed

section \<open>Rounds\<close>

lemma udps_round_ok:
  assumes rel: "reliable_events send_event contents" and ok: "udps_ok (uss_peer_capacity spec) k l u"
    and le: "k + (usi_other_ids i + 1) \<le> 2 ^ 64" and run: "udps_round tbl send aq send_event spec i u = Some (u', fin)"
  shows "\<exists>l'. udps_ok (uss_peer_capacity spec) (k + (usi_other_ids i + 1)) l' u' \<and> announces contents l l' u u'
    \<and> (fin \<longrightarrow> us_peers u' = [])"
proof -
  define u1 where "u1 = reap_finished (usi_finished i) (u\<lparr>us_alloc := snd (alloc_ids (usi_other_ids i) (us_alloc u))\<rparr>)"
  define k1 where "k1 = k + usi_other_ids i"
  have ok1: "udps_ok (uss_peer_capacity spec) k1 l u1" unfolding u1_def k1_def by (rule udps_ok_other [OF ok])
  have k: "k + (usi_other_ids i + 1) = Suc k1" "k1 < 2 ^ 64" using le by (simp_all add: k1_def)
  have lift: "\<exists>l'. udps_ok (uss_peer_capacity spec) (k + (usi_other_ids i + 1)) l' u'' \<and> announces contents l l' u u''"
    if "\<exists>l'. (udps_ok (uss_peer_capacity spec) k1 l' u'' \<or> udps_ok (uss_peer_capacity spec) (Suc k1) l' u'')
      \<and> announces contents l l' u1 u''" for u''
    using that udps_ok_mono [of _ k1 _ u'' "Suc k1"] unfolding k(1) announces_def by (auto simp: u1_def reap_finished_def)
  note round = run [unfolded udps_round_def, folded u1_def, unfolded Let_def]
  obtain ids queues alive where l: "l = (ids, queues, alive)" by (cases l)
  have idle: "\<exists>l'. udps_ok (uss_peer_capacity spec) (k + (usi_other_ids i + 1)) l' u1 \<and> announces contents l l' u u1"
    using lift [of u1] ok1 announces_refl [of u1 u1 contents l] by blast
  consider (cancel) "usi_cancelled i" | (tick) "\<not> usi_cancelled i" "usi_tick i"
    | (packet) data src where "\<not> usi_cancelled i" "\<not> usi_tick i" "usi_recv i = Some (Packet data src)"
    | (nothing) "\<not> usi_cancelled i" "\<not> usi_tick i" "usi_recv i = None \<or> usi_recv i = Some Packet_Err"
    by (metis option.exhaust packet.exhaust)
  then show ?thesis
  proof cases
    case cancel
    with round have u': "u' = shutdown_all_peers send_event (uss_parent_id spec) u1" by simp
    with shutdown_ok [OF rel ok1 [unfolded l]] lift [of u'] show ?thesis unfolding l by blast
  next
    case tick
    with round have u': "u' = reap_idle_peers send_event (uss_parent_id spec) (from_secs (uss_idle_secs spec)) (usi_now i) u1"
      and "\<not> fin" by auto
    with reap_all_ok [OF rel ok1] lift [of u'] show ?thesis unfolding reap_idle_peers_def by blast
  next
    case packet
    with round have "handle_packet tbl send aq send_event spec (usi_now i) data src u1 = Some u'" "\<not> fin" by auto
    with handle_packet_ok [OF rel ok1 k(2)] lift [of u'] show ?thesis by blast
  next
    case nothing
    with round have "u' = u1" "\<not> fin" by auto
    with idle show ?thesis by blast
  qed
qed

interpretation udps: peer_listener "\<lambda>i u. map_option fst (udps_round tbl send aq send_event spec i u)"
  "\<lambda>u. contents (us_event_tx u)" "\<lambda>i. usi_other_ids i + 1" "2 ^ 64"
  "\<lambda>k l u. reliable_events send_event contents \<and> udps_ok (uss_peer_capacity spec) k l u"
  for tbl send aq send_event spec contents
proof
  fix k l u i u'
  assume "reliable_events send_event contents \<and> udps_ok (uss_peer_capacity spec) k l u"
    and "k + (usi_other_ids i + 1) \<le> 2 ^ 64" and "map_option fst (udps_round tbl send aq send_event spec i u) = Some u'"
  with udps_round_ok [of send_event contents spec k l u i tbl send aq] show
    "\<exists>evs l'. contents (us_event_tx u') = contents (us_event_tx u) @ evs \<and> life_run evs l = Some l'
      \<and> reliable_events send_event contents \<and> udps_ok (uss_peer_capacity spec) (k + (usi_other_ids i + 1)) l' u'"
    by (fastforce simp: announces_def)
qed

lemma udps_loop_steps:
  "udps_loop tbl send aq send_event spec is u = Some (u', fin) \<Longrightarrow>
   \<exists>n. run_steps (\<lambda>i u. map_option fst (udps_round tbl send aq send_event spec i u)) (take n is) u = Some u'
     \<and> (fin \<longrightarrow> (\<exists>i u1. udps_round tbl send aq send_event spec i u1 = Some (u', True)))"
proof (induction "is" arbitrary: u)
  case (Cons i "is")
  from Cons.prems obtain u1 f1 where r: "udps_round tbl send aq send_event spec i u = Some (u1, f1)" by (auto split: option.splits)
  show ?case
  proof (cases f1)
    case True
    with Cons.prems r show ?thesis by (intro exI [of _ 1]) auto
  next
    case False
    with Cons.prems r have "udps_loop tbl send aq send_event spec is u1 = Some (u', fin)" by simp
    from Cons.IH [OF this] obtain n where
      "run_steps (\<lambda>i u. map_option fst (udps_round tbl send aq send_event spec i u)) (take n is) u1 = Some u'"
      "fin \<longrightarrow> (\<exists>i u1. udps_round tbl send aq send_event spec i u1 = Some (u', True))" by blast
    with r show ?thesis by (intro exI [of _ "Suc n"]) simp
  qed
qed auto

lemma shutdown_empties: "udps_round tbl send aq send_event spec i u = Some (u', True) \<Longrightarrow> us_peers u' = []"
  by (auto simp: udps_round_def shutdown_all_peers_def fold_retire_simps Let_def
      split: if_splits option.splits packet.splits)

text \<open>
  C28. A UDP listener keeps the registry of the router exact. Let the router be in a reachable state
  with the endpoints \<^verbatim>\<open>base\<close> registered, and let it handle the events a run of the listener sends, in
  order: it passes through reachable states only, so no identifier and no queue is announced twice
  and nothing is removed that was not announced, and at the end exactly \<^verbatim>\<open>base\<close> and the peers in the
  listener's table are registered. The table holds one entry per address and at most
  \<^verbatim>\<open>peer_capacity\<close> of them. When the run ends with a cancellation, all peers are unregistered.
\<close>

theorem udps_registry_exact:
  assumes "reliable_events send_event contents" and "contents ev0 = []"
    and "udps_loop tbl send aq send_event spec is (udps_new alloc st ch ev0) = Some (u, fin)"
    and "ida_next alloc = of_nat k" and "base \<subseteq> of_nat ` {..<k}" and "queues \<subseteq> {..<sto_next st}"
    and "k + (\<Sum>i\<leftarrow>is. usi_other_ids i + 1) \<le> 2 ^ 64"
    and "router_reach env r" and "fst ` set (r_routing r) = base" and "set (collect_of endpoint_queue (r_routing r)) \<subseteq> queues"
  shows "router_reach env (fold (handle_event env) (contents (us_event_tx u)) r)
    \<and> fst ` set (r_routing (fold (handle_event env) (contents (us_event_tx u)) r)) = base \<union> set (child_ids (us_peers u))
    \<and> distinct (map fst (us_peers u)) \<and> distinct (child_ids (us_peers u))
    \<and> length (us_peers u) \<le> max (uss_peer_capacity spec) 1
    \<and> (fin \<longrightarrow> us_peers u = [])"
proof -
  let ?u0 = "udps_new alloc st ch ev0" and ?l = "(base, queues, {}) :: life"
  have start: "udps_ok (uss_peer_capacity spec) k ?l ?u0" using assms(4,5,6) by (auto simp: udps_ok_def udps_new_def)
  from udps_loop_steps [OF assms(3)] obtain n where
    n: "run_steps (\<lambda>i u. map_option fst (udps_round tbl send aq send_event spec i u)) (take n is) ?u0 = Some u"
      "fin \<longrightarrow> us_peers u = []" using shutdown_empties by blast
  have "(\<Sum>i\<leftarrow>take n is. usi_other_ids i + 1) \<le> (\<Sum>i\<leftarrow>is. usi_other_ids i + 1)"
    by (metis append_take_drop_id le_add1 map_append sum_list_append)
  then have "k + (\<Sum>i\<leftarrow>take n is. usi_other_ids i + 1) \<le> 2 ^ 64" using assms(7) by linarith
  from udps.steps_life [OF conjI [OF assms(1) start] this n(1)] assms(2) obtain ids' queues' alive' k' where
    l': "life_run (contents (us_event_tx u)) ?l = Some (ids', queues', alive')" "udps_ok (uss_peer_capacity spec) k' (ids', queues', alive') u"
    by (auto simp: udps_new_def)
  have "registered base ?l r" using assms(9,10) by (simp add: registered_def)
  from life_run_registered [OF this l'(1) assms(8)] l'(2) n(2) show ?thesis by (auto simp: registered_def udps_ok_def)
qed

definition demo_udps_spec :: udp_server_spec where
  "demo_udps_spec = (udp_server_from_endpoint \<lparr>use_bind_addr = SocketV4 (Ipv4 0 0 0 0) 14550, use_idle_secs = None,
     use_identity = identity_default\<rparr> 0 ''bus'')\<lparr>uss_peer_capacity := 1\<rparr>"

definition demo_packet :: "u16 \<Rightarrow> instant \<Rightarrow> udps_input" where
  "demo_packet port now = \<lparr>usi_cancelled = False, usi_tick = False, usi_recv = Some (Packet [1] (SocketV4 (Ipv4 10 0 0 1) port)),
     usi_now = now, usi_finished = [], usi_other_ids = 0\<rparr>"

definition demo_udps_run :: "((nat \<times> bytes list, router_frame list, endpoint_event list) udp_server \<times> bool) option" where
  "demo_udps_run = udps_loop [] (\<lambda>f c. (c @ [f], True)) list_queue (\<lambda>ev e. (e @ [ev], True)) demo_udps_spec
     [demo_packet 1000 5, demo_packet 1001 6,
      \<lparr>usi_cancelled = True, usi_tick = False, usi_recv = None, usi_now = 7, usi_finished = [], usi_other_ids = 3\<rparr>]
     (udps_new \<lparr>ida_next = 1\<rparr> \<lparr>sto_stats = (\<lambda>_. stats_new Reconnecting), sto_queue = (\<lambda>_. (2, [])), sto_notified = (\<lambda>_. 0), sto_next = 1\<rparr> [] [])"

lemma demo_udps_removed:
  "map_option (\<lambda>(u, fin). ([c. PeerRemoved p c rsn \<leftarrow> us_event_tx u], fin)) demo_udps_run = Some ([1, 2], True)"
  by code_simp

theorem udps_registry_exact_witness:
  "\<exists>u fin. demo_udps_run = Some (u, fin)
    \<and> fst ` set (r_routing (fold (handle_event demo_env) (us_event_tx u) (router_new [] 0 16 demo_store))) = {}"
proof -
  obtain u where u: "demo_udps_run = Some (u, True)" using demo_udps_removed by (cases demo_udps_run) auto
  have "reliable_events (\<lambda>ev e. (e @ [ev], True)) id" by (simp add: reliable_events_def)
  have none: "r_routing (router_new [] 0 16 demo_store) = []" by (simp add: router_new_def)
  from udps_registry_exact [OF \<open>reliable_events _ id\<close> _ u [unfolded demo_udps_run_def], of 1 "{}" "{}" demo_env "router_new [] 0 16 demo_store"]
  have "fst ` set (r_routing (fold (handle_event demo_env) (us_event_tx u) (router_new [] 0 16 demo_store))) = {}"
    by (simp add: demo_packet_def reach_new none)
  with u show ?thesis by blast
qed

section \<open>No panic, bounded buffers\<close>

definition small_buffers :: "(socket_addr \<times> peer_entry) list \<Rightarrow> bool" where
  "small_buffers peers \<longleftrightarrow> (\<forall>(a, p) \<in> set peers. length (fr_buf (pe_framer p)) < 280)"

lemma small_buffers_Nil [simp]: "small_buffers []"
  by (simp add: small_buffers_def)

lemma small_buffers_subset: "small_buffers peers \<Longrightarrow> set peers' \<subseteq> set peers \<Longrightarrow> small_buffers peers'"
  by (auto simp: small_buffers_def)

lemma small_buffers_delete: "small_buffers peers \<Longrightarrow> small_buffers (AList.delete a peers)"
  by (erule small_buffers_subset) (auto simp: AList.delete_eq)

lemma set_update: "set (AList.update k v al) \<subseteq> insert (k, v) (set al)"
  by (induction al) auto

lemma small_buffers_update: "small_buffers peers \<Longrightarrow> length (fr_buf (pe_framer p)) < 280 \<Longrightarrow> small_buffers (AList.update a p peers)"
  using set_update [of a p peers] by (auto simp: small_buffers_def)

lemma evict_small: "small_buffers (us_peers u) \<Longrightarrow> small_buffers (us_peers (evict_lru_peer se pid u))"
  by (simp add: evict_lru_peer_def case_prod_unfold Let_def small_buffers_delete split: option.split)

lemma admit_small: "small_buffers (us_peers u) \<Longrightarrow> small_buffers (us_peers (fst (admit_new_peer aq se spec now src u)))"
  by (simp add: admit_new_peer_def case_prod_unfold Let_def small_buffers_update evict_small framer_new_def)

lemma reap_small: "small_buffers (us_peers u) \<Longrightarrow> small_buffers (us_peers (fold (reap_one se pid) addrs u))"
proof (induction addrs arbitrary: u)
  case (Cons a addrs)
  have "small_buffers (us_peers (reap_one se pid a u))"
    using Cons.prems by (simp add: reap_one_def small_buffers_delete split: option.split)
  then show ?case by (simp add: Cons.IH)
qed simp

lemma handle_packet_total:
  assumes "reliable send contents" and small: "small_buffers (us_peers u)" and "length data \<le> MAX_DATAGRAM_BYTES"
  shows "\<exists>u'. handle_packet tbl send aq send_event spec now data src u = Some u' \<and> small_buffers (us_peers u')"
proof -
  obtain u1 admitted where u1: "(if map_of (us_peers u) src = None then admit_new_peer aq send_event spec now src u else (u, True)) = (u1, admitted)"
    by (cases "if map_of (us_peers u) src = None then admit_new_peer aq send_event spec now src u else (u, True)")
  then have small1: "small_buffers (us_peers u1)" using admit_small [OF small, of aq send_event spec now src] small
    by (auto split: if_splits)
  show ?thesis
  proof (cases "admitted \<and> map_of (us_peers u1) src \<noteq> None")
    case False
    with u1 have "handle_packet tbl send aq send_event spec now data src u = Some u1" by (auto simp: handle_packet_def)
    with small1 show ?thesis by blast
  next
    case True
    then obtain p0 where p0: "map_of (us_peers u1) src = Some p0" by blast
    define peer where "peer = p0\<lparr>pe_last_seen := now, pe_framer := framer_extend (pe_framer p0) data\<rparr>"
    define ctx where "ctx = \<lparr>sc_endpoint_id = pe_child_id peer, sc_stats = pe_stats peer, sc_filters = if_filters (uss_identity spec)\<rparr>"
    have "length (fr_buf (pe_framer p0)) < 280" using small1 map_of_SomeD [OF p0] by (auto simp: small_buffers_def)
    then have "length (fr_buf (se_framer (peer_session peer u1))) < 2 ^ 64"
      using assms(3) by (simp add: peer_session_def peer_def MAX_DATAGRAM_BYTES_def)
    from forward_total [OF assms(1) this, of tbl ctx now] obtain s where
      s: "forward_inbound_frames tbl send ctx now (peer_session peer u1) = Some (s, True)" "length (fr_buf (se_framer s)) < 280" by blast
    have "small_buffers (us_peers (put_session src peer (s\<lparr>se_store := st, se_counters := c\<rparr>) u1))" for st c
      using small_buffers_update [OF small1] s(2) by (simp add: put_session_def)
    then show ?thesis using u1 True p0 s(1)
      by (simp add: handle_packet_def case_prod_unfold Let_def peer_def [symmetric] ctx_def [symmetric] se_upd_def)
  qed
qed

lemma udps_round_total:
  assumes "reliable send contents" and "small_buffers (us_peers u)"
    and "\<forall>data src. usi_recv i = Some (Packet data src) \<longrightarrow> length data \<le> MAX_DATAGRAM_BYTES"
  shows "\<exists>u' fin. udps_round tbl send aq send_event spec i u = Some (u', fin) \<and> small_buffers (us_peers u')"
proof -
  define u1 where "u1 = reap_finished (usi_finished i) (u\<lparr>us_alloc := snd (alloc_ids (usi_other_ids i) (us_alloc u))\<rparr>)"
  have small1: "small_buffers (us_peers u1)" using assms(2) by (simp add: u1_def reap_finished_def)
  have "small_buffers (us_peers (shutdown_all_peers send_event pid u1))" for pid
    by (simp add: shutdown_all_peers_def fold_retire_simps small_buffers_def)
  moreover have "small_buffers (us_peers (reap_idle_peers send_event pid idle now u1))" for pid idle now
    by (simp add: reap_idle_peers_def reap_small small1)
  moreover note handle_packet_total [OF assms(1) small1] small1
  ultimately show ?thesis using assms(3) unfolding udps_round_def u1_def [symmetric] Let_def
    by (auto split: option.splits packet.splits) (metis option.simps(9))
qed

text \<open>
  C32. The listener never panics and keeps little per peer: while the router is listening, a run over
  datagrams of any content and origin, up to the size of the receive buffer, always returns, and
  between datagrams every peer's accumulator holds less than one maximal frame, 280 bytes.
\<close>

theorem udps_never_panics:
  assumes "reliable send contents" and "\<forall>i \<in> set is. \<forall>data src. usi_recv i = Some (Packet data src) \<longrightarrow> length data \<le> MAX_DATAGRAM_BYTES"
  shows "\<exists>u fin. udps_loop tbl send aq send_event spec is (udps_new alloc st ch ev0) = Some (u, fin)
    \<and> (\<forall>(a, p) \<in> set (us_peers u). length (fr_buf (pe_framer p)) < 280)"
proof -
  have "small_buffers (us_peers u0) \<Longrightarrow> \<exists>u fin. udps_loop tbl send aq send_event spec is u0 = Some (u, fin) \<and> small_buffers (us_peers u)" for u0
    using assms(2)
  proof (induction "is" arbitrary: u0)
    case (Cons i "is")
    from udps_round_total [OF assms(1) Cons.prems(1), of i tbl aq send_event spec] Cons.prems(2) obtain u1 f1 where
      "udps_round tbl send aq send_event spec i u0 = Some (u1, f1)" "small_buffers (us_peers u1)" by auto
    with Cons.IH [of u1] Cons.prems(2) show ?case by (cases f1) auto
  qed auto
  from this [of "udps_new alloc st ch ev0"] show ?thesis by (simp add: small_buffers_def udps_new_def)
qed

theorem udps_never_panics_witness:
  "\<exists>u fin. demo_udps_run = Some (u, fin) \<and> (\<forall>(a, p) \<in> set (us_peers u). length (fr_buf (pe_framer p)) < 280)"
  unfolding demo_udps_run_def
  by (rule udps_never_panics [where contents = id]) (simp_all add: reliable_def demo_packet_def MAX_DATAGRAM_BYTES_def)

section \<open>The writer of a peer\<close>

lemma tx_inv_lost:
  assumes "aq_laws aq items capq" and "tx_inv items capq tq d0 ins (st, out)" and "tx_pop aq tq st = (st', Some frame)"
  shows "tx_inv items capq tq d0 ins (upd_stats (tq_stats tq) (add_dropped_tx 1) st', out)"
proof -
  from poll_inv [OF assms] have inv: "tx_inv items capq tq d0 ins (st', out @ [frame])" by simp
  then have "subseq (out @ items (sto_queue st' (tq_inner tq))) ins"
    by (auto simp: tx_inv_def Let_def intro: subseq_mid)
  with inv show ?thesis by (simp add: tx_inv_def Let_def add_dropped_tx_def algebra_simps)
qed

lemma peer_writer_round_cancelled:
  assumes "aq_laws aq items capq" and "tx_inv items capq tq d0 ins (push_all aq tq (wi_pushed i) st0, sent)" and "wi_cancelled i"
  shows "\<exists>st. peer_writer_round aq tq r i (st0, sent) = Some (st, sent, True)
    \<and> tx_inv items capq tq d0 ins (st, sent) \<and> items (sto_queue st (tq_inner tq)) = []"
proof -
  let ?st1 = "push_all aq tq (wi_pushed i) st0"
  from drain_and_discard_total [OF assms(1), of tq ?st1] obtain st n where
    d: "drain_and_discard aq tq ?st1 = Some (st, n)" "items (sto_queue st (tq_inner tq)) = []" by force
  from tx_step_inv [OF assms(1,2), of Op_Drain] d(1) have "tx_inv items capq tq d0 ins (st, sent)" by simp
  with d assms(3) show ?thesis by (simp add: peer_writer_round_def Let_def)
qed

lemma peer_writer_round_serves:
  assumes "aq_laws aq items capq" and "tx_inv items capq tq d0 ins (push_all aq tq (wi_pushed i) st0, sent)" and "\<not> wi_cancelled i"
  shows "\<exists>st sent'. peer_writer_round aq tq (tq_stats tq) i (st0, sent) = Some (st, sent', False)
    \<and> tx_inv items capq tq d0 ins (st, sent')"
proof -
  let ?st1 = "push_all aq tq (wi_pushed i) st0"
  obtain st2 x where p: "tx_pop aq tq ?st1 = (st2, x)" by (cases "tx_pop aq tq ?st1")
  note inv = poll_inv [OF assms(1,2) p]
  show ?thesis
  proof (cases x)
    case None
    with inv p assms(3) show ?thesis by (simp add: peer_writer_round_def Let_def poll_pop_or_wait_def)
  next
    case (Some frame)
    have "tx_inv items capq tq d0 ins (upd_stats (tq_stats tq) (add_tx_frame n) st2, sent @ [frame])" for n
      using inv Some by (simp add: tx_inv_def add_tx_frame_def)
    moreover have "tx_inv items capq tq d0 ins (upd_stats (tq_stats tq) (add_dropped_tx 1) st2, sent)"
      by (rule tx_inv_lost [OF assms(1,2)]) (use p Some in simp)
    ultimately show ?thesis using p Some assms(3)
      by (cases "wi_send i") (simp_all add: peer_writer_round_def Let_def poll_pop_or_wait_def)
  qed
qed

lemma peer_writer_round_inv:
  assumes laws: "aq_laws aq items capq" and inv: "tx_inv items capq tq d0 ins s"
  shows "\<exists>st sent fin. peer_writer_round aq tq (tq_stats tq) i s = Some (st, sent, fin)
    \<and> tx_inv items capq tq d0 (ins @ wi_pushed i) (st, sent) \<and> fin = wi_cancelled i
    \<and> (fin \<longrightarrow> items (sto_queue st (tq_inner tq)) = [])"
proof -
  obtain st0 sent where s: "s = (st0, sent)" by (cases s)
  have inv1: "tx_inv items capq tq d0 (ins @ wi_pushed i) (push_all aq tq (wi_pushed i) st0, sent)"
    by (rule push_all_inv [OF laws]) (use inv s in simp)
  show ?thesis
    using peer_writer_round_cancelled [OF laws inv1] peer_writer_round_serves [OF laws inv1] unfolding s by blast
qed

text \<open>The rounds the writer takes part in: those up to the first cancelled one, which it serves last.\<close>

fun served :: "writer_input list \<Rightarrow> writer_input list" where
  "served [] = []"
| "served (i # is) = i # (if wi_cancelled i then [] else served is)"

lemma run_peer_writer_inv:
  assumes "aq_laws aq items capq"
  shows "tx_inv items capq tq d0 ins s \<Longrightarrow>
    \<exists>st sent fin. run_peer_writer aq tq (tq_stats tq) is s = Some (st, sent, fin)
      \<and> tx_inv items capq tq d0 (ins @ concat (map wi_pushed (served is))) (st, sent)
      \<and> (fin \<longrightarrow> items (sto_queue st (tq_inner tq)) = []) \<and> (fin \<longleftrightarrow> list_ex wi_cancelled is)"
proof (induction "is" arbitrary: ins s)
  case (Cons i "is")
  from peer_writer_round_inv [OF assms Cons.prems, of i] obtain st sent fin where
    r: "peer_writer_round aq tq (tq_stats tq) i s = Some (st, sent, fin)"
      "tx_inv items capq tq d0 (ins @ wi_pushed i) (st, sent)" "fin = wi_cancelled i"
      "fin \<longrightarrow> items (sto_queue st (tq_inner tq)) = []" by blast
  show ?case
  proof (cases fin)
    case True
    with r show ?thesis by (intro exI [of _ st] exI [of _ sent] exI [of _ True]) simp
  next
    case False
    from Cons.IH [OF r(2)] obtain st' sent' fin' where
      "run_peer_writer aq tq (tq_stats tq) is (st, sent) = Some (st', sent', fin')"
      "tx_inv items capq tq d0 ((ins @ wi_pushed i) @ concat (map wi_pushed (served is))) (st', sent')"
      "fin' \<longrightarrow> items (sto_queue st' (tq_inner tq)) = []" "fin' \<longleftrightarrow> list_ex wi_cancelled is" by blast
    with r False show ?thesis
      by (intro exI [of _ st'] exI [of _ sent'] exI [of _ fin']) simp
  qed
qed auto

text \<open>
  A peer's writer accounts for every frame: started on an empty queue, whatever is pushed up to its end and
  whichever sends fail, the run returns, the frames sent followed by those still queued are a
  subsequence of the frames pushed, in order, and each pushed frame is sent, queued, or counted in
  \<^verbatim>\<open>dropped_tx\<close>; the task ends exactly when its token is cancelled, with nothing left in the queue.
\<close>

theorem peer_writer_accounts:
  assumes "aq_laws aq items capq" and "items (sto_queue st0 (tq_inner tq)) = []" and "0 < capq (sto_queue st0 (tq_inner tq))"
  shows "\<exists>st sent fin. run_peer_writer aq tq (tq_stats tq) is (st0, []) = Some (st, sent, fin)
    \<and> subseq (sent @ items (sto_queue st (tq_inner tq))) (concat (map wi_pushed (served is)))
    \<and> es_dropped_tx (sto_stats st0 (tq_stats tq)) + of_nat (length (concat (map wi_pushed (served is)))) =
        es_dropped_tx (sto_stats st (tq_stats tq)) + of_nat (length sent) + of_nat (length (items (sto_queue st (tq_inner tq))))
    \<and> (fin \<longleftrightarrow> list_ex wi_cancelled is) \<and> (fin \<longrightarrow> items (sto_queue st (tq_inner tq)) = [])"
proof -
  have "tx_inv items capq tq (es_dropped_tx (sto_stats st0 (tq_stats tq))) [] (st0, [])"
    using tx_inv_start [of items st0 tq capq] assms(2,3) by simp
  from run_peer_writer_inv [OF assms(1) this, of "is"] show ?thesis by (auto simp: tx_inv_def Let_def)
qed

theorem peer_writer_accounts_witness:
  "\<exists>st sent. run_peer_writer list_queue \<lparr>tq_inner = 0, tq_notify = 0, tq_stats = 0\<rparr> 0
      [\<lparr>wi_cancelled = False, wi_send = Peer_Send_Err, wi_pushed = [[1], [2]]\<rparr>,
       \<lparr>wi_cancelled = True, wi_send = Peer_Send_Err, wi_pushed = [[3]]\<rparr>]
      (\<lparr>sto_stats = (\<lambda>_. stats_new Connected), sto_queue = (\<lambda>_. (2, [])), sto_notified = (\<lambda>_. 0), sto_next = 1\<rparr>, []) = Some (st, sent, True)
    \<and> snd (sto_queue st 0) = []"
  using peer_writer_accounts [OF list_queue_laws, of
      "\<lparr>sto_stats = (\<lambda>_. stats_new Connected), sto_queue = (\<lambda>_. (2, [])), sto_notified = (\<lambda>_. 0), sto_next = 1\<rparr>"
      "\<lparr>tq_inner = 0, tq_notify = 0, tq_stats = 0\<rparr>"
      "[\<lparr>wi_cancelled = False, wi_send = Peer_Send_Err, wi_pushed = [[1], [2]]\<rparr>,
       \<lparr>wi_cancelled = True, wi_send = Peer_Send_Err, wi_pushed = [[3]]\<rparr>]"]
  by fastforce

end
