(* ===== verification/Stream_Client.thy ===== *)
theory Stream_Client
  imports Session Backoff Net_Addr
begin

text \<open>
  What the reconnecting endpoints over a byte stream have in common (the TCP client and the serial
  port): the queue is emptied before a connection is used, a session runs on it, and the loop
  goes round until the token fires. The theory defines the steps both share and proves, once and
  for any such loop, that a connection carries only frames pushed while it was up.
\<close>

section \<open>State\<close>

text \<open>
  The shared state of the task, and its history: the frames the router pushed so far, and for each
  connection the frames pushed while it was up with the frames written to it.
\<close>

record ('q, 'c) stream_client =
  cl_store :: "'q store"
  cl_chan :: 'c
  cl_now :: instant
  cl_pushed :: "bytes list"
  cl_conns :: "(bytes list \<times> bytes list) list"

text \<open>
  Where the loop is: at its head, inside a trip (an attempt to connect or a session) that has no
  outcome yet, or returned.
\<close>

datatype client_progress = Looping | Mid_Trip | Finished

definition client_push ::
  "'q array_queue \<Rightarrow> tx_queue \<Rightarrow> bytes list \<Rightarrow> ('q, 'c, 'z) stream_client_scheme \<Rightarrow> ('q, 'c, 'z) stream_client_scheme" where
  "client_push aq tq frames c =
     c\<lparr>cl_store := push_all aq tq frames (cl_store c), cl_pushed := cl_pushed c @ frames\<rparr>"

definition client_drain ::
  "'q array_queue \<Rightarrow> tx_queue \<Rightarrow> ('q, 'c, 'z) stream_client_scheme \<Rightarrow> ('q, 'c, 'z) stream_client_scheme may_panic" where
  "client_drain aq tq c = map_option (\<lambda>(st, _). c\<lparr>cl_store := st\<rparr>) (drain_and_discard aq tq (cl_store c))"

definition client_state ::
  "session_ctx \<Rightarrow> endpoint_state \<Rightarrow> ('q, 'c, 'z) stream_client_scheme \<Rightarrow> ('q, 'c, 'z) stream_client_scheme" where
  "client_state ctx state c = c\<lparr>cl_store := upd_stats (sc_stats ctx) (store_state state) (cl_store c)\<rparr>"

definition client_finish ::
  "'q array_queue \<Rightarrow> tx_queue \<Rightarrow> ('q, 'c, 'z) stream_client_scheme \<Rightarrow> (('q, 'c, 'z) stream_client_scheme \<times> client_progress) may_panic" where
  "client_finish aq tq c = map_option (\<lambda>c'. (c', Finished)) (client_drain aq tq c)"

text \<open>From the drain on a fresh connection to the outcome of its session.\<close>

definition client_session ::
  "msg_table \<Rightarrow> (router_frame \<Rightarrow> 'c \<Rightarrow> 'c \<times> bool) \<Rightarrow> 'q array_queue \<Rightarrow> session_ctx \<Rightarrow> tx_queue \<Rightarrow> session_input list
   \<Rightarrow> ('q, 'c, 'z) stream_client_scheme \<Rightarrow> (('q, 'c, 'z) stream_client_scheme \<times> session_outcome option) may_panic" where
  "client_session tbl send aq ctx tq rounds c =
     (case client_drain aq tq c of
        None \<Rightarrow> None
      | Some c1 \<Rightarrow>
          let s0 = session_new (cl_chan c1) (cl_store (client_state ctx Connected c1));
              pushed = pushed_in (rounds_run tbl send aq ctx tq rounds s0)
          in map_option (\<lambda>(s, outcome).
               (c1\<lparr>cl_store := se_store s, cl_chan := se_chan s, cl_pushed := cl_pushed c1 @ pushed,
                   cl_conns := cl_conns c1 @ [(pushed, se_written s)]\<rparr>, outcome))
             (run_session tbl send aq ctx tq rounds s0))"

section \<open>What holds throughout\<close>

text \<open>
  Everything written, over all connections, is in order what was pushed; each frame pushed is
  written, queued or counted as dropped but for at most one per connection; and what was written
  to a connection was pushed while it was up.
\<close>

definition client_inv ::
  "('q \<Rightarrow> bytes list) \<Rightarrow> ('q \<Rightarrow> nat) \<Rightarrow> tx_queue \<Rightarrow> u64 \<Rightarrow> ('q, 'c, 'z) stream_client_scheme \<Rightarrow> bool" where
  "client_inv items capq tq d0 c \<longleftrightarrow>
     (\<exists>lost \<le> length (cl_conns c).
        tx_inv items capq tq (d0 - of_nat lost) (cl_pushed c) (cl_store c, concat (map snd (cl_conns c))))
     \<and> (\<forall>(pushed, written) \<in> set (cl_conns c). subseq written pushed)"

abbreviation client_queue :: "('q \<Rightarrow> bytes list) \<Rightarrow> tx_queue \<Rightarrow> ('q, 'c, 'z) stream_client_scheme \<Rightarrow> bytes list" where
  "client_queue items tq c \<equiv> items (sto_queue (cl_store c) (tq_inner tq))"

lemma client_push_inv:
  assumes "aq_laws aq items capq" and "client_inv items capq tq d0 c"
  shows "client_inv items capq tq d0 (client_push aq tq frames c)"
  using assms push_all_inv [OF assms(1)] unfolding client_inv_def client_push_def by fastforce

lemma client_drain_inv:
  assumes "aq_laws aq items capq" and "client_inv items capq tq d0 c"
  shows "\<exists>c'. client_drain aq tq c = Some c' \<and> client_inv items capq tq d0 c' \<and> client_queue items tq c' = []
    \<and> cl_now c' = cl_now c \<and> cl_conns c' = cl_conns c \<and> cl_chan c' = cl_chan c \<and> stream_client.more c' = stream_client.more c
    \<and> cl_pushed c' = cl_pushed c"
proof -
  from assms(2) obtain lost where lost: "lost \<le> length (cl_conns c)"
    "tx_inv items capq tq (d0 - of_nat lost) (cl_pushed c) (cl_store c, concat (map snd (cl_conns c)))"
    by (auto simp: client_inv_def)
  from drain_and_discard_total [OF assms(1), of tq "cl_store c"] obtain st n where
    d: "drain_and_discard aq tq (cl_store c) = Some (st, n)" "items (sto_queue st (tq_inner tq)) = []" by force
  from tx_step_inv [OF assms(1) lost(2), of Op_Drain] d(1)
  have "tx_inv items capq tq (d0 - of_nat lost) (cl_pushed c) (st, concat (map snd (cl_conns c)))" by simp
  with lost(1) assms(2) have "client_inv items capq tq d0 (c\<lparr>cl_store := st\<rparr>)" by (auto simp: client_inv_def)
  with d show ?thesis by (simp add: client_drain_def)
qed

lemma client_finish_inv:
  assumes "aq_laws aq items capq" and "client_inv items capq tq d0 c"
  shows "\<exists>c'. client_finish aq tq c = Some (c', Finished) \<and> client_inv items capq tq d0 c' \<and> client_queue items tq c' = []"
  using client_drain_inv [OF assms] by (auto simp: client_finish_def)

lemma client_drain_simps:
  "client_drain aq tq c = Some c' \<Longrightarrow> cl_now c' = cl_now c \<and> cl_conns c' = cl_conns c"
  by (auto simp: client_drain_def)

lemma client_finish_now: "client_finish aq tq c = Some (c', p) \<Longrightarrow> p = Finished \<and> cl_now c' = cl_now c \<and> cl_conns c' = cl_conns c"
  by (auto simp: client_finish_def dest: client_drain_simps)

lemma client_push_simps [simp]:
  "cl_now (client_push aq tq frames c) = cl_now c" "cl_conns (client_push aq tq frames c) = cl_conns c"
  "cl_now (client_state ctx state c) = cl_now c" "cl_conns (client_state ctx state c) = cl_conns c"
  "client_queue items tq (client_state ctx state c) = client_queue items tq c"
  by (simp_all add: client_push_def client_state_def)

text \<open>Pushed to an empty queue, only what was pushed is in it.\<close>

lemma client_push_queue:
  assumes "aq_laws aq items capq" and "client_inv items capq tq d0 c" and "client_queue items tq c = []"
  shows "subseq (client_queue items tq (client_push aq tq frames c)) frames"
proof -
  have "0 < capq (sto_queue (cl_store c) (tq_inner tq))" using assms(2) by (auto simp: client_inv_def tx_inv_def Let_def)
  with assms(3) have "tx_inv items capq tq (es_dropped_tx (sto_stats (cl_store c) (tq_stats tq))) [] (cl_store c, [])"
    using tx_inv_start [of items "cl_store c" tq capq] by simp
  from push_all_inv [OF assms(1) this, of frames] show ?thesis by (simp add: tx_inv_def Let_def client_push_def)
qed

lemma client_state_inv [simp]: "client_inv items capq tq d0 (client_state ctx state c) = client_inv items capq tq d0 c"
  by (simp add: client_inv_def client_state_def tx_inv_def store_state_def)

section \<open>A session of the client\<close>

text \<open>A session of a channel the router listens on never panics: a Rust buffer is shorter than \<^verbatim>\<open>isize::MAX\<close>.\<close>

definition small_reads :: "session_input list \<Rightarrow> bool" where
  "small_reads is \<longleftrightarrow> list_all (\<lambda>i. \<forall>data. sn_read i = Some (Read_Ok data) \<longrightarrow> length data < 2 ^ 63) is"

lemma session_round_total:
  assumes "reliable send contents" and "length (fr_buf (se_framer s)) < 280"
    and "\<forall>data. sn_read i = Some (Read_Ok data) \<longrightarrow> length data < 2 ^ 63"
  shows "\<exists>s' out. session_round tbl send aq ctx tq i s = Some (s', out) \<and> (out = None \<longrightarrow> length (fr_buf (se_framer s')) < 280)"
proof (cases "sn_cancelled i \<or> (\<nexists>data. sn_read i = Some (Read_Ok data) \<and> data \<noteq> [])")
  case True
  with assms(2) show ?thesis
    by (auto simp: session_round_def handle_read_result_def write_outbound_frame_def Let_def case_prod_unfold se_upd_def
        split: option.split read_result.split prod.split)
next
  case False
  then obtain data where d: "sn_read i = Some (Read_Ok data)" "data \<noteq> []" "\<not> sn_cancelled i" by blast
  define s1 where "s1 = s\<lparr>se_store := push_all aq tq (sn_pushed i) (se_store s), se_framer := framer_extend (se_framer s) data\<rparr>"
  have "length (fr_buf (se_framer s1)) < 2 ^ 64"
    using assms(2,3) d(1) by (simp add: s1_def framer_extend_def)
  from forward_total [OF assms(1) this, of tbl ctx "sn_now i"] d show ?thesis
    by (auto simp: session_round_def handle_read_result_def s1_def Let_def case_prod_unfold se_upd_def)
qed

lemma run_session_total:
  assumes "reliable send contents"
  shows "length (fr_buf (se_framer s)) < 280 \<Longrightarrow> small_reads rounds \<Longrightarrow> \<exists>r. run_session tbl send aq ctx tq rounds s = Some r"
proof (induction rounds arbitrary: s)
  case (Cons i rounds)
  from session_round_total [OF assms Cons.prems(1), of i tbl aq ctx tq] Cons.prems(2) obtain s' out where
    r: "session_round tbl send aq ctx tq i s = Some (s', out)" "out = None \<longrightarrow> length (fr_buf (se_framer s')) < 280"
    by (auto simp: small_reads_def)
  with Cons.IH [of s'] Cons.prems(2) show ?case by (cases out) (auto simp: small_reads_def)
qed simp

lemma client_session_inv:
  assumes laws: "aq_laws aq items capq" and "reliable send contents" and "client_inv items capq tq d0 c" and "small_reads rounds"
  shows "\<exists>c' out. client_session tbl send aq ctx tq rounds c = Some (c', out) \<and> client_inv items capq tq d0 c'
    \<and> length (cl_conns c') = Suc (length (cl_conns c)) \<and> cl_now c' = cl_now c \<and> stream_client.more c' = stream_client.more c"
proof -
  from client_drain_inv [OF laws assms(3)] obtain c1 where c1: "client_drain aq tq c = Some c1" "client_inv items capq tq d0 c1"
    "client_queue items tq c1 = []" "cl_now c1 = cl_now c" "cl_conns c1 = cl_conns c" "stream_client.more c1 = stream_client.more c" by blast
  define c2 where "c2 = client_state ctx Connected c1"
  define s0 where "s0 = session_new (cl_chan c1) (cl_store c2)"
  define pushed where "pushed = pushed_in (rounds_run tbl send aq ctx tq rounds s0)"
  from run_session_total [OF assms(2), of s0 rounds tbl aq ctx tq] assms(4) obtain s out where
    r: "run_session tbl send aq ctx tq rounds s0 = Some (s, out)" by (auto simp: s0_def session_new_def framer_new_def)
  from c1(2) obtain lost where lost: "lost \<le> length (cl_conns c1)"
    "tx_inv items capq tq (d0 - of_nat lost) (cl_pushed c1) (se_store s0, concat (map snd (cl_conns c1)) @ se_written s0)"
    using client_state_inv [of items capq tq d0 ctx Connected c1]
    by (auto simp: client_inv_def s0_def session_new_def c2_def client_state_def)
  from run_session_tx [OF laws lost(2) r] obtain n where
    n: "tx_inv items capq tq (d0 - of_nat (lost + n)) (cl_pushed c1 @ pushed) (se_store s, concat (map snd (cl_conns c1)) @ se_written s)" "n \<le> 1"
    by (auto simp: pushed_def algebra_simps)
  have "client_queue items tq c2 = []" using c1(3) by (simp add: c2_def client_state_def)
  then have "tx_inv items capq tq (es_dropped_tx (sto_stats (se_store s0) (tq_stats tq))) [] (se_store s0, [] @ se_written s0)"
    using lost(2) tx_inv_start [of items "se_store s0" tq capq] by (simp add: s0_def session_new_def tx_inv_def Let_def)
  from run_session_tx [OF laws this r] have "subseq (se_written s) pushed"
    by (auto simp: tx_inv_def Let_def pushed_def dest: list_emb_appendD subseq_order.trans [rotated])
  with c1 n lost(1) r show ?thesis
    unfolding client_session_def c1(1) option.case Let_def s0_def [symmetric] c2_def [symmetric] pushed_def [symmetric]
    by (auto simp: client_inv_def intro!: exI [of _ "lost + n"])
qed

lemma client_session_conns:
  assumes "client_session tbl send aq ctx tq rounds c = Some (c', out)"
  shows "length (cl_conns c') = Suc (length (cl_conns c))" and "cl_now c' = cl_now c" and "stream_client.more c' = stream_client.more c"
  using assms by (auto simp: client_session_def client_drain_def Let_def split: option.splits)

section \<open>The loop\<close>

fun run_client :: "('i \<Rightarrow> 's \<Rightarrow> ('s \<times> client_progress) may_panic) \<Rightarrow> 'i list \<Rightarrow> 's \<Rightarrow> ('s \<times> client_progress) may_panic" where
  "run_client iter [] s = Some (s, Looping)"
| "run_client iter (i # is) s =
     (case iter i s of
        None \<Rightarrow> None
      | Some (s', Looping) \<Rightarrow> run_client iter is s'
      | Some (s', p) \<Rightarrow> Some (s', p))"

text \<open>
  The contract of one trip round the loop: it does not panic, keeps an invariant, and leaves the
  queue as promised when it returns.
\<close>

locale reconnecting =
  fixes iter :: "'i \<Rightarrow> 's \<Rightarrow> ('s \<times> client_progress) may_panic"
    and valid :: "'i \<Rightarrow> bool"
    and inv :: "'s \<Rightarrow> bool"
    and settled :: "'s \<Rightarrow> bool"
  assumes iter_inv: "valid i \<Longrightarrow> inv s \<Longrightarrow> \<exists>s' p. iter i s = Some (s', p) \<and> inv s' \<and> (p = Finished \<longrightarrow> settled s')"
begin

lemma run_inv:
  "list_all valid is \<Longrightarrow> inv s \<Longrightarrow> \<exists>s' p. run_client iter is s = Some (s', p) \<and> inv s' \<and> (p = Finished \<longrightarrow> settled s')"
proof (induction "is" arbitrary: s)
  case (Cons i "is")
  from iter_inv [of i s] Cons.prems obtain s1 p1 where "iter i s = Some (s1, p1)" "inv s1" "p1 = Finished \<longrightarrow> settled s1" by auto
  with Cons show ?case by (cases p1) auto
qed simp

end

text \<open>
  The contract about time, for a token that fires: a trip that goes on has opened a connection or
  used up some of the time left, and no trip ends later than a bound.
\<close>

locale reconnecting_timed =
  fixes iter :: "'i \<Rightarrow> 's \<Rightarrow> ('s \<times> client_progress) may_panic"
    and prompt :: "'i \<Rightarrow> bool"
    and conns :: "'s \<Rightarrow> nat"
    and left :: "'s \<Rightarrow> nat"
    and in_time :: "'s \<Rightarrow> bool"
  assumes iter_progress: "iter i s = Some (s', Looping) \<Longrightarrow> conns s' = Suc (conns s) \<and> left s' \<le> left s \<or> conns s' = conns s \<and> left s' < left s"
    and iter_in_time: "prompt i \<Longrightarrow> in_time s \<Longrightarrow> iter i s = Some (s', p) \<Longrightarrow> in_time s'"
begin

lemma run_ends: "run_client iter is s = Some (s', Looping) \<Longrightarrow> length is + left s' \<le> left s + (conns s' - conns s) \<and> conns s \<le> conns s'"
proof (induction "is" arbitrary: s)
  case (Cons i "is")
  from Cons.prems obtain s1 where s1: "iter i s = Some (s1, Looping)" "run_client iter is s1 = Some (s', Looping)"
    by (auto split: option.splits client_progress.splits)
  from Cons.IH [OF s1(2)] iter_progress [OF s1(1)] show ?case by auto
qed simp

lemma run_in_time: "list_all prompt is \<Longrightarrow> in_time s \<Longrightarrow> run_client iter is s = Some (s', p) \<Longrightarrow> in_time s'"
proof (induction "is" arbitrary: s)
  case (Cons i "is")
  from Cons.prems(3) obtain s1 p1 where s1: "iter i s = Some (s1, p1)" by (auto split: option.splits)
  from iter_in_time [OF _ Cons.prems(2) s1] Cons s1 show ?case by (cases p1) auto
qed simp

end

lemma div_less_step:
  assumes "a + k \<le> (b :: nat)" and "0 < k"
  shows "a div k < b div k"
  using div_le_mono [OF assms(1), of k] assms(2) div_add_self2 [of k a] by simp

text \<open>The parts of the invariant, as a client's theorem states them.\<close>

lemma client_invD:
  assumes "client_inv items capq tq d0 c"
  shows "\<forall>(pushed, written) \<in> set (cl_conns c). subseq written pushed"
    and "subseq (concat (map snd (cl_conns c)) @ client_queue items tq c) (cl_pushed c)"
    and "\<exists>lost \<le> length (cl_conns c). d0 + of_nat (length (cl_pushed c)) =
      es_dropped_tx (sto_stats (cl_store c) (tq_stats tq)) + of_nat (length (concat (map snd (cl_conns c))))
        + of_nat (length (client_queue items tq c)) + of_nat lost"
proof -
  from assms obtain lost where lost: "lost \<le> length (cl_conns c)"
    "tx_inv items capq tq (d0 - of_nat lost) (cl_pushed c) (cl_store c, concat (map snd (cl_conns c)))"
    and each: "\<forall>(pushed, written) \<in> set (cl_conns c). subseq written pushed" by (auto simp: client_inv_def)
  from each show "\<forall>(pushed, written) \<in> set (cl_conns c). subseq written pushed" .
  from lost(2) show "subseq (concat (map snd (cl_conns c)) @ client_queue items tq c) (cl_pushed c)" by (simp add: tx_inv_def Let_def)
  from lost show "\<exists>lost \<le> length (cl_conns c). d0 + of_nat (length (cl_pushed c)) =
      es_dropped_tx (sto_stats (cl_store c) (tq_stats tq)) + of_nat (length (concat (map snd (cl_conns c))))
        + of_nat (length (client_queue items tq c)) + of_nat lost"
    by (intro exI [of _ lost]) (simp add: tx_inv_def Let_def algebra_simps)
qed

lemma client_inv_start:
  assumes "client_queue items tq c = []" and "0 < capq (sto_queue (cl_store c) (tq_inner tq))" and "cl_pushed c = []" and "cl_conns c = []"
  shows "client_inv items capq tq (es_dropped_tx (sto_stats (cl_store c) (tq_stats tq))) c"
  using assms by (simp add: client_inv_def tx_inv_def Let_def)

text \<open>A store for the examples: one queue of two places.\<close>

definition demo_store0 :: "(nat \<times> bytes list) store" where
  "demo_store0 = \<lparr>sto_stats = (\<lambda>_. stats_new Connected), sto_queue = (\<lambda>_. (2, [])), sto_notified = (\<lambda>_. 0), sto_next = 1\<rparr>"

end
