(* ===== verification/Ip_Parse.thy ===== *)
theory Ip_Parse
  imports Net_Addr "HOL-Library.Monad_Syntax"
begin

text \<open>
  The parser of \<^verbatim>\<open>std::net::IpAddr\<close> as the endpoints use it (\<^verbatim>\<open>str::parse::<IpAddr>\<close>): each
  reader returns what it read and the remaining text, and consumes nothing when it fails. The
  text form of every address is read back.
\<close>

section \<open>Numbers\<close>

definition to_digit :: "nat \<Rightarrow> char \<Rightarrow> nat option" where
  "to_digit radix c =
     (let n = of_char c :: nat;
          d = (if 48 \<le> n \<and> n \<le> 57 then n - 48
               else if 97 \<le> n \<and> n \<le> 122 then n - 87
               else if 65 \<le> n \<and> n \<le> 90 then n - 55 else radix)
      in if d < radix then Some d else None)"

text \<open>The loop of \<^verbatim>\<open>read_number\<close> with its checked arithmetic: the value and the digits so far.\<close>

fun read_digits :: "nat \<Rightarrow> nat \<Rightarrow> nat \<Rightarrow> string \<Rightarrow> nat \<Rightarrow> nat \<Rightarrow> (nat \<times> nat \<times> string) option" where
  "read_digits radix max_digits limit [] result n = Some (result, n, [])"
| "read_digits radix max_digits limit (c # cs) result n =
     (case to_digit radix c of
        None \<Rightarrow> Some (result, n, c # cs)
      | Some d \<Rightarrow>
          if limit < result * radix + d \<or> max_digits < Suc n then None
          else read_digits radix max_digits limit cs (result * radix + d) (Suc n))"

definition read_number :: "nat \<Rightarrow> nat \<Rightarrow> nat \<Rightarrow> bool \<Rightarrow> string \<Rightarrow> (nat \<times> string) option" where
  "read_number radix max_digits limit allow_zero_prefix cs =
     do {
       (result, n, rest) \<leftarrow> read_digits radix max_digits limit cs 0 0;
       if n = 0 \<or> \<not> allow_zero_prefix \<and> hd cs = CHR ''0'' \<and> 1 < n then None else Some (result, rest)
     }"

section \<open>Addresses\<close>

fun read_given_char :: "char \<Rightarrow> string \<Rightarrow> string option" where
  "read_given_char t [] = None"
| "read_given_char t (c # cs) = (if c = t then Some cs else None)"

definition read_octet :: "string \<Rightarrow> (u8 \<times> string) option" where
  "read_octet cs = map_option (map_prod of_nat id) (read_number 10 3 255 False cs)"

definition read_ipv4_addr :: "string \<Rightarrow> (ipv4 \<times> string) option" where
  "read_ipv4_addr cs =
     do {
       (a, r1) \<leftarrow> read_octet cs;
       s1 \<leftarrow> read_given_char CHR ''.'' r1;
       (b, r2) \<leftarrow> read_octet s1;
       s2 \<leftarrow> read_given_char CHR ''.'' r2;
       (c, r3) \<leftarrow> read_octet s2;
       s3 \<leftarrow> read_given_char CHR ''.'' r3;
       (d, r4) \<leftarrow> read_octet s3;
       Some (Ipv4 a b c d, r4)
     }"

definition read_separator :: "char \<Rightarrow> nat \<Rightarrow> (string \<Rightarrow> ('a \<times> string) option) \<Rightarrow> string \<Rightarrow> ('a \<times> string) option" where
  "read_separator sep index inner cs = (if 0 < index then Option.bind (read_given_char sep cs) inner else inner cs)"

definition be_bytes :: "u8 \<Rightarrow> u8 \<Rightarrow> u16" where
  "be_bytes hi lo = of_nat (unat hi * 256 + unat lo)"

text \<open>
  \<^verbatim>\<open>read_groups\<close>: the slots left and the index of the next; the groups read and whether they end
  in an embedded IPv4 address, which needs two slots.
\<close>

fun read_groups :: "nat \<Rightarrow> nat \<Rightarrow> string \<Rightarrow> u16 list \<times> bool \<times> string" where
  "read_groups 0 i cs = ([], False, cs)"
| "read_groups (Suc left) i cs =
     (case (if 0 < left then read_separator CHR '':'' i read_ipv4_addr cs else None) of
        Some (Ipv4 one two three four, rest) \<Rightarrow> ([be_bytes one two, be_bytes three four], True, rest)
      | None \<Rightarrow>
          (case read_separator CHR '':'' i (read_number 16 4 65535 True) cs of
             None \<Rightarrow> ([], False, cs)
           | Some (g, rest) \<Rightarrow>
               (case read_groups left (Suc i) rest of (gs, v4, rest') \<Rightarrow> (of_nat g # gs, v4, rest'))))"

fun ipv6_of :: "u16 list \<Rightarrow> ipv6" where
  "ipv6_of [a, b, c, d, e, f, g, h] = Ipv6 a b c d e f g h"
| "ipv6_of _ = Ipv6 0 0 0 0 0 0 0 0"

definition read_ipv6_addr :: "string \<Rightarrow> (ipv6 \<times> string) option" where
  "read_ipv6_addr cs =
     (case read_groups 8 0 cs of
        (head, head_ipv4, r1) \<Rightarrow>
          if length head = 8 then Some (ipv6_of head, r1)
          else if head_ipv4 then None
          else do {
            r2 \<leftarrow> read_given_char CHR '':'' r1;
            r3 \<leftarrow> read_given_char CHR '':'' r2;
            (case read_groups (8 - (length head + 1)) 0 r3 of
               (tail, _, r4) \<Rightarrow>
                 Some (ipv6_of (head @ replicate (8 - length head - length tail) 0 @ tail), r4))
          })"

definition parse_ip :: "string \<Rightarrow> ip_addr option" where
  "parse_ip cs =
     (case read_ipv4_addr cs of
        Some (ip, rest) \<Rightarrow> if rest = [] then Some (IpV4 ip) else None
      | None \<Rightarrow>
          (case read_ipv6_addr cs of
             Some (ip, rest) \<Rightarrow> if rest = [] then Some (IpV6 ip) else None
           | None \<Rightarrow> None))"

fun show_ip :: "ip_addr \<Rightarrow> string" where
  "show_ip (IpV4 ip) = show_ipv4 ip"
| "show_ip (IpV6 ip) = show_ipv6 ip"

section \<open>Reading numbers back\<close>

definition stops :: "nat \<Rightarrow> string \<Rightarrow> bool" where
  "stops radix rest \<longleftrightarrow> (case rest of [] \<Rightarrow> True | c # _ \<Rightarrow> to_digit radix c = None)"

definition number_of :: "nat \<Rightarrow> nat \<Rightarrow> string \<Rightarrow> nat" where
  "number_of radix acc ds = foldl (\<lambda>a c. a * radix + the (to_digit radix c)) acc ds"

lemma number_of_mono: "0 < radix \<Longrightarrow> acc \<le> number_of radix acc ds"
proof (induction ds arbitrary: acc)
  case (Cons c ds)
  have "acc \<le> acc * radix + the (to_digit radix c)" using Cons.prems by (simp add: trans_le_add1)
  also have "\<dots> \<le> number_of radix (acc * radix + the (to_digit radix c)) ds" by (rule Cons.IH [OF Cons.prems])
  finally show ?case by (simp add: number_of_def)
qed (simp add: number_of_def)

lemma read_digits_all:
  assumes "0 < radix"
  shows "list_all (\<lambda>c. to_digit radix c \<noteq> None) ds \<Longrightarrow> stops radix rest \<Longrightarrow> number_of radix acc ds \<le> limit \<Longrightarrow>
    n + length ds \<le> max_digits \<Longrightarrow>
    read_digits radix max_digits limit (ds @ rest) acc n = Some (number_of radix acc ds, n + length ds, rest)"
proof (induction ds arbitrary: acc n)
  case Nil
  then show ?case by (cases rest) (simp_all add: number_of_def stops_def)
next
  case (Cons c ds)
  then obtain d where d: "to_digit radix c = Some d" by auto
  have step: "number_of radix acc (c # ds) = number_of radix (acc * radix + d) ds" by (simp add: number_of_def d)
  then have "acc * radix + d \<le> limit" using number_of_mono [OF assms, of "acc * radix + d" ds] Cons.prems(3) by simp
  with Cons d step show ?case by simp
qed

lemma number_of_snoc: "number_of radix acc (ds @ [c]) = number_of radix acc ds * radix + the (to_digit radix c)"
  by (simp add: number_of_def)

lemma to_digit_dec [simp]: "d < 10 \<Longrightarrow> to_digit 10 (digit_char d) = Some d"
  by (simp add: to_digit_def of_char_digit)

lemma to_digit_hex [simp]: "d < 16 \<Longrightarrow> to_digit 16 (hex_char d) = Some d"
  by (simp add: to_digit_def hex_char_def)

lemma number_of_dec: "number_of 10 0 (dec n) = n \<and> list_all (\<lambda>c. to_digit 10 c \<noteq> None) (dec n)"
proof (induction n rule: dec.induct)
  case (1 n)
  then show ?case by (subst dec.simps, subst (2) dec.simps) (auto simp: number_of_snoc number_of_def [of _ _ "[_]"])
qed

lemma number_of_hex: "number_of 16 0 (hex n) = n \<and> list_all (\<lambda>c. to_digit 16 c \<noteq> None) (hex n)"
proof (induction n rule: hex.induct)
  case (1 n)
  then show ?case by (subst hex.simps, subst (2) hex.simps) (auto simp: number_of_snoc number_of_def [of _ _ "[_]"])
qed

lemma length_dec: "n < 10 ^ Suc k \<Longrightarrow> length (dec n) \<le> Suc k"
proof (induction k arbitrary: n)
  case (Suc k)
  show ?case
  proof (cases "n < 10")
    case False
    from Suc.prems have "n div 10 < 10 ^ Suc k" by (simp add: less_mult_imp_div_less)
    from Suc.IH [OF this] False show ?thesis by (simp add: dec.simps [of n])
  qed (simp add: dec.simps [of n])
qed (subst dec.simps, simp)

lemma length_hex: "n < 16 ^ Suc k \<Longrightarrow> length (hex n) \<le> Suc k"
proof (induction k arbitrary: n)
  case (Suc k)
  show ?case
  proof (cases "n < 16")
    case False
    from Suc.prems have "n div 16 < 16 ^ Suc k" by (simp add: less_mult_imp_div_less)
    from Suc.IH [OF this] False show ?thesis by (simp add: hex.simps [of n])
  qed (simp add: hex.simps [of n])
qed (subst hex.simps, simp)

lemma hd_dec: "hd (dec n) = CHR ''0'' \<Longrightarrow> n = 0"
proof (induction n rule: dec.induct)
  case (1 n)
  show ?case
  proof (cases "n < 10")
    case True
    with 1(2) have "digit_val (CHR ''0'') = n" by (metis dec.simps list.sel(1) digit_val_char)
    then show ?thesis by (simp add: digit_val_def)
  next
    case False
    with 1(2) have "hd (dec (n div 10)) = CHR ''0''" by (subst (asm) dec.simps) simp
    with 1(1) False have "n div 10 = 0" by blast
    with False show ?thesis by simp
  qed
qed

lemma read_dec:
  assumes "stops 10 rest" and "n < 256"
  shows "read_number 10 3 255 False (dec n @ rest) = Some (n, rest)"
proof -
  have d: "number_of 10 0 (dec n) = n" "list_all (\<lambda>c. to_digit 10 c \<noteq> None) (dec n)" using number_of_dec [of n] by auto
  have len: "length (dec n) \<le> 3" using length_dec [of n 2] assms(2) by (simp add: numeral_3_eq_3)
  have "read_digits 10 3 255 (dec n @ rest) 0 0 = Some (n, length (dec n), rest)"
    using read_digits_all [of 10 "dec n" rest 0 255 0 3] d assms len by simp
  moreover have "length (dec 0) = 1" by (subst dec.simps) simp
  then have "\<not> (hd (dec n) = CHR ''0'' \<and> 1 < length (dec n))" using hd_dec [of n] by force
  ultimately show ?thesis by (simp add: read_number_def)
qed

lemma read_octet_dec: "stops 10 rest \<Longrightarrow> read_octet (dec_word (a :: u8) @ rest) = Some (a, rest)"
  using read_dec [of rest "unat a"] unsigned_less [of a, where ?'a = nat] by (simp add: read_octet_def dec_word_def)

lemma read_hex:
  assumes "stops 16 rest" and "n < 65536"
  shows "read_number 16 4 65535 True (hex n @ rest) = Some (n, rest)"
proof -
  have d: "number_of 16 0 (hex n) = n" "list_all (\<lambda>c. to_digit 16 c \<noteq> None) (hex n)" using number_of_hex [of n] by auto
  have "n < 16 ^ Suc 3" using assms(2) by simp
  from length_hex [OF this] have len: "length (hex n) \<le> 4" by simp
  have ne: "hex n \<noteq> []" by (subst hex.simps) simp
  have "read_digits 16 4 65535 (hex n @ rest) 0 0 = Some (n, length (hex n), rest)"
    using read_digits_all [of 16 "hex n" rest 0 65535 0 4] d assms len by simp
  with ne show ?thesis by (simp add: read_number_def)
qed

lemma read_hex_word: "stops 16 rest \<Longrightarrow> read_number 16 4 65535 True (hex (unat (w :: u16)) @ rest) = Some (unat w, rest)"
  using read_hex [of rest "unat w"] unsigned_less [of w, where ?'a = nat] by simp

lemma stops_simps [simp]: "stops radix []" "stops 10 (CHR ''.'' # cs)" "stops 16 (CHR '':'' # cs)" "stops 10 (CHR '':'' # cs)"
  by (simp_all add: stops_def to_digit_def)

lemma read_ipv4_show:
  assumes "stops 10 rest"
  shows "read_ipv4_addr (show_ipv4 ip @ rest) = Some (ip, rest)"
proof (cases ip)
  case (Ipv4 a b c d)
  then show ?thesis using read_octet_dec [OF assms, of d] by (simp add: read_ipv4_addr_def read_octet_dec)
qed

section \<open>Groups of an IPv6 address\<close>

lemma read_digits_split:
  "read_digits radix m lim cs acc n = Some (v, k, rest) \<Longrightarrow> \<exists>ds. cs = ds @ rest \<and> list_all (\<lambda>c. to_digit radix c \<noteq> None) ds"
proof (induction cs arbitrary: acc n)
  case (Cons c cs)
  show ?case
  proof (cases "to_digit radix c")
    case None
    with Cons.prems show ?thesis by (intro exI [of _ "[]"]) simp
  next
    case (Some d)
    with Cons.prems have "read_digits radix m lim cs (acc * radix + d) (Suc n) = Some (v, k, rest)" by (simp split: if_splits)
    from Cons.IH [OF this] obtain ds where "cs = ds @ rest" "list_all (\<lambda>c. to_digit radix c \<noteq> None) ds" by blast
    with Some show ?thesis by (intro exI [of _ "c # ds"]) simp
  qed
qed auto

lemma read_ipv4_digits:
  assumes "read_ipv4_addr cs = Some (ip, r)"
  shows "\<exists>ds rest. cs = ds @ CHR ''.'' # rest \<and> list_all (\<lambda>c. to_digit 10 c \<noteq> None) ds"
proof -
  from assms obtain a r1 s1 where "read_octet cs = Some (a, r1)" and s1: "read_given_char CHR ''.'' r1 = Some s1"
    by (auto simp: read_ipv4_addr_def bind_eq_Some_conv)
  then obtain v k where "read_digits 10 3 255 cs 0 0 = Some (v, k, r1)"
    by (auto simp: read_octet_def read_number_def bind_eq_Some_conv split: if_splits)
  from read_digits_split [OF this] s1 show ?thesis by (cases r1) (auto split: if_splits)
qed

text \<open>The text after a group: the end, or a colon.\<close>

definition group_end :: "string \<Rightarrow> bool" where
  "group_end rest \<longleftrightarrow> rest = [] \<or> hd rest = CHR '':''"

lemma group_end_stops: "group_end rest \<Longrightarrow> stops 16 rest"
  by (cases rest) (auto simp: group_end_def)

lemma hex_no: "c \<in> set (hex n) \<Longrightarrow> to_digit 16 c \<noteq> None"
  using number_of_hex [of n] by (auto simp: list_all_iff)

lemma not_digits [simp]: "to_digit 16 CHR ''.'' = None" "to_digit 10 CHR '':'' = None"
  by (simp_all add: to_digit_def)

lemma read_ipv4_hex:
  assumes "group_end rest"
  shows "read_ipv4_addr (hex n @ rest) = None"
proof (rule ccontr)
  assume "\<not> ?thesis"
  then obtain ip r where "read_ipv4_addr (hex n @ rest) = Some (ip, r)" by auto
  from read_ipv4_digits [OF this] obtain ds r1 where
    eq: "hex n @ rest = ds @ CHR ''.'' # r1" and ds: "list_all (\<lambda>c. to_digit 10 c \<noteq> None) ds" by blast
  have dot: "CHR ''.'' \<notin> set (hex n)" using hex_no [of "CHR ''.''" n] by auto
  from eq obtain us where "hex n = ds @ us \<and> us @ rest = CHR ''.'' # r1 \<or> hex n @ us = ds \<and> rest = us @ CHR ''.'' # r1"
    unfolding append_eq_append_conv2 by blast
  then consider "us @ rest = CHR ''.'' # r1" "set us \<subseteq> set (hex n)" | "rest = us @ CHR ''.'' # r1" "set us \<subseteq> set ds" by auto
  then show False
  proof cases
    case 1
    with dot assms show False by (cases us) (auto simp: group_end_def)
  next
    case 2
    with ds assms show False by (cases us) (auto simp: group_end_def list_all_iff)
  qed
qed

lemma read_ipv4_end: "group_end rest \<Longrightarrow> read_ipv4_addr rest = None" "group_end rest \<Longrightarrow> read_number 16 4 65535 True rest = None"
  by (cases rest; simp add: group_end_def read_ipv4_addr_def read_octet_def read_number_def to_digit_def)+

definition more_groups :: "u16 list \<Rightarrow> string" where
  "more_groups gs = concat (map (\<lambda>g. CHR '':'' # hex (unat g)) gs)"

lemma more_groups_simps [simp]: "more_groups [] = []" "more_groups (g # gs) = CHR '':'' # hex (unat g) @ more_groups gs"
  by (simp_all add: more_groups_def)

lemma fmt_subslice_Cons: "fmt_subslice (g # gs) = hex (unat g) @ more_groups gs"
proof (induction gs arbitrary: g)
  case (Cons h gs)
  then show ?case by (simp add: fmt_subslice_def)
qed (simp add: fmt_subslice_def)

lemma fmt_subslice_Nil: "fmt_subslice [] = []"
  by (simp add: fmt_subslice_def)

text \<open>What may follow the last group read: nothing, or the double colon.\<close>

definition groups_end :: "string \<Rightarrow> bool" where
  "groups_end rest \<longleftrightarrow> rest = [] \<or> (\<exists>r. rest = CHR '':'' # CHR '':'' # r)"

lemma groups_group_end: "groups_end rest \<Longrightarrow> group_end rest"
  by (auto simp: groups_end_def group_end_def)

lemma group_end_more: "groups_end rest \<Longrightarrow> group_end (more_groups gs @ rest)"
  by (cases gs) (auto simp: groups_end_def group_end_def)

lemma read_groups_more:
  "length gs \<le> left \<Longrightarrow> groups_end rest \<Longrightarrow> read_groups left (Suc i) (more_groups gs @ rest) = (gs, False, rest)"
proof (induction gs arbitrary: left i)
  case Nil
  then show ?case
    by (cases left; cases rest) (auto simp: groups_end_def read_separator_def read_ipv4_end group_end_def)
next
  case (Cons g gs)
  then obtain left' where left: "left = Suc left'" by (cases left) auto
  note e = group_end_more [OF Cons.prems(2), of gs]
  show ?case using Cons left read_ipv4_hex [OF e, of "unat g"] read_hex_word [OF group_end_stops [OF e], of g]
    by (auto simp: read_separator_def)
qed

lemma read_groups_first:
  assumes "length gs \<le> left" and "groups_end rest"
  shows "read_groups left 0 (fmt_subslice gs @ rest) = (gs, False, rest)"
proof (cases gs)
  case Nil
  with assms(2) show ?thesis
    by (cases left) (auto simp: fmt_subslice_def groups_end_def read_separator_def read_ipv4_end group_end_def)
next
  case (Cons g gs')
  with assms(1) obtain left' where left: "left = Suc left'" by (cases left) auto
  note e = group_end_more [OF assms(2), of gs']
  show ?thesis using assms Cons left read_ipv4_hex [OF e, of "unat g"] read_hex_word [OF group_end_stops [OF e], of g]
    by (auto simp: read_separator_def fmt_subslice_Cons read_groups_more)
qed

section \<open>The longest run of zeros\<close>

text \<open>A run of zeros within the first \<^term>\<open>n\<close> segments.\<close>

definition zeros_at :: "u16 list \<Rightarrow> nat \<Rightarrow> nat \<times> nat \<Rightarrow> bool" where
  "zeros_at xs n r \<longleftrightarrow> (snd r = 0 \<or> fst r + snd r \<le> n) \<and> (\<forall>k. fst r \<le> k \<and> k < fst r + snd r \<longrightarrow> xs ! k = 0)"

lemma zeros_at_mono: "zeros_at xs n r \<Longrightarrow> n \<le> m \<Longrightarrow> zeros_at xs m r"
  by (auto simp: zeros_at_def)

lemma zero_run_zeros:
  "zeros_at (pre @ xs) (length pre) longest \<Longrightarrow> zeros_at (pre @ xs) (length pre) current \<Longrightarrow>
   (snd current = 0 \<or> fst current + snd current = length pre) \<Longrightarrow>
   zeros_at (pre @ xs) (length (pre @ xs)) (zero_run (length pre) current longest xs)"
proof (induction xs arbitrary: pre current longest)
  case (Cons x xs)
  let ?c = "if x = 0 then ((if snd current = 0 then length pre else fst current), snd current + 1) else (0, 0)"
  let ?l = "if x = 0 \<and> snd ?c > snd longest then ?c else longest"
  have c: "zeros_at ((pre @ [x]) @ xs) (length (pre @ [x])) ?c" "snd ?c = 0 \<or> fst ?c + snd ?c = length (pre @ [x])"
    using Cons.prems(2,3) by (auto simp: zeros_at_def nth_append less_Suc_eq)
  have l: "zeros_at ((pre @ [x]) @ xs) (length (pre @ [x])) ?l"
    using c(1) zeros_at_mono [OF Cons.prems(1), of "Suc (length pre)"] by auto
  from Cons.IH [OF l c] show ?case by (cases "x = 0") (auto simp: Let_def)
qed simp

lemma zero_run_split:
  assumes "zero_run 0 (0, 0) (0, 0) xs = (start, len)" and "1 < len"
  shows "xs = take start xs @ replicate len 0 @ drop (start + len) xs" and "start + len \<le> length xs"
proof -
  have z: "zeros_at xs (length xs) (start, len)"
    using zero_run_zeros [of "[]" xs "(0, 0)" "(0, 0)"] assms(1) by (simp add: zeros_at_def)
  then show le: "start + len \<le> length xs" using assms(2) by (simp add: zeros_at_def)
  have "take len (drop start xs) = replicate len 0"
    using z le by (intro nth_equalityI) (auto simp: zeros_at_def)
  then show "xs = take start xs @ replicate len 0 @ drop (start + len) xs"
    by (metis append_take_drop_id add.commute drop_drop)
qed

section \<open>Addresses are read back\<close>

lemma ipv6_of_segments [simp]: "ipv6_of (segments ip) = ip" "length (segments ip) = 8"
  by (cases ip; simp)+

lemma be_bytes_split: "be_bytes (hi_byte w) (lo_byte w) = w"
proof -
  have "unat (drop_bit 8 w) = unat w div 256" unfolding unat_drop_bit_eq by (simp add: drop_bit_eq_div)
  moreover have "unat w div 256 < 256" using unsigned_less [of w, where ?'a = nat] by (simp add: less_mult_imp_div_less)
  ultimately have "unat (hi_byte w) = unat w div 256" unfolding hi_byte_def unsigned_ucast_eq by (simp add: take_bit_eq_mod)
  moreover have "unat (lo_byte w) = unat w mod 256" by (simp add: lo_byte_def unsigned_ucast_eq take_bit_eq_mod)
  ultimately show ?thesis by (simp add: be_bytes_def)
qed

lemma read_ipv6_mapped:
  assumes "to_ipv4_mapped ip = Some v4"
  shows "read_ipv6_addr (''::ffff:'' @ show_ipv4 v4) = Some (ip, [])"
proof -
  obtain a b c d e f g h where ip: "ip = Ipv6 a b c d e f g h" by (cases ip)
  have v4: "v4 = Ipv4 (hi_byte g) (lo_byte g) (hi_byte h) (lo_byte h)" "a = 0" "b = 0" "c = 0" "d = 0" "e = 0" "f = 0xffff"
    using assms by (auto simp: ip split: if_splits)
  have ffff: "hex 65535 = ''ffff''" by (simp add: hex.simps hex_char_def char_of_eq_iff)
  have first: "read_groups 8 0 (''::ffff:'' @ show_ipv4 v4) = ([], False, ''::ffff:'' @ show_ipv4 v4)"
    using read_groups_first [of "[]" 8 "''::ffff:'' @ show_ipv4 v4"] by (simp add: fmt_subslice_def groups_end_def)
  have num: "read_number 16 4 65535 True (''ffff:'' @ show_ipv4 v4) = Some (65535, CHR '':'' # show_ipv4 v4)"
    using read_hex [of "CHR '':'' # show_ipv4 v4" 65535] by (simp add: ffff)
  have no4: "read_ipv4_addr (''ffff:'' @ show_ipv4 v4) = None"
    using read_ipv4_hex [of "CHR '':'' # show_ipv4 v4" 65535] by (simp add: ffff group_end_def)
  have "read_groups (Suc (Suc (Suc n))) 0 (''ffff:'' @ show_ipv4 v4) = ([0xffff, g, h], True, [])" for n
    using num no4 read_ipv4_show [of "[]" v4] 
    by (simp add: read_separator_def v4 be_bytes_split del: show_ipv4.simps)
  from this [of 4] have "read_groups 7 0 (''ffff:'' @ show_ipv4 v4) = ([0xffff, g, h], True, [])" by simp
  moreover have "replicate 5 (0 :: u16) = [0, 0, 0, 0, 0]" by code_simp
  ultimately show ?thesis using first by (simp add: read_ipv6_addr_def ip v4 del: show_ipv4.simps)
qed

lemma read_ipv6_groups:
  assumes "to_ipv4_mapped ip = None"
  shows "read_ipv6_addr (show_ipv6 ip) = Some (ip, [])"
proof -
  obtain start len where z: "zero_run 0 (0, 0) (0, 0) (segments ip) = (start, len)" by (cases "zero_run 0 (0, 0) (0, 0) (segments ip)")
  show ?thesis
  proof (cases "1 < len")
    case True
    note split = zero_run_split [OF z True]
    let ?head = "take start (segments ip)" and ?tail = "drop (start + len) (segments ip)"
    let ?rest = "''::'' @ fmt_subslice ?tail"
    have le: "start + len \<le> 8" using split(2) by simp
    have "read_groups 8 0 (fmt_subslice ?head @ ?rest) = (?head, False, ?rest)"
      by (rule read_groups_first) (simp_all add: groups_end_def)
    moreover have "read_groups (7 - start) 0 (fmt_subslice ?tail @ []) = (?tail, False, [])"
      using le True by (intro read_groups_first) (simp_all add: groups_end_def)
    moreover have "?head @ replicate (8 - length ?head - length ?tail) 0 @ ?tail = segments ip"
      using split(1) le by simp
    moreover have "show_ipv6 ip = fmt_subslice ?head @ ?rest" using assms z True by (simp add: show_ipv6_def)
    ultimately show ?thesis using le True by (simp add: read_ipv6_addr_def)
  next
    case False
    have "read_groups 8 0 (fmt_subslice (segments ip) @ []) = (segments ip, False, [])"
      by (rule read_groups_first) (simp_all add: groups_end_def)
    moreover have "show_ipv6 ip = fmt_subslice (segments ip)" using assms z False by (simp add: show_ipv6_def)
    ultimately show ?thesis by (simp add: read_ipv6_addr_def)
  qed
qed

lemma show_ipv6_not_v4: "read_ipv4_addr (show_ipv6 ip) = None"
proof (cases "to_ipv4_mapped ip")
  case (Some v4)
  then show ?thesis by (simp add: show_ipv6_def read_ipv4_end group_end_def)
next
  case None
  obtain start len where z: "zero_run 0 (0, 0) (0, 0) (segments ip) = (start, len)" by (cases "zero_run 0 (0, 0) (0, 0) (segments ip)")
  have "read_ipv4_addr (fmt_subslice gs @ rest) = None" if "groups_end rest" "gs = [] \<longrightarrow> rest \<noteq> []" for gs rest
    using that read_ipv4_hex [OF group_end_more [OF that(1)]]
    by (cases gs) (simp_all add: fmt_subslice_Cons fmt_subslice_Nil read_ipv4_end groups_group_end)
  note no = this
  show ?thesis
  proof (cases "1 < len")
    case True
    with no [of "''::'' @ fmt_subslice (drop (start + len) (segments ip))" "take start (segments ip)"] None z show ?thesis
      by (simp add: show_ipv6_def groups_end_def)
  next
    case False
    have "segments ip \<noteq> []" by (cases ip) simp
    with no [of "[]" "segments ip"] None z False show ?thesis by (simp add: show_ipv6_def groups_end_def)
  qed
qed

lemma parse_show_ip [simp]: "parse_ip (show_ip ip) = Some ip"
proof (cases ip)
  case (IpV4 v4)
  then show ?thesis using read_ipv4_show [of "[]" v4] by (simp add: parse_ip_def)
next
  case (IpV6 v6)
  have "read_ipv6_addr (show_ipv6 v6) = Some (v6, [])"
    by (cases "to_ipv4_mapped v6") (use read_ipv6_groups read_ipv6_mapped in \<open>auto simp: show_ipv6_def\<close>)
  with IpV6 show ?thesis by (simp add: parse_ip_def show_ipv6_not_v4)
qed

lemma show_ip_inj: "show_ip a = show_ip b \<longleftrightarrow> a = b"
  by (metis option.inject parse_show_ip)

text \<open>A text that starts with anything but a hexadecimal digit or a colon is not an address.\<close>

lemma parse_ip_name:
  assumes "to_digit 16 c = None" and "c \<noteq> CHR '':''"
  shows "parse_ip (c # cs) = None"
proof -
  have "to_digit 10 c = None" using assms(1) by (auto simp: to_digit_def Let_def split: if_splits)
  then have v4: "read_ipv4_addr (c # cs) = None" by (simp add: read_ipv4_addr_def read_octet_def read_number_def)
  have "read_groups (Suc n) 0 (c # cs) = ([], False, c # cs)" for n
    using v4 assms(1) by (simp add: read_separator_def read_number_def)
  from this [of 7] have "read_ipv6_addr (c # cs) = None" using assms(2) by (simp add: read_ipv6_addr_def)
  with v4 show ?thesis by (simp add: parse_ip_def)
qed

section \<open>Names of peers\<close>

lemma last_split_unique:
  assumes "xs @ (c :: char) # ys = xs' @ c # ys'" and "c \<notin> set ys" and "c \<notin> set ys'"
  shows "xs = xs' \<and> ys = ys'"
  using arg_cong [OF assms(1), of "rsplit_once c"] assms(2,3) by (simp add: rsplit_once_append)

lemma ipv6_port_inj:
  assumes "show_ipv6 ip @ CHR '']'' # CHR ''-'' # dec_word (port :: u16) = show_ipv6 ip' @ CHR '']'' # CHR ''-'' # dec_word (port' :: u16)"
  shows "ip = ip' \<and> port = port'"
proof -
  have "CHR '']'' \<notin> set (CHR ''-'' # dec_word n)" for n :: u16 by (simp add: dec_word_no)
  from last_split_unique [OF assms this this] show ?thesis using show_ip_inj [of "IpV6 ip" "IpV6 ip'"] by (simp add: dec_word_inj)
qed

lemma peer_name_v4_v6: "peer_endpoint_name parent (SocketV4 ip port) \<noteq> peer_endpoint_name parent (SocketV6 ip6 port6 flow scope)"
proof
  assume "peer_endpoint_name parent (SocketV4 ip port) = peer_endpoint_name parent (SocketV6 ip6 port6 flow scope)"
  then have "CHR ''['' \<in> set (show_ipv4 ip @ ''-'' @ dec_word port)" by (auto dest: arg_cong [of _ _ set])
  then show False by (simp add: show_ipv4_no dec_word_no)
qed

text \<open>
  C34. The names of two peers of one listener are equal only if the peers have the same IP address
  and port, for IPv4 and IPv6 alike: the flow label and scope of an IPv6 address are the only parts
  of a socket address the name leaves out.
\<close>

theorem peer_names_distinct:
  "peer_endpoint_name parent a = peer_endpoint_name parent b \<longleftrightarrow> sa_ip a = sa_ip b \<and> sa_port a = sa_port b"
proof (cases a; cases b)
  fix ip port ip' port'
  assume "a = SocketV4 ip port" "b = SocketV4 ip' port'"
  then show ?thesis using ipv4_port_inj [of ip port ip' port'] by fastforce
next
  fix ip port flow scope ip' port' flow' scope'
  assume "a = SocketV6 ip port flow scope" "b = SocketV6 ip' port' flow' scope'"
  then show ?thesis using ipv6_port_inj [of ip port ip' port'] by fastforce
qed (use peer_name_v4_v6 peer_name_v4_v6 [symmetric] in simp_all)

end
