(* ===== verification/Tcp_Client.thy ===== *)
theory Tcp_Client
  imports Stream_Client Ip_Parse
begin

text \<open>
  The TCP client endpoint, \<^verbatim>\<open>src/endpoint/tcp/client.rs\<close>: resolve, dial each address in turn,
  run a session on the connection, dial again. The resolver and the network are inputs of each
  trip round the loop, with the time they take.
\<close>

section \<open>Data\<close>

definition CONNECT_TIMEOUT :: duration where
  "CONNECT_TIMEOUT = 10 * 1000000000"

record tcp_client_endpoint =
  tce_host :: string
  tce_port :: u16
  tce_identity :: identity_flags

record tcp_client_spec =
  tcs_host :: string
  tcs_port :: u16
  tcs_endpoint_id :: endpoint_id
  tcs_name :: string
  tcs_reconnect_initial_ms :: u64
  tcs_reconnect_max_ms :: u64
  tcs_identity :: identity_flags

definition tcp_client_from_endpoint :: "tcp_client_endpoint \<Rightarrow> endpoint_id \<Rightarrow> string \<Rightarrow> tcp_client_spec" where
  "tcp_client_from_endpoint endpoint i name =
     \<lparr>tcs_host = tce_host endpoint, tcs_port = tce_port endpoint, tcs_endpoint_id = i, tcs_name = name,
      tcs_reconnect_initial_ms = DEFAULT_RECONNECT_INITIAL_MS, tcs_reconnect_max_ms = DEFAULT_RECONNECT_MAX_MS,
      tcs_identity = tce_identity endpoint\<rparr>"

section \<open>Dialling\<close>

text \<open>
  The resolver: its answer to \<^verbatim>\<open>host:port\<close>, if any, and the time it takes. The network: when a
  connection attempt to an address is answered, if ever, and whether it succeeds.
\<close>

type_synonym timed_lookup = "string \<Rightarrow> socket_addr list option \<times> duration"
type_synonym tcp_connect = "socket_addr \<Rightarrow> (duration \<times> bool) option"

datatype dial_outcome = Dial_Connected socket_addr | Dial_Cancelled | Dial_Failed

definition resolve_to_socket_addrs :: "timed_lookup \<Rightarrow> string \<Rightarrow> u16 \<Rightarrow> socket_addr list \<times> duration" where
  "resolve_to_socket_addrs lookup host port =
     (case parse_ip host of
        Some ip \<Rightarrow> ([sa_new ip port], 0)
      | None \<Rightarrow>
          (case lookup (host @ '':'' @ dec_word port) of
             (Some addrs, took) \<Rightarrow> (sort_key (\<lambda>a. if is_ipv6 (sa_ip a) then 1 else 0 :: nat) addrs, took)
           | (None, took) \<Rightarrow> ([], took)))"

text \<open>
  The select is biased towards cancellation; the timeout prefers an answer that comes with it.
\<close>

definition connect_one :: "cancel_token \<Rightarrow> tcp_connect \<Rightarrow> socket_addr \<Rightarrow> instant \<Rightarrow> dial_outcome \<times> instant" where
  "connect_one cancel connect target now =
     (let (took, ok) = (case connect target of
                          Some (d, ok) \<Rightarrow> if d \<le> CONNECT_TIMEOUT then (d, ok) else (CONNECT_TIMEOUT, False)
                        | None \<Rightarrow> (CONNECT_TIMEOUT, False))
      in case cancel of
           Some c \<Rightarrow> if c \<le> now + took then (Dial_Cancelled, max now c)
                     else (if ok then Dial_Connected target else Dial_Failed, now + took)
         | None \<Rightarrow> (if ok then Dial_Connected target else Dial_Failed, now + took))"

fun dial_each :: "cancel_token \<Rightarrow> tcp_connect \<Rightarrow> socket_addr list \<Rightarrow> instant \<Rightarrow> dial_outcome \<times> instant" where
  "dial_each cancel connect [] now = (Dial_Failed, now)"
| "dial_each cancel connect (target # targets) now =
     (case connect_one cancel connect target now of
        (Dial_Failed, now') \<Rightarrow> dial_each cancel connect targets now'
      | r \<Rightarrow> r)"

definition dial_with_dns ::
  "timed_lookup \<Rightarrow> tcp_connect \<Rightarrow> string \<Rightarrow> u16 \<Rightarrow> cancel_token \<Rightarrow> instant \<Rightarrow> dial_outcome \<times> instant" where
  "dial_with_dns lookup connect host port cancel now =
     (let (resolved, took) = resolve_to_socket_addrs lookup host port
      in if resolved = [] then (Dial_Failed, now + took)
         else dial_each cancel connect resolved (now + took))"

section \<open>The task\<close>

text \<open>
  A trip's input: the resolver and network for its dial, the frames the router pushes up to the
  drain that follows, the rounds of the session and when it is over.
\<close>

record tcpc_input =
  ti_lookup :: timed_lookup
  ti_connect :: tcp_connect
  ti_pushed :: "bytes list"
  ti_rounds :: "session_input list"
  ti_over :: instant

record ('q, 'c) tcp_client = "('q, 'c) stream_client" +
  cl_backoff :: backoff

definition tcpc_iteration ::
  "msg_table \<Rightarrow> (router_frame \<Rightarrow> 'c \<Rightarrow> 'c \<times> bool) \<Rightarrow> 'q array_queue \<Rightarrow> session_ctx \<Rightarrow> tx_queue \<Rightarrow> string \<Rightarrow> u16 \<Rightarrow> cancel_token
   \<Rightarrow> tcpc_input \<Rightarrow> ('q, 'c) tcp_client \<Rightarrow> (('q, 'c) tcp_client \<times> client_progress) may_panic" where
  "tcpc_iteration tbl send aq ctx tq host port cancel i c0 =
     (let c = client_push aq tq (ti_pushed i) c0
      in if is_cancelled cancel (cl_now c) then client_finish aq tq c
         else
           case dial_with_dns (ti_lookup i) (ti_connect i) host port cancel (cl_now c) of
             (Dial_Cancelled, t) \<Rightarrow> client_finish aq tq (c\<lparr>cl_now := t\<rparr>)
           | (Dial_Failed, t) \<Rightarrow>
               let (b, delay) = next_delay (cl_backoff c);
                   (elapsed, t') = wait_or_cancel cancel delay t;
                   c1 = c\<lparr>cl_backoff := b, cl_now := t'\<rparr>
               in if \<not> elapsed then client_finish aq tq c1 else Some (c1, Looping)
           | (Dial_Connected target, t) \<Rightarrow>
               (case client_session tbl send aq ctx tq (ti_rounds i)
                       (c\<lparr>cl_backoff := backoff_reset (cl_backoff c), cl_now := max t (ti_over i)\<rparr>) of
                  None \<Rightarrow> None
                | Some (c1, None) \<Rightarrow> Some (c1, Mid_Trip)
                | Some (c1, Some Terminated) \<Rightarrow> client_finish aq tq c1
                | Some (c1, Some Disconnected) \<Rightarrow> Some (client_state ctx Reconnecting c1, Looping)))"

definition tcpc_run_inner ::
  "msg_table \<Rightarrow> (router_frame \<Rightarrow> 'c \<Rightarrow> 'c \<times> bool) \<Rightarrow> 'q array_queue \<Rightarrow> tcp_client_spec \<Rightarrow> nat \<Rightarrow> tx_queue \<Rightarrow> cancel_token
   \<Rightarrow> duration option \<Rightarrow> tcpc_input list \<Rightarrow> instant \<Rightarrow> 'c \<Rightarrow> 'q store \<Rightarrow> (('q, 'c) tcp_client \<times> client_progress) may_panic" where
  "tcpc_run_inner tbl send aq spec stats tq cancel clock is now ch st =
     run_client
       (tcpc_iteration tbl send aq
          \<lparr>sc_endpoint_id = tcs_endpoint_id spec, sc_stats = stats, sc_filters = if_filters (tcs_identity spec)\<rparr>
          tq (tcs_host spec) (tcs_port spec) cancel)
       is
       \<lparr>cl_store = st, cl_chan = ch, cl_now = now, cl_pushed = [], cl_conns = [],
        cl_backoff = backoff_new (tcs_reconnect_initial_ms spec) (tcs_reconnect_max_ms spec) clock\<rparr>"

section \<open>Dialling, as a search\<close>

definition reachable :: "tcp_connect \<Rightarrow> socket_addr \<Rightarrow> bool" where
  "reachable connect a \<longleftrightarrow> (case connect a of Some (d, ok) \<Rightarrow> d \<le> CONNECT_TIMEOUT \<and> ok | None \<Rightarrow> False)"

lemma sort_key_two: "sort_key (\<lambda>a. if P a then 1 else 0 :: nat) xs = filter (\<lambda>a. \<not> P a) xs @ filter P xs"
proof (induction xs)
  case (Cons x xs)
  have "insort_key (\<lambda>a. if P a then 1 else 0 :: nat) x (ys @ zs) = (if P x then ys @ x # zs else x # ys @ zs)"
    if "\<forall>y \<in> set ys. \<not> P y" "\<forall>z \<in> set zs. P z" for ys zs
    using that by (induction ys) (cases zs; simp)+
  with Cons show ?case by simp
qed simp

lemma dial_each_find:
  "fst (dial_each None connect targets now) =
     (case find (reachable connect) targets of Some a \<Rightarrow> Dial_Connected a | None \<Rightarrow> Dial_Failed)"
proof (induction targets arbitrary: now)
  case (Cons a targets)
  have "connect_one None connect a now = (if reachable connect a then Dial_Connected a else Dial_Failed, snd (connect_one None connect a now))"
    by (auto simp: connect_one_def reachable_def Let_def split: option.split)
  with Cons show ?case by (auto split: prod.split dial_outcome.split if_splits)
qed simp

lemma dial_find:
  "fst (dial_with_dns lookup connect host port None now) =
     (case find (reachable connect) (fst (resolve_to_socket_addrs lookup host port)) of Some a \<Rightarrow> Dial_Connected a | None \<Rightarrow> Dial_Failed)"
  by (cases "resolve_to_socket_addrs lookup host port") (simp add: dial_with_dns_def dial_each_find)

lemma resolve_candidates:
  "fst (resolve_to_socket_addrs lookup host port) =
     (case parse_ip host of
        Some ip \<Rightarrow> [sa_new ip port]
      | None \<Rightarrow> (case fst (lookup (host @ '':'' @ dec_word port)) of
          None \<Rightarrow> []
        | Some addrs \<Rightarrow> filter (\<lambda>a. \<not> is_ipv6 (sa_ip a)) addrs @ filter (\<lambda>a. is_ipv6 (sa_ip a)) addrs))"
  by (auto simp: resolve_to_socket_addrs_def sort_key_two split: option.split prod.split)

text \<open>
  Dialling looks for the first reachable address, the IPv4 ones before the IPv6 ones and
  otherwise in the resolver's order: it connects there, and fails only if no address accepts within
  the ten seconds each is given or the name is not resolved. A host given as an address, in the
  text form of either family, is dialled as it is without asking the resolver.
\<close>

theorem dial_finds_first_reachable:
  "fst (dial_with_dns lookup connect host port None now) =
     (case find (reachable connect) (case parse_ip host of
              Some ip \<Rightarrow> [sa_new ip port]
            | None \<Rightarrow> (case fst (lookup (host @ '':'' @ dec_word port)) of
                None \<Rightarrow> []
              | Some addrs \<Rightarrow> filter (\<lambda>a. \<not> is_ipv6 (sa_ip a)) addrs @ filter (\<lambda>a. is_ipv6 (sa_ip a)) addrs)) of
        Some a \<Rightarrow> Dial_Connected a
      | None \<Rightarrow> Dial_Failed)
   \<and> parse_ip (show_ip ip) = Some ip"
  by (simp add: dial_find resolve_candidates)

section \<open>The task keeps its contract\<close>

abbreviation (input) tcpc_left :: "instant \<Rightarrow> ('q, 'c) tcp_client \<Rightarrow> nat" where
  "tcpc_left deadline c \<equiv> (deadline - cl_now c) div 1000000"

lemma tcpc_more_inv [simp]:
  "client_inv items capq tq d0 (c\<lparr>cl_now := t\<rparr>) = client_inv items capq tq d0 c"
  "client_inv items capq tq d0 (c\<lparr>cl_backoff := b\<rparr>) = client_inv items capq tq d0 c" for c :: "('q, 'c) tcp_client"
  by (simp_all add: client_inv_def)

lemma tcpc_iteration_inv:
  assumes laws: "aq_laws aq items capq" and rel: "reliable send contents" and "small_reads (ti_rounds i)"
    and "client_inv items capq tq d0 c0"
  shows "\<exists>c p. tcpc_iteration tbl send aq ctx tq host port cancel i c0 = Some (c, p) \<and> client_inv items capq tq d0 c
    \<and> (p = Finished \<longrightarrow> client_queue items tq c = [])"
proof -
  define c1 where "c1 = client_push aq tq (ti_pushed i) c0"
  have inv: "client_inv items capq tq d0 c1" unfolding c1_def by (rule client_push_inv [OF laws assms(4)])
  note it = tcpc_iteration_def [of tbl send aq ctx tq host port cancel i c0, folded c1_def, unfolded Let_def]
  note fin = client_finish_inv [OF laws, of tq d0]
  show ?thesis
  proof (cases "is_cancelled cancel (cl_now c1)")
    case True
    with fin [OF inv] show ?thesis by (fastforce simp: it)
  next
    case False
    obtain out t where dial: "dial_with_dns (ti_lookup i) (ti_connect i) host port cancel (cl_now c1) = (out, t)" by fastforce
    show ?thesis
    proof (cases out)
      case Dial_Cancelled
      with fin [of "c1\<lparr>cl_now := t\<rparr>"] inv dial False show ?thesis by (fastforce simp: it)
    next
      case Dial_Failed
      obtain b d where nd: "next_delay (cl_backoff c1) = (b, d)" by fastforce
      obtain el t' where w: "wait_or_cancel cancel d t = (el, t')" by fastforce
      from fin [of "c1\<lparr>cl_backoff := b, cl_now := t'\<rparr>"] inv dial False Dial_Failed nd w show ?thesis
        by (cases el) (fastforce simp: it)+
    next
      case (Dial_Connected target)
      define c2 where "c2 = c1\<lparr>cl_backoff := backoff_reset (cl_backoff c1), cl_now := max t (ti_over i)\<rparr>"
      have "client_inv items capq tq d0 c2" using inv by (simp add: c2_def)
      from client_session_inv [OF laws rel this assms(3), of tbl ctx] obtain c3 o3 where
        c3: "client_session tbl send aq ctx tq (ti_rounds i) c2 = Some (c3, o3)" "client_inv items capq tq d0 c3" by blast
      with fin [of c3] dial False Dial_Connected show ?thesis
        by (cases o3; cases "the o3") (fastforce simp: it c2_def [symmetric])+
    qed
  qed
qed

lemma connect_one_time:
  assumes "connect_one (Some deadline) connect target now = (out, t)"
  shows "now \<le> t" and "t \<le> max now deadline" and "out \<noteq> Dial_Cancelled \<Longrightarrow> t < deadline"
  using assms by (auto simp: connect_one_def Let_def split: prod.splits if_splits)

lemma dial_each_time:
  "dial_each (Some deadline) connect targets now = (out, t) \<Longrightarrow>
   now \<le> t \<and> t \<le> max now deadline \<and> (\<forall>a. out = Dial_Connected a \<longrightarrow> t < deadline)"
proof (induction targets arbitrary: now)
  case (Cons a targets)
  obtain o1 t1 where c: "connect_one (Some deadline) connect a now = (o1, t1)" by fastforce
  note t1 = connect_one_time [OF c]
  show ?case
  proof (cases "o1 = Dial_Failed")
    case True
    with Cons.prems c have "dial_each (Some deadline) connect targets t1 = (out, t)" by simp
    from Cons.IH [OF this] t1 show ?thesis by auto
  next
    case False
    with Cons.prems c have "out = o1" "t = t1" by (cases o1; simp)+
    with t1 show ?thesis by auto
  qed
qed simp

text \<open>The resolver's answers within a time bound.\<close>

definition lookups_within :: "duration \<Rightarrow> tcpc_input \<Rightarrow> bool" where
  "lookups_within d i \<longleftrightarrow> (\<forall>name. snd (ti_lookup i name) \<le> d)"

lemma dial_time:
  assumes "dial_with_dns (ti_lookup i) connect host port (Some deadline) now = (out, t)"
  shows "now \<le> t" and "now < deadline \<Longrightarrow> lookups_within d i \<Longrightarrow> t \<le> deadline + d" and "out = Dial_Connected a \<Longrightarrow> t < deadline"
proof -
  obtain addrs took where r: "resolve_to_socket_addrs (ti_lookup i) host port = (addrs, took)" by fastforce
  have took: "took \<le> d" if "lookups_within d i"
    using r that snd_conv by (auto simp: resolve_to_socket_addrs_def lookups_within_def split: option.splits prod.splits) (metis snd_conv)+
  from assms r have *: "addrs = [] \<and> out = Dial_Failed \<and> t = now + took \<or> dial_each (Some deadline) connect addrs (now + took) = (out, t)"
    by (auto simp: dial_with_dns_def split: if_splits)
  then show "now \<le> t" by (auto dest: dial_each_time)
  from * show "t < deadline" if "out = Dial_Connected a" using that by (auto dest: dial_each_time)
  from * show "t \<le> deadline + d" if "now < deadline" "lookups_within d i" using that took [OF that(2)] by (fastforce dest: dial_each_time)
qed

text \<open>What one trip does with the clock.\<close>

lemma tcpc_iteration_time:
  assumes "tcpc_iteration tbl send aq ctx tq host port (Some deadline) i c0 = Some (c, p)"
  shows "p = Looping \<Longrightarrow> length (cl_conns c) = Suc (length (cl_conns c0)) \<and> cl_now c0 \<le> cl_now c
      \<or> cl_conns c = cl_conns c0 \<and> cl_now c0 + 1000000 \<le> cl_now c \<and> cl_now c < deadline"
    and "cl_now c0 \<le> deadline + d \<Longrightarrow> lookups_within d i \<Longrightarrow> ti_over i \<le> deadline \<Longrightarrow> cl_now c \<le> deadline + d"
proof -
  define c1 where "c1 = client_push aq tq (ti_pushed i) c0"
  have c1: "cl_now c1 = cl_now c0" "cl_conns c1 = cl_conns c0" by (simp_all add: c1_def)
  note it = assms [unfolded tcpc_iteration_def, folded c1_def, unfolded Let_def]
  obtain out t where dial: "dial_with_dns (ti_lookup i) (ti_connect i) host port (Some deadline) (cl_now c1) = (out, t)" by fastforce
  note dt = dial_time [OF dial]
  obtain b dl where nd: "next_delay (cl_backoff c1) = (b, dl)" by fastforce
  have dl: "1000000 \<le> dl" using next_delay_positive [of "cl_backoff c1"] nd by simp
  obtain el t' where w: "wait_or_cancel (Some deadline) dl t = (el, t')" by fastforce
  have el: "el \<longrightarrow> t' = t + dl \<and> t' < deadline" "\<not> el \<longrightarrow> t' = max t deadline"
    using w by (auto simp: wait_or_cancel_def split: if_splits)
  define c2 where "c2 = c1\<lparr>cl_backoff := backoff_reset (cl_backoff c1), cl_now := max t (ti_over i)\<rparr>"
  have sess: "length (cl_conns c3) = Suc (length (cl_conns c0))" "cl_now c3 = max t (ti_over i)"
    if "client_session tbl send aq ctx tq (ti_rounds i) c2 = Some (c3, o3)" for c3 o3
    using client_session_conns [OF that] by (simp_all add: c2_def c1)
  note it2 = it [unfolded dial prod.case nd w c2_def [symmetric]]
  show "length (cl_conns c) = Suc (length (cl_conns c0)) \<and> cl_now c0 \<le> cl_now c
      \<or> cl_conns c = cl_conns c0 \<and> cl_now c0 + 1000000 \<le> cl_now c \<and> cl_now c < deadline" if "p = Looping"
    using it2 that dt(1) el dl c1 sess
    by (auto split: if_splits dial_outcome.splits option.splits session_outcome.splits dest!: client_finish_now)
  show "cl_now c \<le> deadline + d" if "cl_now c0 \<le> deadline + d" "lookups_within d i" "ti_over i \<le> deadline"
  proof (cases "is_cancelled (Some deadline) (cl_now c1)")
    case True
    with it2 that c1 show ?thesis by (auto dest!: client_finish_now)
  next
    case False
    then have "cl_now c1 < deadline" by (simp add: is_cancelled_def)
    from dt(2) [OF this that(2)] dt(3) el it2 False that sess show ?thesis
      by (cases out) (fastforce split: if_splits option.splits session_outcome.splits dest!: client_finish_now)+
  qed
qed

interpretation tcpc: reconnecting
  "tcpc_iteration tbl send aq ctx tq host port cancel" "\<lambda>i. small_reads (ti_rounds i)"
  "\<lambda>c. aq_laws aq items capq \<and> reliable send contents \<and> client_inv items capq tq d0 c" "\<lambda>c. client_queue items tq c = []"
  for tbl send aq ctx tq host port cancel items capq contents d0
  using tcpc_iteration_inv by unfold_locales blast

interpretation tcpc_timed: reconnecting_timed
  "tcpc_iteration tbl send aq ctx tq host port (Some deadline)" "\<lambda>i. lookups_within d i \<and> ti_over i \<le> deadline"
  "\<lambda>c. length (cl_conns c)" "\<lambda>c. (deadline - cl_now c) div 1000000" "\<lambda>c. cl_now c \<le> deadline + d"
  for tbl send aq ctx tq host port deadline d
proof (unfold_locales, goal_cases)
  case (1 i s s')
  from tcpc_iteration_time(1) [OF 1 refl] show ?case
    using div_less_step [of "deadline - cl_now s'" 1000000 "deadline - cl_now s"] by (auto intro: div_le_mono)
next
  case (2 i s s' p)
  then show ?case using tcpc_iteration_time(2) [OF 2(3)] by blast
qed


definition demo_tcpc_spec :: tcp_client_spec where
  "demo_tcpc_spec = tcp_client_from_endpoint \<lparr>tce_host = ''pilot'', tce_port = 5760, tce_identity = identity_default\<rparr> 7 ''fc''"

definition demo_trip :: "(duration \<times> bool) option \<Rightarrow> tcpc_input" where
  "demo_trip answer =
     \<lparr>ti_lookup = (\<lambda>_. (Some [SocketV4 (Ipv4 10 0 0 1) 5760], 7)), ti_connect = (\<lambda>_. answer), ti_pushed = [[1], [2]],
      ti_rounds = [\<lparr>sn_cancelled = False, sn_read = None, sn_write_ok = True, sn_now = 0, sn_pushed = [[3]]\<rparr>,
                   \<lparr>sn_cancelled = False, sn_read = Some Read_Err, sn_write_ok = True, sn_now = 0, sn_pushed = [[4]]\<rparr>],
      ti_over = 0\<rparr>"




end
