(* ===== verification/Serial.thy ===== *)
theory Serial
  imports Stream_Client
begin

text \<open>
  The serial endpoint, \<^verbatim>\<open>src/endpoint/serial.rs\<close>: open the device, run a session on it, and open it
  again after a fixed delay. Opening the device, \<^verbatim>\<open>tokio_serial\<close>, is an input: the results of
  the attempts of a trip.
\<close>

section \<open>Data\<close>

definition REOPEN_DELAY :: duration where
  "REOPEN_DELAY = 1000000000"

datatype serial_flow_control = Flow_None | Flow_RtsCts

record serial_endpoint =
  sre_path :: string
  sre_baud :: u32
  sre_flow_control :: serial_flow_control
  sre_identity :: identity_flags

record serial_spec =
  srs_path :: string
  srs_baud :: u32
  srs_flow_control :: serial_flow_control
  srs_endpoint_id :: endpoint_id
  srs_name :: string
  srs_identity :: identity_flags

definition serial_from_endpoint :: "serial_endpoint \<Rightarrow> endpoint_id \<Rightarrow> string \<Rightarrow> serial_spec" where
  "serial_from_endpoint ep i name =
     \<lparr>srs_path = sre_path ep, srs_baud = sre_baud ep, srs_flow_control = sre_flow_control ep,
      srs_endpoint_id = i, srs_name = name, srs_identity = sre_identity ep\<rparr>"

section \<open>Opening\<close>

text \<open>
  The flow control of \<^verbatim>\<open>tokio_serial\<close>, and its \<^verbatim>\<open>open_native_async\<close> as the answer of one attempt to
  the settings it is given.
\<close>

datatype ts_flow = Ts_None | Ts_Software | Ts_Hardware

type_synonym open_native = "string \<Rightarrow> u32 \<Rightarrow> ts_flow \<Rightarrow> bool"

datatype open_outcome = Opened | Open_Cancelled

definition try_open :: "open_native \<Rightarrow> string \<Rightarrow> u32 \<Rightarrow> serial_flow_control \<Rightarrow> bool" where
  "try_open port path baud flow_control =
     (let fc = (case flow_control of Flow_None \<Rightarrow> Ts_None | Flow_RtsCts \<Rightarrow> Ts_Hardware)
      in port path baud fc)"

text \<open>\<^term>\<open>None\<close>: still waiting after the given attempts.\<close>

fun open_until_cancel ::
  "open_native list \<Rightarrow> string \<Rightarrow> u32 \<Rightarrow> serial_flow_control \<Rightarrow> cancel_token \<Rightarrow> instant \<Rightarrow> (open_outcome \<times> instant) option" where
  "open_until_cancel [] path baud flow_control cancel now =
     (if is_cancelled cancel now then Some (Open_Cancelled, now) else None)"
| "open_until_cancel (port # ports) path baud flow_control cancel now =
     (if is_cancelled cancel now then Some (Open_Cancelled, now)
      else if try_open port path baud flow_control then Some (Opened, now)
      else
        case wait_or_cancel cancel REOPEN_DELAY now of
          (False, now') \<Rightarrow> Some (Open_Cancelled, now')
        | (True, now') \<Rightarrow> open_until_cancel ports path baud flow_control cancel now')"

section \<open>The task\<close>

text \<open>
  A trip's input: the attempts to open the device, the frames pushed meanwhile, the rounds of the
  session, when it is over, and the frames pushed during the delay that follows it.
\<close>

record serial_input =
  si_ports :: "open_native list"
  si_pushed :: "bytes list"
  si_rounds :: "session_input list"
  si_over :: instant
  si_waiting :: "bytes list"

definition serial_iteration ::
  "msg_table \<Rightarrow> (router_frame \<Rightarrow> 'c \<Rightarrow> 'c \<times> bool) \<Rightarrow> 'q array_queue \<Rightarrow> session_ctx \<Rightarrow> tx_queue \<Rightarrow> string \<Rightarrow> u32 \<Rightarrow> serial_flow_control
   \<Rightarrow> cancel_token \<Rightarrow> serial_input \<Rightarrow> ('q, 'c) stream_client \<Rightarrow> (('q, 'c) stream_client \<times> client_progress) may_panic" where
  "serial_iteration tbl send aq ctx tq path baud flow_control cancel i c0 =
     (let c = client_push aq tq (si_pushed i) c0
      in if is_cancelled cancel (cl_now c) then client_finish aq tq c
         else
           case open_until_cancel (si_ports i) path baud flow_control cancel (cl_now c) of
             None \<Rightarrow> Some (c, Mid_Trip)
           | Some (Open_Cancelled, t) \<Rightarrow> client_finish aq tq (c\<lparr>cl_now := t\<rparr>)
           | Some (Opened, t) \<Rightarrow>
               (case client_session tbl send aq ctx tq (si_rounds i) (c\<lparr>cl_now := max t (si_over i)\<rparr>) of
                  None \<Rightarrow> None
                | Some (c1, None) \<Rightarrow> Some (c1, Mid_Trip)
                | Some (c1, Some Terminated) \<Rightarrow> client_finish aq tq c1
                | Some (c1, Some Disconnected) \<Rightarrow>
                    (case client_drain aq tq c1 of
                       None \<Rightarrow> None
                     | Some c2 \<Rightarrow>
                         let c3 = client_push aq tq (si_waiting i) (client_state ctx Reconnecting c2);
                             (elapsed, t') = wait_or_cancel cancel REOPEN_DELAY (cl_now c3)
                         in Some (c3\<lparr>cl_now := t'\<rparr>, if elapsed then Looping else Finished))))"

definition serial_run_inner ::
  "msg_table \<Rightarrow> (router_frame \<Rightarrow> 'c \<Rightarrow> 'c \<times> bool) \<Rightarrow> 'q array_queue \<Rightarrow> serial_spec \<Rightarrow> nat \<Rightarrow> tx_queue \<Rightarrow> cancel_token
   \<Rightarrow> serial_input list \<Rightarrow> instant \<Rightarrow> 'c \<Rightarrow> 'q store \<Rightarrow> (('q, 'c) stream_client \<times> client_progress) may_panic" where
  "serial_run_inner tbl send aq spec stats tq cancel is now ch st =
     run_client
       (serial_iteration tbl send aq
          \<lparr>sc_endpoint_id = srs_endpoint_id spec, sc_stats = stats, sc_filters = if_filters (srs_identity spec)\<rparr>
          tq (srs_path spec) (srs_baud spec) (srs_flow_control spec) cancel)
       is
       \<lparr>cl_store = st, cl_chan = ch, cl_now = now, cl_pushed = [], cl_conns = []\<rparr>"

section \<open>Time\<close>

lemma wait_time:
  assumes "wait_or_cancel cancel delay now = (elapsed, t)"
  shows "now \<le> t" and "elapsed \<Longrightarrow> t = now + delay" and "cancel = Some deadline \<Longrightarrow> t \<le> max now deadline"
  using assms by (auto simp: wait_or_cancel_def split: option.splits if_splits)

lemma open_time:
  "open_until_cancel ports path baud fc cancel now = Some (out, t) \<Longrightarrow>
   now \<le> t \<and> (\<forall>deadline. cancel = Some deadline \<longrightarrow> t \<le> max now deadline)"
proof (induction ports arbitrary: now)
  case (Cons port ports)
  obtain el t1 where w: "wait_or_cancel cancel REOPEN_DELAY now = (el, t1)" by fastforce
  note wt = wait_time [OF w]
  from Cons.prems w consider "t = now" | "t = t1" | "open_until_cancel ports path baud fc cancel t1 = Some (out, t)"
    by (auto split: if_splits bool.splits)
  then show ?case using wt Cons.IH [of t1] by cases fastforce+
qed (auto split: if_splits)

lemma serial_iteration_time:
  assumes "serial_iteration tbl send aq ctx tq path baud fc cancel i c0 = Some (c, p)"
  shows "cl_now c0 \<le> cl_now c
    \<and> (if p = Looping then length (cl_conns c) = Suc (length (cl_conns c0)) \<and> cl_now c0 + REOPEN_DELAY \<le> cl_now c
       else length (cl_conns c) \<le> Suc (length (cl_conns c0)))
    \<and> (\<forall>deadline. cancel = Some deadline \<and> cl_now c0 \<le> deadline \<and> si_over i \<le> deadline \<longrightarrow> cl_now c \<le> deadline)"
proof -
  define c1 where "c1 = client_push aq tq (si_pushed i) c0"
  have c1: "cl_now c1 = cl_now c0" "cl_conns c1 = cl_conns c0" by (simp_all add: c1_def)
  note it = assms [unfolded serial_iteration_def, folded c1_def, unfolded Let_def]
  show ?thesis
  proof (cases "is_cancelled cancel (cl_now c1) \<or> open_until_cancel (si_ports i) path baud fc cancel (cl_now c1) = None")
    case True
    with it consider "client_finish aq tq c1 = Some (c, p)" | "c = c1" "p = Mid_Trip" by (auto split: if_splits)
    then show ?thesis using c1 by cases (auto dest!: client_finish_now)
  next
    case False
    then obtain out t where o: "open_until_cancel (si_ports i) path baud fc cancel (cl_now c1) = Some (out, t)" by auto
    note ot = open_time [OF o]
    show ?thesis
    proof (cases out)
      case Open_Cancelled
      with it False o ot c1 show ?thesis by (auto dest!: client_finish_now)
    next
      case Opened
      define c2 where "c2 = c1\<lparr>cl_now := max t (si_over i)\<rparr>"
      from it False o Opened obtain c3 o3 where s: "client_session tbl send aq ctx tq (si_rounds i) c2 = Some (c3, o3)"
        by (auto simp: c2_def split: option.splits)
      have c3: "length (cl_conns c3) = Suc (length (cl_conns c0))" "cl_now c3 = max t (si_over i)"
        using client_session_conns [OF s] by (simp_all add: c2_def c1)
      note it2 = it [unfolded o option.case prod.case, folded c2_def, unfolded s]
      obtain el t' where w: "wait_or_cancel cancel REOPEN_DELAY (cl_now c3) = (el, t')" by fastforce
      show ?thesis
      proof (cases "o3 = Some Disconnected")
        case True
        with it2 False Opened w have "cl_now c = t'" "cl_conns c = cl_conns c3" "p = Looping \<longleftrightarrow> el"
          by (auto split: option.splits if_splits dest!: client_drain_simps)
        with wait_time [OF w] c3 ot c1 show ?thesis by auto
      next
        case no_disc: False
        then have "o3 = None \<or> o3 = Some Terminated" by (cases o3; cases "the o3") auto
        with it2 False Opened c3 ot c1 show ?thesis by (auto dest!: client_finish_now)
      qed
    qed
  qed
qed

interpretation serial_timed: reconnecting_timed
  "serial_iteration tbl send aq ctx tq path baud fc (Some deadline)" "\<lambda>i. si_over i \<le> deadline"
  "\<lambda>c. length (cl_conns c)" "\<lambda>c. deadline - cl_now c" "\<lambda>c. cl_now c \<le> deadline"
  for tbl send aq ctx tq path baud fc deadline
proof (unfold_locales, goal_cases)
  case (1 i s s')
  from serial_iteration_time [OF 1] show ?case by (simp add: diff_le_mono2)
next
  case (2 i s s' p)
  with serial_iteration_time [OF 2(3)] show ?case by blast
qed

lemma serial_paced:
  "run_client (serial_iteration tbl send aq ctx tq path baud fc cancel) is c0 = Some (c, p) \<Longrightarrow>
   cl_now c0 \<le> cl_now c \<and>
   length (cl_conns c) * REOPEN_DELAY \<le> length (cl_conns c0) * REOPEN_DELAY + (cl_now c - cl_now c0) + (if p = Looping then 0 else REOPEN_DELAY)"
proof (induction "is" arbitrary: c0)
  case (Cons i "is")
  from Cons.prems obtain c1 p1 where r: "serial_iteration tbl send aq ctx tq path baud fc cancel i c0 = Some (c1, p1)"
    by (auto split: option.splits)
  note t = serial_iteration_time [OF r]
  show ?case
  proof (cases "p1 = Looping")
    case True
    with Cons.prems r have "run_client (serial_iteration tbl send aq ctx tq path baud fc cancel) is c1 = Some (c, p)" by simp
    from Cons.IH [OF this] t True show ?thesis by auto
  next
    case False
    with Cons.prems r have "c = c1" "p = p1" by (cases p1; simp)+
    moreover have "length (cl_conns c1) * REOPEN_DELAY \<le> Suc (length (cl_conns c0)) * REOPEN_DELAY"
      using t False by (intro mult_le_mono1) simp
    moreover have "cl_now c0 \<le> cl_now c1" using t by simp
    ultimately show ?thesis using False by simp
  qed
qed simp

section \<open>What the device is sent\<close>

lemma client_now_inv [simp]: "client_inv items capq tq d0 (c\<lparr>cl_now := t\<rparr>) = client_inv items capq tq d0 c" for c :: "('q, 'c) stream_client"
  by (simp add: client_inv_def)

text \<open>The step after a disconnect.\<close>

lemma serial_after_disconnect:
  assumes laws: "aq_laws aq items capq" and "client_inv items capq tq d0 c1"
  shows "\<exists>c2. client_drain aq tq c1 = Some c2
    \<and> client_inv items capq tq d0 (client_push aq tq frames (client_state ctx Reconnecting c2))
    \<and> subseq (client_queue items tq (client_push aq tq frames (client_state ctx Reconnecting c2))) frames"
proof -
  from client_drain_inv [OF assms] obtain c2 where c2: "client_drain aq tq c1 = Some c2" "client_inv items capq tq d0 c2" "client_queue items tq c2 = []"
    by blast
  have "client_inv items capq tq d0 (client_state ctx Reconnecting c2)" "client_queue items tq (client_state ctx Reconnecting c2) = []"
    using c2 by simp_all
  with client_push_inv [OF laws this(1)] client_push_queue [OF laws this] c2(1) show ?thesis by blast
qed

lemma serial_iteration_inv:
  assumes laws: "aq_laws aq items capq" and rel: "reliable send contents" and "small_reads (si_rounds i)"
    and "client_inv items capq tq d0 c0"
  shows "\<exists>c p. serial_iteration tbl send aq ctx tq path baud fc cancel i c0 = Some (c, p) \<and> client_inv items capq tq d0 c
    \<and> (p = Finished \<longrightarrow> subseq (client_queue items tq c) (si_waiting i))"
proof -
  define c1 where "c1 = client_push aq tq (si_pushed i) c0"
  have inv: "client_inv items capq tq d0 c1" unfolding c1_def by (rule client_push_inv [OF laws assms(4)])
  note it = serial_iteration_def [of tbl send aq ctx tq path baud fc cancel i c0, folded c1_def, unfolded Let_def]
  note fin = client_finish_inv [OF laws, of tq d0]
  consider (cancelled) "is_cancelled cancel (cl_now c1)"
    | (waiting) "\<not> is_cancelled cancel (cl_now c1)" "open_until_cancel (si_ports i) path baud fc cancel (cl_now c1) = None"
    | (stopped) t where "\<not> is_cancelled cancel (cl_now c1)" "open_until_cancel (si_ports i) path baud fc cancel (cl_now c1) = Some (Open_Cancelled, t)"
    | (opened) t where "\<not> is_cancelled cancel (cl_now c1)" "open_until_cancel (si_ports i) path baud fc cancel (cl_now c1) = Some (Opened, t)"
  proof (cases "open_until_cancel (si_ports i) path baud fc cancel (cl_now c1)")
    case (Some r)
    with that(1,3,4) show ?thesis by (cases r; cases "fst r") auto
  qed (use that(1,2) in blast)
  then show ?thesis
  proof cases
    case cancelled
    with fin [OF inv] show ?thesis by (fastforce simp: it)
  next
    case waiting
    with inv show ?thesis by (simp add: it)
  next
    case (stopped t)
    with fin [of "c1\<lparr>cl_now := t\<rparr>"] inv show ?thesis by (fastforce simp: it)
  next
    case (opened t)
    define c2 where "c2 = c1\<lparr>cl_now := max t (si_over i)\<rparr>"
    have "client_inv items capq tq d0 c2" using inv by (simp add: c2_def)
    from client_session_inv [OF laws rel this assms(3), of tbl ctx] obtain c3 o3 where
      c3: "client_session tbl send aq ctx tq (si_rounds i) c2 = Some (c3, o3)" "client_inv items capq tq d0 c3" by blast
    from serial_after_disconnect [OF laws c3(2), of "si_waiting i" ctx] obtain c4 where
      c4: "client_drain aq tq c3 = Some c4"
        "client_inv items capq tq d0 (client_push aq tq (si_waiting i) (client_state ctx Reconnecting c4))"
        "subseq (client_queue items tq (client_push aq tq (si_waiting i) (client_state ctx Reconnecting c4))) (si_waiting i)" by blast
    consider "o3 = None" | "o3 = Some Terminated" | "o3 = Some Disconnected" by (cases o3; cases "the o3") auto
    then show ?thesis
    proof cases
      case 1
      with c3 opened show ?thesis by (simp add: it c2_def [symmetric])
    next
      case 2
      from fin [OF c3(2)] obtain c5 where "client_finish aq tq c3 = Some (c5, Finished)" "client_inv items capq tq d0 c5"
        "client_queue items tq c5 = []" by blast
      with 2 c3 opened show ?thesis by (simp add: it c2_def [symmetric])
    next
      case 3
      with c3 c4 opened show ?thesis by (simp add: it c2_def [symmetric] case_prod_unfold)
    qed
  qed
qed

interpretation serial: reconnecting
  "serial_iteration tbl send aq ctx tq path baud fc cancel" "\<lambda>i. small_reads (si_rounds i) \<and> si_waiting i \<in> waits"
  "\<lambda>c. aq_laws aq items capq \<and> reliable send contents \<and> client_inv items capq tq d0 c"
  "\<lambda>c. \<exists>w \<in> waits. subseq (client_queue items tq c) w"
  for tbl send aq ctx tq path baud fc cancel items capq contents d0 waits
  using serial_iteration_inv by unfold_locales blast



definition demo_serial_spec :: serial_spec where
  "demo_serial_spec = serial_from_endpoint
     \<lparr>sre_path = ''/dev/ttyACM0'', sre_baud = 57600, sre_flow_control = Flow_None, sre_identity = identity_default\<rparr> 3 ''fc''"

definition demo_opening :: "bool \<Rightarrow> serial_input" where
  "demo_opening ok =
     \<lparr>si_ports = [\<lambda>_ _ _. ok], si_pushed = [[1], [2]],
      si_rounds = [\<lparr>sn_cancelled = False, sn_read = Some Read_Err, sn_write_ok = True, sn_now = 0, sn_pushed = [[3]]\<rparr>],
      si_over = 0, si_waiting = [[4]]\<rparr>"



end
