(* ===== verification/Tcp_Server.thy ===== *)
theory Tcp_Server
  imports Stream_Client Lifecycle
begin

text \<open>
  The TCP server endpoint, \<^verbatim>\<open>src/endpoint/tcp/server.rs\<close>: an accept loop that announces each client
  and spawns a task for it, and the tasks, each a session that announces the removal of its client
  when it ends. The tasks interleave: a step of the model is one round of the accept loop or one
  round of one client's session. The listener keeps the contract of \<^verbatim>\<open>peer_listener\<close>.
\<close>

declare map_of_eq_Some_iff [simp del]

section \<open>Data\<close>

record tcp_server_endpoint =
  tse_bind_addr :: socket_addr
  tse_identity :: identity_flags

record tcp_server_spec =
  tss_listen_addr :: socket_addr
  tss_parent_id :: endpoint_id
  tss_parent_name :: string
  tss_reconnect_initial_ms :: u64
  tss_reconnect_max_ms :: u64
  tss_identity :: identity_flags

definition tcp_server_from_endpoint :: "tcp_server_endpoint \<Rightarrow> endpoint_id \<Rightarrow> string \<Rightarrow> tcp_server_spec" where
  "tcp_server_from_endpoint ep parent_id parent_name =
     \<lparr>tss_listen_addr = tse_bind_addr ep, tss_parent_id = parent_id, tss_parent_name = parent_name,
      tss_reconnect_initial_ms = DEFAULT_RECONNECT_INITIAL_MS, tss_reconnect_max_ms = DEFAULT_RECONNECT_MAX_MS,
      tss_identity = tse_identity ep\<rparr>"

text \<open>A client's task: its wiring, the local state of its session, and the bytes it has read so far.\<close>

record tcp_child =
  tc_id :: endpoint_id
  tc_addr :: socket_addr
  tc_queue :: tx_queue
  tc_stats :: nat
  tc_framer :: framer
  tc_counters :: framer_counters
  tc_tracker :: seq_tracker
  tc_written :: "bytes list"
  tc_read :: bytes

text \<open>
  The tasks running, the handles of finished tasks not yet reaped, the ends of the channels and
  the shared store, and whether the accept loop is still accepting.
\<close>

record ('q, 'c, 'e) tcp_server =
  ts_children :: "tcp_child list"
  ts_finished :: nat
  ts_alloc :: id_allocator
  ts_store :: "'q store"
  ts_frame_tx :: 'c
  ts_event_tx :: 'e
  ts_accepting :: bool

section \<open>Accepting\<close>

definition reap_children :: "('q, 'c, 'e) tcp_server \<Rightarrow> ('q, 'c, 'e) tcp_server" where
  "reap_children s = s\<lparr>ts_finished := 0\<rparr>"

definition accept_one_client ::
  "'q array_queue \<Rightarrow> 'e send_event \<Rightarrow> tcp_server_spec \<Rightarrow> socket_addr \<Rightarrow> ('q, 'c, 'e) tcp_server \<Rightarrow> ('q, 'c, 'e) tcp_server" where
  "accept_one_client aq send_event spec peer_addr s =
     (let (child_id, alloc) = alloc_id (ts_alloc s);
          (stats, st1) = alloc_stats Connected (ts_store s);
          (tx_queue, st2) = tx_new aq DEFAULT_TX_QUEUE_FRAMES stats st1;
          name = peer_endpoint_name (tss_parent_name spec) peer_addr;
          (event_tx, ok) =
            send_event (PeerAdded (tss_parent_id spec) child_id name stats
              \<lparr>ro_tx_queue = tx_queue, ro_identity = tss_identity spec, ro_endpoint_name = tss_parent_name spec\<rparr>) (ts_event_tx s);
          s1 = s\<lparr>ts_alloc := alloc, ts_store := st2, ts_event_tx := event_tx\<rparr>
      in if \<not> ok then s1
         else s1\<lparr>ts_children := ts_children s1 @
                [\<lparr>tc_id = child_id, tc_addr = peer_addr, tc_queue = tx_queue, tc_stats = stats, tc_framer = framer_new,
                  tc_counters = counters_new, tc_tracker = seq_new SEQ_TRACKER_CAPACITY, tc_written = [], tc_read = []\<rparr>]\<rparr>)"

datatype accept_result = Accepted socket_addr | Accept_Err

record accept_input =
  ai_now :: instant
  ai_accept :: "accept_result option"
  ai_other_ids :: nat

text \<open>
  One round of the accept loop; \<^verbatim>\<open>ai_other_ids\<close> are the identifiers other tasks took from the shared
  allocator since the last.
\<close>

definition accept_round ::
  "'q array_queue \<Rightarrow> 'e send_event \<Rightarrow> tcp_server_spec \<Rightarrow> cancel_token \<Rightarrow> accept_input \<Rightarrow> ('q, 'c, 'e) tcp_server \<Rightarrow> ('q, 'c, 'e) tcp_server" where
  "accept_round aq send_event spec cancel i s0 =
     (let s = reap_children (s0\<lparr>ts_alloc := snd (alloc_ids (ai_other_ids i) (ts_alloc s0))\<rparr>)
      in if is_cancelled cancel (ai_now i) then s\<lparr>ts_accepting := False\<rparr>
         else case ai_accept i of
           None \<Rightarrow> s
         | Some (Accepted peer_addr) \<Rightarrow> accept_one_client aq send_event spec peer_addr s
         | Some Accept_Err \<Rightarrow>
             if fst (wait_or_cancel cancel SOCKET_ERROR_RETRY_DELAY (ai_now i)) then s else s\<lparr>ts_accepting := False\<rparr>)"

section \<open>A client's task\<close>

definition child_session :: "tcp_child \<Rightarrow> ('q, 'c, 'e) tcp_server \<Rightarrow> ('q, 'c) session" where
  "child_session child s =
     \<lparr>se_framer = tc_framer child, se_counters = tc_counters child, se_tracker = tc_tracker child,
      se_chan = ts_frame_tx s, se_store = ts_store s, se_written = tc_written child\<rparr>"

definition read_bytes :: "session_input \<Rightarrow> bytes" where
  "read_bytes i = (case sn_read i of Some (Read_Ok data) \<Rightarrow> data | _ \<Rightarrow> [])"

definition removal_reason :: "session_outcome \<Rightarrow> peer_removal_reason" where
  "removal_reason outcome = (case outcome of Terminated \<Rightarrow> Reason_ListenerShutdown | Disconnected \<Rightarrow> Reason_Disconnected)"

text \<open>
  One round of the session of the \<^term>\<open>n\<close>-th task, and, when the session has an outcome, the rest of
  \<^verbatim>\<open>run_client_session\<close>: drain the queue and announce the removal.
\<close>

definition client_round ::
  "msg_table \<Rightarrow> (router_frame \<Rightarrow> 'c \<Rightarrow> 'c \<times> bool) \<Rightarrow> 'q array_queue \<Rightarrow> 'e send_event \<Rightarrow> tcp_server_spec \<Rightarrow> nat \<Rightarrow> session_input
   \<Rightarrow> ('q, 'c, 'e) tcp_server \<Rightarrow> ('q, 'c, 'e) tcp_server may_panic" where
  "client_round tbl send aq send_event spec n i s =
     (if length (ts_children s) \<le> n then Some s
      else
        let child = ts_children s ! n;
            ctx = \<lparr>sc_endpoint_id = tc_id child, sc_stats = tc_stats child, sc_filters = if_filters (tss_identity spec)\<rparr>
        in case session_round tbl send aq ctx (tc_queue child) i (child_session child s) of
             None \<Rightarrow> None
           | Some (se, None) \<Rightarrow>
               Some (s\<lparr>ts_frame_tx := se_chan se, ts_store := se_store se,
                 ts_children := (ts_children s)[n := child\<lparr>tc_framer := se_framer se, tc_counters := se_counters se,
                   tc_tracker := se_tracker se, tc_written := se_written se, tc_read := tc_read child @ read_bytes i\<rparr>]\<rparr>)
           | Some (se, Some outcome) \<Rightarrow>
               (case drain_and_discard aq (tc_queue child) (se_store se) of
                  None \<Rightarrow> None
                | Some (st, drained) \<Rightarrow>
                    Some (s\<lparr>ts_frame_tx := se_chan se, ts_store := st,
                      ts_event_tx := fst (send_event (PeerRemoved (tss_parent_id spec) (tc_id child) (removal_reason outcome)) (ts_event_tx s)),
                      ts_children := take n (ts_children s) @ drop (Suc n) (ts_children s),
                      ts_finished := Suc (ts_finished s)\<rparr>)))"

section \<open>The listener\<close>

datatype tcps_input = Accept_Round accept_input | Client_Round nat session_input

fun tcps_step ::
  "msg_table \<Rightarrow> (router_frame \<Rightarrow> 'c \<Rightarrow> 'c \<times> bool) \<Rightarrow> 'q array_queue \<Rightarrow> 'e send_event \<Rightarrow> tcp_server_spec \<Rightarrow> cancel_token \<Rightarrow> tcps_input
   \<Rightarrow> ('q, 'c, 'e) tcp_server \<Rightarrow> ('q, 'c, 'e) tcp_server may_panic" where
  "tcps_step tbl send aq send_event spec cancel (Accept_Round i) s =
     Some (if ts_accepting s then accept_round aq send_event spec cancel i s else s)"
| "tcps_step tbl send aq send_event spec cancel (Client_Round n i) s = client_round tbl send aq send_event spec n i s"

text \<open>The accept loop is over once it has stopped accepting and all tasks have been joined.\<close>

definition accept_loop_over :: "('q, 'c, 'e) tcp_server \<Rightarrow> bool" where
  "accept_loop_over s \<longleftrightarrow> \<not> ts_accepting s \<and> ts_children s = []"

definition run_accept_loop ::
  "msg_table \<Rightarrow> (router_frame \<Rightarrow> 'c \<Rightarrow> 'c \<times> bool) \<Rightarrow> 'q array_queue \<Rightarrow> 'e send_event \<Rightarrow> tcp_server_spec \<Rightarrow> cancel_token \<Rightarrow> tcps_input list
   \<Rightarrow> ('q, 'c, 'e) tcp_server \<Rightarrow> ('q, 'c, 'e) tcp_server may_panic" where
  "run_accept_loop tbl send aq send_event spec cancel is s =
     run_steps (tcps_step tbl send aq send_event spec cancel) is (s\<lparr>ts_children := [], ts_finished := 0, ts_accepting := True\<rparr>)"

text \<open>
  A life of the listener: what its attempts to bind give, the steps of its accept loop and when
  that is over. The flag of the result says that the task has returned.
\<close>

record listener_life =
  ll_bind :: "nat \<Rightarrow> (string, unit) res"
  ll_steps :: "tcps_input list"
  ll_over :: instant

fun tcps_run_inner ::
  "msg_table \<Rightarrow> (router_frame \<Rightarrow> 'c \<Rightarrow> 'c \<times> bool) \<Rightarrow> 'q array_queue \<Rightarrow> 'e send_event \<Rightarrow> tcp_server_spec \<Rightarrow> nat \<Rightarrow> cancel_token \<Rightarrow> nat
   \<Rightarrow> listener_life list \<Rightarrow> backoff \<Rightarrow> instant \<Rightarrow> ('q, 'c, 'e) tcp_server \<Rightarrow> (('q, 'c, 'e) tcp_server \<times> bool) option" where
  "tcps_run_inner tbl send aq send_event spec stats cancel fuel [] b now s = Some (s, False)"
| "tcps_run_inner tbl send aq send_event spec stats cancel fuel (life # lives) b now s =
     (case bind_with_backoff fuel cancel (ll_bind life) 0 b now of
        None \<Rightarrow> None
      | Some (Cancelled, _, _) \<Rightarrow> Some (s, True)
      | Some (Bound _, b', t) \<Rightarrow>
          (case run_accept_loop tbl send aq send_event spec cancel (ll_steps life)
                  (s\<lparr>ts_store := upd_stats stats (store_state Connected) (ts_store s)\<rparr>) of
             None \<Rightarrow> None
           | Some s' \<Rightarrow>
               if accept_loop_over s'
               then tcps_run_inner tbl send aq send_event spec stats cancel fuel lives b' (max t (ll_over life)) s'
               else Some (s', False)))"

definition tcps_new :: "id_allocator \<Rightarrow> 'q store \<Rightarrow> 'c \<Rightarrow> 'e \<Rightarrow> ('q, 'c, 'e) tcp_server" where
  "tcps_new alloc st ch ev =
     \<lparr>ts_children = [], ts_finished = 0, ts_alloc = alloc, ts_store = st, ts_frame_tx = ch, ts_event_tx = ev, ts_accepting = False\<rparr>"

section \<open>What a step leaves alone\<close>

lemma push_all_next [simp]: "sto_next (push_all aq tq frames st) = sto_next st"
  unfolding push_all_def
  by (induction frames arbitrary: st) (simp_all add: tx_push_def case_prod_unfold Let_def split: option.split)

lemma drain_next: "drain_and_discard aq tq st = Some (st', n) \<Longrightarrow> sto_next st' = sto_next st"
  by (auto simp: drain_and_discard_def Let_def split: option.splits if_splits)

lemma session_round_next:
  assumes "session_round tbl send aq ctx tq i s = Some (s', out)"
  shows "sto_next (se_store s') = sto_next (se_store s)"
proof (cases "sn_read i")
  case (Some res)
  have "sto_next (se_store s') = sto_next (se_store (s\<lparr>se_store := push_all aq tq (sn_pushed i) (se_store s)\<rparr>))"
    using assms Some by (auto simp: session_round_def Let_def tx_untouched_def split: if_splits read_result.splits dest!: handle_read_untouched)
  then show ?thesis by simp
next
  case None
  with assms show ?thesis
    by (auto simp: session_round_def Let_def write_outbound_frame_def se_upd_def poll_pop_or_wait_def tx_pop_def case_prod_unfold
        split: if_splits option.splits)
qed

section \<open>The contract\<close>

definition client_ids :: "('q, 'c, 'e) tcp_server \<Rightarrow> endpoint_id list" where
  "client_ids s = map tc_id (ts_children s)"

definition tcps_ok :: "nat \<Rightarrow> life \<Rightarrow> ('q, 'c, 'e) tcp_server \<Rightarrow> bool" where
  "tcps_ok k l s \<longleftrightarrow>
     (case l of (ids, queues, alive) \<Rightarrow>
        (\<exists>m \<le> k. ida_next (ts_alloc s) = of_nat m \<and> ids \<subseteq> of_nat ` {..<m})
        \<and> queues \<subseteq> {..<sto_next (ts_store s)} \<and> alive \<subseteq> ids
        \<and> distinct (client_ids s) \<and> alive = set (client_ids s))"

text \<open>The events a step sends drive the automaton of the contract.\<close>

definition tcps_sends :: "('e \<Rightarrow> endpoint_event list) \<Rightarrow> life \<Rightarrow> life \<Rightarrow> ('q, 'c, 'e) tcp_server \<Rightarrow> ('q, 'c, 'e) tcp_server \<Rightarrow> bool" where
  "tcps_sends contents l l' s s' \<longleftrightarrow>
     (\<exists>evs. contents (ts_event_tx s') = contents (ts_event_tx s) @ evs \<and> life_run evs l = Some l')"

lemma tcps_sends_none: "ts_event_tx s' = ts_event_tx s \<Longrightarrow> tcps_sends contents l l s s'"
  by (auto simp: tcps_sends_def intro: exI [of _ "[]"])

lemma tcps_sends_one:
  "contents (ts_event_tx s') = contents (ts_event_tx s) @ [ev] \<Longrightarrow> life_step ev l = Some l' \<Longrightarrow> tcps_sends contents l l' s s'"
  unfolding tcps_sends_def by (intro exI [of _ "[ev]"]) simp

lemma tcps_ok_other:
  assumes "tcps_ok k l s"
  shows "tcps_ok (k + n) l (reap_children (s\<lparr>ts_alloc := snd (alloc_ids n (ts_alloc s))\<rparr>))"
proof -
  obtain ids queues alive where l: "l = (ids, queues, alive)" by (cases l)
  from assms obtain m where m: "m \<le> k" "ida_next (ts_alloc s) = of_nat m" "ids \<subseteq> of_nat ` {..<m}" by (auto simp: tcps_ok_def l)
  then have "\<exists>m' \<le> k + n. ida_next (snd (alloc_ids n (ts_alloc s))) = of_nat m' \<and> ids \<subseteq> of_nat ` {..<m'}"
    by (intro exI [of _ "m + n"]) (auto simp: alloc_ids_next)
  with assms show ?thesis by (auto simp: tcps_ok_def l reap_children_def client_ids_def)
qed

lemma tcps_ok_mono: "tcps_ok k l s \<Longrightarrow> k \<le> k' \<Longrightarrow> tcps_ok k' l s"
  unfolding tcps_ok_def by (auto split: prod.splits) (metis le_trans)

lemma tcps_ok_flag [simp]: "tcps_ok k l (s\<lparr>ts_accepting := b\<rparr>) = tcps_ok k l s"
  by (simp add: tcps_ok_def client_ids_def)

lemma accept_ok:
  assumes rel: "reliable_events send_event contents" and ok: "tcps_ok k l s" and "k < 2 ^ 64"
  shows "\<exists>l'. tcps_ok (Suc k) l' (accept_one_client aq send_event spec addr s)
    \<and> tcps_sends contents l l' s (accept_one_client aq send_event spec addr s)"
proof -
  obtain ids queues alive where l: "l = (ids, queues, alive)" by (cases l)
  from ok obtain m where m: "m \<le> k" "ida_next (ts_alloc s) = of_nat m" "ids \<subseteq> of_nat ` {..<m}" by (auto simp: tcps_ok_def l)
  define c where "c = ida_next (ts_alloc s)"
  define q where "q = Suc (sto_next (ts_store s))"
  let ?s' = "accept_one_client aq send_event spec addr s"
  define ev where "ev = PeerAdded (tss_parent_id spec) c (peer_endpoint_name (tss_parent_name spec) addr) (sto_next (ts_store s))
      \<lparr>ro_tx_queue = \<lparr>tq_inner = q, tq_notify = q, tq_stats = sto_next (ts_store s)\<rparr>,
       ro_identity = tss_identity spec, ro_endpoint_name = tss_parent_name spec\<rparr>"
  have sent: "snd (send_event ev (ts_event_tx s))" "contents (fst (send_event ev (ts_event_tx s))) = contents (ts_event_tx s) @ [ev]"
    using rel by (simp_all add: reliable_events_def)
  have s': "ts_event_tx ?s' = fst (send_event ev (ts_event_tx s))" "client_ids ?s' = client_ids s @ [c]"
    "sto_next (ts_store ?s') = Suc q" "ida_next (ts_alloc ?s') = c + 1"
    using sent(1)
    by (simp_all add: accept_one_client_def alloc_id_def alloc_stats_def tx_new_def Let_def case_prod_unfold
        client_ids_def c_def q_def ev_def)
  have fresh: "c \<notin> ids" using m(1,3) assms(3) of_nat_fresh [of m] by (auto simp: c_def m(2))
  have "q \<notin> queues" using ok by (auto simp: tcps_ok_def l q_def)
  with fresh have "life_step ev l = Some (insert c ids, insert q queues, insert c alive)" by (simp add: ev_def l)
  with sent(2) s'(1) have "tcps_sends contents l (insert c ids, insert q queues, insert c alive) s ?s'"
    by (intro tcps_sends_one) simp_all
  moreover have "\<exists>m' \<le> Suc k. ida_next (ts_alloc ?s') = of_nat m' \<and> insert c ids \<subseteq> of_nat ` {..<m'}"
    using m by (intro exI [of _ "Suc m"]) (auto simp: s' c_def m(2))
  with ok fresh have "tcps_ok (Suc k) (insert c ids, insert q queues, insert c alive) ?s'"
    by (auto simp: tcps_ok_def l s' q_def)
  ultimately show ?thesis by blast
qed

lemma map_nth_same: "(map g xs)[n := g (xs ! n)] = map g xs"
  by (metis list_update_id map_update)

lemma drop_one:
  assumes "distinct xs" and "n < length xs"
  shows "set (take n xs @ drop (Suc n) xs) = set xs - {xs ! n}" and "distinct (take n xs @ drop (Suc n) xs)"
proof -
  have xs: "xs = take n xs @ xs ! n # drop (Suc n) xs" using assms(2) by (rule id_take_nth_drop)
  with assms(1) have d: "distinct (take n xs @ xs ! n # drop (Suc n) xs)" by simp
  then show "distinct (take n xs @ drop (Suc n) xs)" by simp
  have "set xs = insert (xs ! n) (set (take n xs @ drop (Suc n) xs))" by (subst xs) simp
  with d show "set (take n xs @ drop (Suc n) xs) = set xs - {xs ! n}" by auto
qed

lemma client_round_ok:
  assumes rel: "reliable_events send_event contents" and ok: "tcps_ok k l s"
    and run: "client_round tbl send aq send_event spec n i s = Some s'"
  shows "\<exists>l'. tcps_ok k l' s' \<and> tcps_sends contents l l' s s'"
proof (cases "length (ts_children s) \<le> n")
  case True
  with run have "s' = s" by (simp add: client_round_def)
  with ok tcps_sends_none [of s' s contents l] show ?thesis by blast
next
  case False
  obtain ids queues alive where l: "l = (ids, queues, alive)" by (cases l)
  define child where "child = ts_children s ! n"
  define ctx where "ctx = \<lparr>sc_endpoint_id = tc_id child, sc_stats = tc_stats child, sc_filters = if_filters (tss_identity spec)\<rparr>"
  from run False obtain se out where r: "session_round tbl send aq ctx (tc_queue child) i (child_session child s) = Some (se, out)"
    by (auto simp: client_round_def child_def [symmetric] ctx_def [symmetric] Let_def split: option.splits)
  have nx: "sto_next (se_store se) = sto_next (ts_store s)" using session_round_next [OF r] by (simp add: child_session_def)
  note rn = run [unfolded client_round_def, folded child_def, unfolded Let_def, folded ctx_def]
  show ?thesis
  proof (cases out)
    case None
    with rn r False have s': "ts_event_tx s' = ts_event_tx s" "client_ids s' = client_ids s" "ts_alloc s' = ts_alloc s" "ts_store s' = se_store se"
      by (auto simp: client_ids_def map_update child_def map_nth_same)
    with ok nx have "tcps_ok k l s'" by (simp add: tcps_ok_def)
    with tcps_sends_none [OF s'(1)] show ?thesis by blast
  next
    case (Some outcome)
    with rn r False obtain st d where d: "drain_and_discard aq (tc_queue child) (se_store se) = Some (st, d)"
      and s': "s' = s\<lparr>ts_frame_tx := se_chan se, ts_store := st,
          ts_event_tx := fst (send_event (PeerRemoved (tss_parent_id spec) (tc_id child) (removal_reason outcome)) (ts_event_tx s)),
          ts_children := take n (ts_children s) @ drop (Suc n) (ts_children s), ts_finished := Suc (ts_finished s)\<rparr>"
      by (auto split: option.splits)
    have n: "n < length (client_ids s)" "client_ids s ! n = tc_id child" using False by (simp_all add: client_ids_def child_def)
    have ids': "client_ids s' = take n (client_ids s) @ drop (Suc n) (client_ids s)"
      by (simp add: s' client_ids_def take_map drop_map)
    have dist: "distinct (client_ids s)" and alive: "alive = set (client_ids s)" using ok by (auto simp: tcps_ok_def l)
    note rem = drop_one [OF dist n(1)]
    have "life_step (PeerRemoved (tss_parent_id spec) (tc_id child) (removal_reason outcome)) l = Some (ids, queues, alive - {tc_id child})"
      using n alive nth_mem [OF n(1)] by (simp add: l)
    moreover have "contents (ts_event_tx s') = contents (ts_event_tx s) @ [PeerRemoved (tss_parent_id spec) (tc_id child) (removal_reason outcome)]"
      using rel by (simp add: s' reliable_events_def)
    ultimately have "tcps_sends contents l (ids, queues, alive - {tc_id child}) s s'" by (rule tcps_sends_one [rotated])
    moreover have "tcps_ok k (ids, queues, alive - {tc_id child}) s'"
      using ok rem alive n(2) nx drain_next [OF d] unfolding tcps_ok_def ids' by (auto simp: l s')
    ultimately show ?thesis by blast
  qed
qed

fun step_cost :: "tcps_input \<Rightarrow> nat" where
  "step_cost (Accept_Round i) = ai_other_ids i + 1"
| "step_cost (Client_Round n i) = 0"

lemma tcps_step_ok:
  assumes rel: "reliable_events send_event contents" and ok: "tcps_ok k l s" and le: "k + step_cost i \<le> 2 ^ 64"
    and run: "tcps_step tbl send aq send_event spec cancel i s = Some s'"
  shows "\<exists>l'. tcps_ok (k + step_cost i) l' s' \<and> tcps_sends contents l l' s s'"
proof (cases i)
  case (Client_Round n si)
  with client_round_ok [OF rel ok] run show ?thesis by simp
next
  case (Accept_Round ai)
  define s1 where "s1 = reap_children (s\<lparr>ts_alloc := snd (alloc_ids (ai_other_ids ai) (ts_alloc s))\<rparr>)"
  define k1 where "k1 = k + ai_other_ids ai"
  have ok1: "tcps_ok k1 l s1" unfolding s1_def k1_def by (rule tcps_ok_other [OF ok])
  have ev: "ts_event_tx s1 = ts_event_tx s" by (simp add: s1_def reap_children_def)
  have k: "k + step_cost i = Suc k1" "k1 < 2 ^ 64" using le by (simp_all add: k1_def Accept_Round)
  consider "s' = s" | "s' = s1" | "s' = s1\<lparr>ts_accepting := False\<rparr>" | addr where "s' = accept_one_client aq send_event spec addr s1"
    using run by (auto simp: Accept_Round accept_round_def s1_def [symmetric] Let_def split: if_splits option.splits accept_result.splits)
  then show ?thesis
  proof cases
    case 1
    with tcps_ok_mono [OF ok, of "Suc k1"] tcps_sends_none [of s' s contents l] show ?thesis by (intro exI [of _ l]) (simp add: k(1) k1_def)
  next
    case 2
    with tcps_ok_mono [OF ok1, of "Suc k1"] tcps_sends_none [of s' s contents l] ev show ?thesis by (intro exI [of _ l]) (simp add: k(1))
  next
    case 3
    with tcps_ok_mono [OF ok1, of "Suc k1"] tcps_sends_none [of s' s contents l] ev show ?thesis by (intro exI [of _ l]) (simp add: k(1))
  next
    case 4
    with accept_ok [OF rel ok1 k(2), of aq spec addr] ev show ?thesis by (simp add: k(1) tcps_sends_def)
  qed
qed

interpretation tcps: peer_listener "tcps_step tbl send aq send_event spec cancel"
  "\<lambda>s. contents (ts_event_tx s)" step_cost "2 ^ 64"
  "\<lambda>k l s. reliable_events send_event contents \<and> tcps_ok k l s"
  for tbl send aq send_event spec cancel contents
proof
  fix k l s i s'
  assume "reliable_events send_event contents \<and> tcps_ok k l s" and "k + step_cost i \<le> 2 ^ 64"
    and "tcps_step tbl send aq send_event spec cancel i s = Some s'"
  with tcps_step_ok [of send_event contents k l s i tbl send aq spec cancel s'] show
    "\<exists>evs l'. contents (ts_event_tx s') = contents (ts_event_tx s) @ evs \<and> life_run evs l = Some l'
      \<and> reliable_events send_event contents \<and> tcps_ok (k + step_cost i) l' s'"
    unfolding tcps_sends_def by blast
qed

text \<open>
  C35. A TCP listener keeps the registry of the router exact. Let the router be in a reachable state
  with the endpoints \<^verbatim>\<open>base\<close> registered, and let it handle the events of a run of the accept loop and
  its clients' tasks, however they interleave, in the order sent: it passes through reachable states
  only, so no identifier and no queue is announced twice and no client is removed twice, and at
  the end exactly \<^verbatim>\<open>base\<close> and the clients whose tasks are running are registered. In particular
  nothing but \<^verbatim>\<open>base\<close> is left once the accept loop is over.
\<close>

theorem tcps_registry_exact:
  assumes "reliable_events send_event contents" and "contents ev0 = []"
    and "run_accept_loop tbl send aq send_event spec cancel is (tcps_new alloc st ch ev0) = Some s"
    and "ida_next alloc = of_nat k" and "base \<subseteq> of_nat ` {..<k}" and "queues \<subseteq> {..<sto_next st}"
    and "k + sum_list (map step_cost is) \<le> 2 ^ 64"
    and "router_reach env r" and "fst ` set (r_routing r) = base" and "set (collect_of endpoint_queue (r_routing r)) \<subseteq> queues"
  shows "router_reach env (fold (handle_event env) (contents (ts_event_tx s)) r)
    \<and> fst ` set (r_routing (fold (handle_event env) (contents (ts_event_tx s)) r)) = base \<union> set (client_ids s)
    \<and> distinct (client_ids s)
    \<and> (accept_loop_over s \<longrightarrow> fst ` set (r_routing (fold (handle_event env) (contents (ts_event_tx s)) r)) = base)"
proof -
  let ?s0 = "tcps_new alloc st ch ev0\<lparr>ts_children := [], ts_finished := 0, ts_accepting := True\<rparr>" and ?l = "(base, queues, {}) :: life"
  have start: "tcps_ok k ?l ?s0" using assms(4,5,6) by (auto simp: tcps_ok_def tcps_new_def client_ids_def)
  from tcps.steps_life [OF conjI [OF assms(1) start] assms(7) assms(3) [unfolded run_accept_loop_def]] assms(2)
  obtain ids' queues' alive' k' where
    l': "life_run (contents (ts_event_tx s)) ?l = Some (ids', queues', alive')" "tcps_ok k' (ids', queues', alive') s"
    by (auto simp: tcps_new_def)
  have "registered base ?l r" using assms(9,10) by (simp add: registered_def)
  from life_run_registered [OF this l'(1) assms(8)] l'(2) show ?thesis
    by (auto simp: registered_def tcps_ok_def accept_loop_over_def client_ids_def)
qed

end
