(* ===== verification/Tcp_Server_Correct.thy ===== *)
theory Tcp_Server_Correct
  imports Tcp_Server
begin

text \<open>
  The clients of a TCP listener do not disturb each other: however their tasks interleave, the
  frames the router gets under a client's identifier are exactly those of that client's bytes.
\<close>

section \<open>One round of a session\<close>

text \<open>The framing state of a session that has read \<^term>\<open>d\<close>.\<close>

definition framed :: "msg_table \<Rightarrow> bytes \<Rightarrow> framer \<Rightarrow> bool" where
  "framed tbl d fr \<longleftrightarrow> (case scan_all tbl d of (fs, n, k, r) \<Rightarrow> fr = bump framer_new n k r)"

definition frames_in :: "msg_table \<Rightarrow> bytes \<Rightarrow> (parsed_header \<times> bytes) list" where
  "frames_in tbl d = fst (scan_all tbl d)"

lemma framed_Nil [simp]: "framed tbl [] framer_new" "frames_in tbl [] = []"
  by (simp_all add: framed_def frames_in_def scan_all.simps bump_def framer_new_def)

lemma framed_short: "framed tbl d fr \<Longrightarrow> length (fr_buf fr) < 280 \<and> length (fr_buf fr) \<le> length d"
proof -
  assume "framed tbl d fr"
  then obtain fs n k r where sc: "scan_all tbl d = (fs, n, k, r)" and "fr = bump framer_new n k r" by (auto simp: framed_def split: prod.splits)
  with classify_NeedMore_short [OF scan_all_rest [OF sc]] scan_all_length [OF sc] show ?thesis by (simp add: bump_def)
qed

lemma session_read_frames:
  assumes ok: "reliable send contents" and fr: "framed tbl d (se_framer s)" and len: "length d + length c < 2 ^ 64"
  shows "\<exists>s' gs. forward_inbound_frames tbl send ctx now (s\<lparr>se_framer := framer_extend (se_framer s) c\<rparr>) = Some (s', True)
    \<and> contents (se_chan s') = contents (se_chan s) @ forwarded ctx gs
    \<and> frames_in tbl (d @ c) = frames_in tbl d @ gs \<and> framed tbl (d @ c) (se_framer s')"
proof -
  obtain fs n k r where sc: "scan_all tbl d = (fs, n, k, r)" by (cases "scan_all tbl d")
  obtain gs m j q where sc2: "scan_all tbl (r @ c) = (gs, m, j, q)" by (cases "scan_all tbl (r @ c)")
  have sc3: "scan_all tbl (d @ c) = (fs @ gs, n + m, k + j, q)" using scan_all_append [OF sc] sc2 by simp
  let ?s = "s\<lparr>se_framer := framer_extend (se_framer s) c\<rparr>"
  have f: "se_framer s = bump framer_new n k r" using fr sc by (simp add: framed_def)
  have "length r \<le> length d" using scan_all_length [OF sc] by simp
  then have "drain_frames tbl (se_framer ?s) = Some (gs, bump framer_new (n + m) (k + j) q)"
    using drain_frames_scan_all [of "se_framer ?s" tbl] len f sc2 by (simp add: bump_extend)
  from forward_drains [OF ok this, of ctx now] sc sc3 show ?thesis
    by (auto simp: ingested_def framed_def frames_in_def)
qed

lemma session_round_frames:
  assumes ok: "reliable send contents" and fr: "framed tbl d (se_framer s)" and len: "length d + length (read_bytes i) < 2 ^ 64"
  shows "\<exists>s' out gs. session_round tbl send aq ctx tq i s = Some (s', out) \<and> contents (se_chan s') = contents (se_chan s) @ forwarded ctx gs
    \<and> (out = None \<longrightarrow> frames_in tbl (d @ read_bytes i) = frames_in tbl d @ gs \<and> framed tbl (d @ read_bytes i) (se_framer s'))"
proof (cases "sn_cancelled i \<or> (\<nexists>data. sn_read i = Some (Read_Ok data) \<and> data \<noteq> [])")
  case True
  have none: "forwarded ctx [] = []" by (simp add: forwarded_def)
  from True fr show ?thesis
    by (auto simp: session_round_def handle_read_result_def write_outbound_frame_def Let_def case_prod_unfold se_upd_def none read_bytes_def
        intro!: exI [of _ "[]"] split: option.split read_result.split prod.split)
next
  case False
  then obtain data where d: "sn_read i = Some (Read_Ok data)" "data \<noteq> []" "\<not> sn_cancelled i" by blast
  define s1 where "s1 = s\<lparr>se_store := push_all aq tq (sn_pushed i) (se_store s)\<rparr>"
  have fr1: "framed tbl d (se_framer s1)" "contents (se_chan s1) = contents (se_chan s)" using fr by (simp_all add: s1_def)
  from session_read_frames [OF ok fr1(1), of data ctx "sn_now i"] len d(1) fr1(2) obtain s' gs where
    f: "forward_inbound_frames tbl send ctx (sn_now i) (s1\<lparr>se_framer := framer_extend (se_framer s1) data\<rparr>) = Some (s', True)"
      "contents (se_chan s') = contents (se_chan s) @ forwarded ctx gs"
      "frames_in tbl (d @ data) = frames_in tbl d @ gs" "framed tbl (d @ data) (se_framer s')" by (auto simp: read_bytes_def)
  then show ?thesis using d
    by (intro exI [of _ "(se_upd ctx (\<lambda>_. snd (counters_sync (se_counters s') (se_framer s') (sto_stats (se_store s') (sc_stats ctx)))) s')
          \<lparr>se_counters := fst (counters_sync (se_counters s') (se_framer s') (sto_stats (se_store s') (sc_stats ctx)))\<rparr>"]
        exI [of _ None] exI [of _ gs])
      (simp add: session_round_def handle_read_result_def s1_def [symmetric] Let_def case_prod_unfold se_upd_def read_bytes_def)
qed

section \<open>The clients of a listener\<close>

definition sent_by :: "endpoint_id \<Rightarrow> router_frame list \<Rightarrow> router_frame list" where
  "sent_by i fs = filter (\<lambda>f. rf_endpoint_id f = i) fs"

definition child_ctx :: "tcp_server_spec \<Rightarrow> tcp_child \<Rightarrow> session_ctx" where
  "child_ctx spec c = \<lparr>sc_endpoint_id = tc_id c, sc_stats = tc_stats c, sc_filters = if_filters (tss_identity spec)\<rparr>"

lemma sent_by_forwarded:
  "sent_by i (forwarded ctx fs) = (if sc_endpoint_id ctx = i then forwarded ctx fs else [])"
  by (induction fs) (auto simp: sent_by_def forwarded_def)

lemma child_ctx_simps [simp]:
  "sc_endpoint_id (child_ctx spec c) = tc_id c"
  "child_ctx spec (c\<lparr>tc_framer := fr, tc_counters := fc, tc_tracker := tr, tc_written := w, tc_read := d\<rparr>) = child_ctx spec c"
  by (simp_all add: child_ctx_def)

lemma sent_by_append [simp]: "sent_by i (xs @ ys) = sent_by i xs @ sent_by i ys"
  by (simp add: sent_by_def)

definition isolated :: "msg_table \<Rightarrow> tcp_server_spec \<Rightarrow> router_frame list \<Rightarrow> tcp_child \<Rightarrow> bool" where
  "isolated tbl spec frames c \<longleftrightarrow> framed tbl (tc_read c) (tc_framer c)
     \<and> sent_by (tc_id c) frames = forwarded (child_ctx spec c) (frames_in tbl (tc_read c))"

text \<open>
  \<^term>\<open>k\<close> bounds the identifiers taken so far and \<^term>\<open>b\<close> the bytes a client has read. The frames on
  the channel carry identifiers the allocator has given out.
\<close>

definition clients_ok :: "msg_table \<Rightarrow> tcp_server_spec \<Rightarrow> ('c \<Rightarrow> router_frame list) \<Rightarrow> nat \<Rightarrow> nat \<Rightarrow> ('q, 'c, 'e) tcp_server \<Rightarrow> bool" where
  "clients_ok tbl spec contents k b s \<longleftrightarrow>
     (\<exists>m \<le> k. ida_next (ts_alloc s) = of_nat m
        \<and> rf_endpoint_id ` set (contents (ts_frame_tx s)) \<union> set (client_ids s) \<subseteq> of_nat ` {..<m})
     \<and> distinct (client_ids s)
     \<and> (\<forall>c \<in> set (ts_children s). isolated tbl spec (contents (ts_frame_tx s)) c \<and> length (tc_read c) \<le> b)"

lemma isolated_more:
  assumes "isolated tbl spec frames c" and "sc_endpoint_id ctx \<noteq> tc_id c"
  shows "isolated tbl spec (frames @ forwarded ctx gs) c"
  using assms by (simp add: isolated_def sent_by_forwarded)

lemma forwarded_ids: "rf_endpoint_id ` set (forwarded ctx gs) \<subseteq> {sc_endpoint_id ctx}"
  by (auto simp: forwarded_def)

lemma clients_ok_mono: "clients_ok tbl spec contents k b s \<Longrightarrow> k \<le> k' \<Longrightarrow> b \<le> b' \<Longrightarrow> clients_ok tbl spec contents k' b' s"
  unfolding clients_ok_def by (meson order_trans)

text \<open>A round of one client, seen from the others.\<close>

lemma other_clients:
  assumes ok: "clients_ok tbl spec contents k b s" and n: "n < length (ts_children s)"
    and c: "c \<in> set (take n (ts_children s) @ drop (Suc n) (ts_children s))"
  shows "isolated tbl spec (contents (ts_frame_tx s) @ forwarded (child_ctx spec (ts_children s ! n)) gs) c \<and> length (tc_read c) \<le> b"
proof -
  have "distinct (client_ids s)" "n < length (client_ids s)" using ok n by (simp_all add: clients_ok_def client_ids_def)
  from drop_one(1) [OF this] have "tc_id ` set (take n (ts_children s) @ drop (Suc n) (ts_children s)) = set (client_ids s) - {tc_id (ts_children s ! n)}"
    using n by (simp add: client_ids_def image_Un take_map drop_map flip: set_map)
  with c have "tc_id c \<noteq> tc_id (ts_children s ! n)" by blast
  moreover have "c \<in> set (ts_children s)" using c by (auto dest: in_set_takeD in_set_dropD)
  ultimately show ?thesis using ok by (auto simp: clients_ok_def child_ctx_def intro!: isolated_more)
qed

lemma client_round_clients:
  assumes laws: "aq_laws aq items capq" and rel: "reliable send contents" and ok: "clients_ok tbl spec contents k b s"
    and len: "b + length (read_bytes i) < 2 ^ 64"
  shows "\<exists>s'. client_round tbl send aq send_event spec n i s = Some s' \<and> clients_ok tbl spec contents k (b + length (read_bytes i)) s'"
proof (cases "length (ts_children s) \<le> n")
  case True
  with clients_ok_mono [OF ok, of k] show ?thesis by (simp add: client_round_def)
next
  case False
  then have n: "n < length (ts_children s)" by simp
  define child where "child = ts_children s ! n"
  define rest where "rest = take n (ts_children s) @ drop (Suc n) (ts_children s)"
  have child: "child \<in> set (ts_children s)" using n by (simp add: child_def)
  then have iso: "isolated tbl spec (contents (ts_frame_tx s)) child" "length (tc_read child) \<le> b" using ok by (auto simp: clients_ok_def)
  have ctx: "\<lparr>sc_endpoint_id = tc_id child, sc_stats = tc_stats child, sc_filters = if_filters (tss_identity spec)\<rparr> = child_ctx spec child"
    by (simp add: child_ctx_def)
  from session_round_frames [OF rel, of tbl "tc_read child" "child_session child s" i aq "child_ctx spec child" "tc_queue child"] iso len
  obtain se out gs where r: "session_round tbl send aq (child_ctx spec child) (tc_queue child) i (child_session child s) = Some (se, out)"
    "contents (se_chan se) = contents (ts_frame_tx s) @ forwarded (child_ctx spec child) gs"
    "out = None \<longrightarrow> frames_in tbl (tc_read child @ read_bytes i) = frames_in tbl (tc_read child) @ gs
       \<and> framed tbl (tc_read child @ read_bytes i) (se_framer se)"
    by (auto simp: isolated_def child_session_def)
  have others: "isolated tbl spec (contents (se_chan se)) c \<and> length (tc_read c) \<le> b + length (read_bytes i)" if "c \<in> set rest" for c
    using other_clients [OF ok n that [unfolded rest_def], of gs] by (simp add: r(2) child_def)
  have ids: "rf_endpoint_id ` set (contents (se_chan se)) \<subseteq> rf_endpoint_id ` set (contents (ts_frame_tx s)) \<union> set (client_ids s)"
    using forwarded_ids [of "child_ctx spec child" gs] child by (auto simp: r(2) child_ctx_def client_ids_def)
  have keep: "clients_ok tbl spec contents k (b + length (read_bytes i)) s'"
    if "ts_alloc s' = ts_alloc s" "ts_frame_tx s' = se_chan se" "distinct (client_ids s')" "set (client_ids s') \<subseteq> set (client_ids s)"
      "\<forall>c \<in> set (ts_children s'). isolated tbl spec (contents (se_chan se)) c \<and> length (tc_read c) \<le> b + length (read_bytes i)" for s'
  proof -
    from ok obtain m where m: "m \<le> k" "ida_next (ts_alloc s) = of_nat m"
      "rf_endpoint_id ` set (contents (ts_frame_tx s)) \<union> set (client_ids s) \<subseteq> of_nat ` {..<m}" by (auto simp: clients_ok_def)
    have "rf_endpoint_id ` set (contents (se_chan se)) \<subseteq> of_nat ` {..<m}" by (rule order_trans [OF ids m(3)])
    moreover have "set (client_ids s') \<subseteq> of_nat ` {..<m}" using that(4) m(3) by blast
    ultimately show ?thesis using m(1,2) that unfolding clients_ok_def by (intro conjI exI [of _ m]) simp_all
  qed
  show ?thesis
  proof (cases out)
    case None
    define child' where "child' = child\<lparr>tc_framer := se_framer se, tc_counters := se_counters se, tc_tracker := se_tracker se,
      tc_written := se_written se, tc_read := tc_read child @ read_bytes i\<rparr>"
    define s' where "s' = s\<lparr>ts_frame_tx := se_chan se, ts_store := se_store se, ts_children := (ts_children s)[n := child']\<rparr>"
    have run: "client_round tbl send aq send_event spec n i s = Some s'"
      using n None r(1) by (simp add: client_round_def child_def [symmetric] ctx Let_def s'_def child'_def)
    have "isolated tbl spec (contents (se_chan se)) child'"
      using iso(1) r(3) None by (simp add: isolated_def child'_def r(2) sent_by_forwarded)
    moreover have "length (tc_read child') \<le> b + length (read_bytes i)" using iso(2) by (simp add: child'_def)
    moreover have "set (ts_children s') = insert child' (set rest)" using n by (auto simp: s'_def rest_def upd_conv_take_nth_drop)
    moreover have "client_ids s' = client_ids s"
      using map_nth_same [of tc_id "ts_children s" n] by (simp add: s'_def client_ids_def map_update child'_def child_def)
    ultimately have "clients_ok tbl spec contents k (b + length (read_bytes i)) s'"
      using others ok by (intro keep) (auto simp: s'_def clients_ok_def)
    with run show ?thesis by blast
  next
    case (Some outcome)
    from drain_and_discard_total [OF laws, of "tc_queue child" "se_store se"] obtain st d where
      d: "drain_and_discard aq (tc_queue child) (se_store se) = Some (st, d)" by blast
    define s' where "s' = s\<lparr>ts_frame_tx := se_chan se, ts_store := st,
          ts_event_tx := fst (send_event (PeerRemoved (tss_parent_id spec) (tc_id child) (removal_reason outcome)) (ts_event_tx s)),
          ts_children := rest, ts_finished := Suc (ts_finished s)\<rparr>"
    have run: "client_round tbl send aq send_event spec n i s = Some s'"
      using n Some r(1) d by (simp add: client_round_def child_def [symmetric] ctx Let_def s'_def rest_def)
    have "distinct (client_ids s)" "n < length (client_ids s)" using ok n by (simp_all add: clients_ok_def client_ids_def)
    from drop_one [OF this] have "distinct (client_ids s')" "set (client_ids s') \<subseteq> set (client_ids s)"
      by (auto simp: s'_def rest_def client_ids_def take_map drop_map)
    then have "clients_ok tbl spec contents k (b + length (read_bytes i)) s'"
      using others by (intro keep) (auto simp: s'_def)
    with run show ?thesis by blast
  qed
qed

lemma accept_clients:
  assumes ok: "clients_ok tbl spec contents k b s" and "k < 2 ^ 64"
  shows "clients_ok tbl spec contents (Suc k) b (accept_one_client aq send_event spec addr s)"
proof -
  from ok obtain m where m: "m \<le> k" "ida_next (ts_alloc s) = of_nat m"
    "rf_endpoint_id ` set (contents (ts_frame_tx s)) \<union> set (client_ids s) \<subseteq> of_nat ` {..<m}" by (auto simp: clients_ok_def)
  have fresh: "of_nat m \<notin> rf_endpoint_id ` set (contents (ts_frame_tx s)) \<union> set (client_ids s)"
    using m(1,3) assms(2) of_nat_fresh [of m] by auto
  let ?s' = "accept_one_client aq send_event spec addr s"
  have s': "ts_frame_tx ?s' = ts_frame_tx s" "ida_next (ts_alloc ?s') = of_nat (Suc m)"
    by (simp_all add: accept_one_client_def alloc_id_def m(2) Let_def case_prod_unfold)
  have "ts_children ?s' = ts_children s \<or> (\<exists>c. ts_children ?s' = ts_children s @ [c] \<and> tc_id c = of_nat m \<and> tc_read c = [] \<and> tc_framer c = framer_new)"
    by (auto simp: accept_one_client_def alloc_id_def m(2) Let_def case_prod_unfold)
  moreover have new: "isolated tbl spec (contents (ts_frame_tx s)) c" if "tc_id c = of_nat m" "tc_read c = []" "tc_framer c = framer_new" for c
  proof -
    have "\<forall>f \<in> set (contents (ts_frame_tx s)). rf_endpoint_id f \<noteq> of_nat m" using fresh by (metis UnI1 imageI)
    with that show ?thesis by (simp add: isolated_def sent_by_def filter_empty_conv forwarded_def)
  qed
  have "{..<m} \<subseteq> {..<Suc m}" by auto
  then have up: "of_nat ` {..<m} \<subseteq> (of_nat ` {..<Suc m} :: u64 set)" by (rule image_mono)
  have "\<exists>m' \<le> Suc k. ida_next (ts_alloc ?s') = of_nat m'
      \<and> rf_endpoint_id ` set (contents (ts_frame_tx ?s')) \<union> set (client_ids s @ [of_nat m]) \<subseteq> of_nat ` {..<m'}"
    using m(1,3) up s' by (intro exI [of _ "Suc m"]) auto
  with ok fresh new s'(1) calculation show ?thesis
    by (auto simp: clients_ok_def client_ids_def)
qed

fun step_bytes :: "tcps_input \<Rightarrow> nat" where
  "step_bytes (Accept_Round i) = 0"
| "step_bytes (Client_Round n i) = length (read_bytes i)"

lemma clients_ok_same:
  assumes "clients_ok tbl spec contents k b s" and "ida_next (ts_alloc s') = ida_next (ts_alloc s) + of_nat n"
    and "ts_frame_tx s' = ts_frame_tx s" and "ts_children s' = ts_children s"
  shows "clients_ok tbl spec contents (k + n) b s'"
proof -
  from assms(1) obtain m where m: "m \<le> k" "ida_next (ts_alloc s) = of_nat m"
    "rf_endpoint_id ` set (contents (ts_frame_tx s)) \<union> set (client_ids s) \<subseteq> of_nat ` {..<m}" by (auto simp: clients_ok_def)
  have "of_nat ` {..<m} \<subseteq> (of_nat ` {..<m + n} :: u64 set)" by (rule image_mono) auto
  with m assms(2) have "\<exists>m' \<le> k + n. ida_next (ts_alloc s') = of_nat m'
      \<and> rf_endpoint_id ` set (contents (ts_frame_tx s)) \<union> set (client_ids s) \<subseteq> of_nat ` {..<m'}"
    by (intro exI [of _ "m + n"]) auto
  with assms show ?thesis by (simp add: clients_ok_def client_ids_def)
qed

lemma tcps_step_clients:
  assumes "aq_laws aq items capq" and "reliable send contents" and ok: "clients_ok tbl spec contents k b s"
    and k: "k + step_cost i \<le> 2 ^ 64" and b: "b + step_bytes i < 2 ^ 64"
  shows "\<exists>s'. tcps_step tbl send aq send_event spec cancel i s = Some s' \<and> clients_ok tbl spec contents (k + step_cost i) (b + step_bytes i) s'"
proof (cases i)
  case (Client_Round n si)
  with client_round_clients [OF assms(1,2) ok] b show ?thesis by simp
next
  case (Accept_Round ai)
  define s1 where "s1 = reap_children (s\<lparr>ts_alloc := snd (alloc_ids (ai_other_ids ai) (ts_alloc s))\<rparr>)"
  have ok1: "clients_ok tbl spec contents (k + ai_other_ids ai) b s1"
    by (rule clients_ok_same [OF ok]) (simp_all add: s1_def reap_children_def alloc_ids_next)
  have stop: "clients_ok tbl spec contents (k + ai_other_ids ai) b (s1\<lparr>ts_accepting := False\<rparr>)"
    using clients_ok_same [OF ok1, of "s1\<lparr>ts_accepting := False\<rparr>" 0] by simp
  have "k + ai_other_ids ai < 2 ^ 64" using k by (simp add: Accept_Round)
  note acc = accept_clients [OF ok1 this, of aq send_event]
  show ?thesis
    using clients_ok_mono [OF ok, of "Suc (k + ai_other_ids ai)" b] clients_ok_mono [OF ok1, of "Suc (k + ai_other_ids ai)" b]
      clients_ok_mono [OF stop, of "Suc (k + ai_other_ids ai)" b] acc
    by (auto simp: Accept_Round accept_round_def s1_def [symmetric] Let_def split: option.split accept_result.split)
qed

lemma tcps_steps_clients:
  assumes "aq_laws aq items capq" and "reliable send contents"
  shows "clients_ok tbl spec contents k b s \<Longrightarrow> k + sum_list (map step_cost is) \<le> 2 ^ 64 \<Longrightarrow> b + sum_list (map step_bytes is) < 2 ^ 64 \<Longrightarrow>
    \<exists>s' k' b'. run_steps (tcps_step tbl send aq send_event spec cancel) is s = Some s' \<and> clients_ok tbl spec contents k' b' s'"
proof (induction "is" arbitrary: k b s)
  case (Cons i "is")
  from tcps_step_clients [OF assms Cons.prems(1), of i send_event cancel] Cons.prems(2,3) obtain s1 where
    "tcps_step tbl send aq send_event spec cancel i s = Some s1" "clients_ok tbl spec contents (k + step_cost i) (b + step_bytes i) s1" by auto
  with Cons.IH [OF this(2)] Cons.prems(2,3) show ?case by (simp add: add.assoc)
qed auto

text \<open>
  C36. The clients of a TCP listener do not disturb each other. However the rounds of the accept loop
  and of the clients' sessions interleave, no task panics, and at any time the frames on the channel
  to the router under the identifier of a running client are exactly the valid frames of the bytes
  that client has sent, in order, that pass the listener's inbound filters.
\<close>

theorem tcps_clients_isolated:
  assumes "aq_laws aq items capq" and "reliable send contents"
    and "ida_next alloc = of_nat k" and "rf_endpoint_id ` set (contents ch) \<subseteq> of_nat ` {..<k}"
    and "k + sum_list (map step_cost is) \<le> 2 ^ 64" and "sum_list (map step_bytes is) < 2 ^ 64"
  shows "\<exists>s. run_accept_loop tbl send aq send_event spec cancel is (tcps_new alloc st ch ev0) = Some s
    \<and> (\<forall>c \<in> set (ts_children s).
         filter (\<lambda>f. rf_endpoint_id f = tc_id c) (contents (ts_frame_tx s)) =
         forwarded (child_ctx spec c) (fst (scan_all tbl (tc_read c))))"
proof -
  let ?s0 = "tcps_new alloc st ch ev0\<lparr>ts_children := [], ts_finished := 0, ts_accepting := True\<rparr>"
  have "clients_ok tbl spec contents k 0 ?s0"
    using assms(3,4) by (auto simp: clients_ok_def tcps_new_def client_ids_def)
  from tcps_steps_clients [OF assms(1,2) this assms(5)] assms(6) show ?thesis
    unfolding run_accept_loop_def clients_ok_def isolated_def sent_by_def frames_in_def by fastforce
qed

definition demo_tcps_spec :: tcp_server_spec where
  "demo_tcps_spec = tcp_server_from_endpoint \<lparr>tse_bind_addr = SocketV4 (Ipv4 0 0 0 0) 5760, tse_identity = identity_default\<rparr> 0 ''gcs''"

definition demo_read :: "bytes \<Rightarrow> session_input" where
  "demo_read data = \<lparr>sn_cancelled = False, sn_read = Some (Read_Ok data), sn_write_ok = True, sn_now = 0, sn_pushed = []\<rparr>"

definition demo_accept :: "u16 \<Rightarrow> tcps_input" where
  "demo_accept port = Accept_Round \<lparr>ai_now = 0, ai_accept = Some (Accepted (SocketV4 (Ipv4 10 0 0 1) port)), ai_other_ids = 0\<rparr>"

definition demo_tcps_steps :: "tcps_input list" where
  "demo_tcps_steps =
     [demo_accept 1000, demo_accept 1001, Client_Round 0 (demo_read [0xFE, 0, 7, 1]), Client_Round 1 (demo_read [0xFE, 0]),
      Client_Round 0 (demo_read [1, 0, 3, 4]), Client_Round 1 (demo_read [])]"

definition demo_tcps_run :: "(nat \<times> bytes list, router_frame list, endpoint_event list) tcp_server may_panic" where
  "demo_tcps_run = run_accept_loop [] (\<lambda>f c. (c @ [f], True)) list_queue (\<lambda>ev e. (e @ [ev], True)) demo_tcps_spec None
     demo_tcps_steps (tcps_new \<lparr>ida_next = 1\<rparr> demo_store0 [] [])"

lemma demo_tcps_steps_small: "sum_list (map step_cost demo_tcps_steps) = 2" "sum_list (map step_bytes demo_tcps_steps) = 10"
  by (simp_all add: demo_tcps_steps_def demo_accept_def demo_read_def read_bytes_def)

theorem tcps_clients_isolated_witness:
  "\<exists>s. demo_tcps_run = Some s
    \<and> (\<forall>c \<in> set (ts_children s). filter (\<lambda>f. rf_endpoint_id f = tc_id c) (ts_frame_tx s) =
         forwarded (child_ctx demo_tcps_spec c) (fst (scan_all [] (tc_read c))))"
proof -
  have "reliable (\<lambda>f c. (c @ [f], True)) id" by (simp add: reliable_def)
  from tcps_clients_isolated [OF list_queue_laws this, of "\<lparr>ida_next = 1\<rparr>" 1 "[]" demo_tcps_steps "[]"] show ?thesis
    by (simp add: demo_tcps_run_def demo_tcps_steps_small)
qed

lemma router_new_routing: "r_routing (router_new a b c d) = []"
  by (simp add: router_new_def)

theorem tcps_registry_exact_witness:
  "\<exists>s. demo_tcps_run = Some s
    \<and> fst ` set (r_routing (fold (handle_event demo_env) (ts_event_tx s) (router_new [] 0 16 demo_store))) = set (client_ids s)"
proof -
  have rel: "reliable (\<lambda>f c :: router_frame list. (c @ [f], True)) id" by (simp add: reliable_def)
  have "clients_ok [] demo_tcps_spec id 1 0 (tcps_new \<lparr>ida_next = 1\<rparr> demo_store0 [] []\<lparr>ts_children := [], ts_finished := 0, ts_accepting := True\<rparr>)"
    by (auto simp: clients_ok_def tcps_new_def client_ids_def intro!: exI [of _ 1])
  from tcps_steps_clients [OF list_queue_laws rel this, of demo_tcps_steps "\<lambda>ev e. (e @ [ev], True)" None] obtain s where
    s: "demo_tcps_run = Some s"
    by (auto simp: demo_tcps_run_def run_accept_loop_def demo_tcps_steps_small)
  have "reliable_events (\<lambda>ev e. (e @ [ev], True)) id" by (simp add: reliable_events_def)
  then have "fst ` set (r_routing (fold (handle_event demo_env) (ts_event_tx s) (router_new [] 0 16 demo_store))) = set (client_ids s)"
    using tcps_registry_exact [OF _ _ s [unfolded demo_tcps_run_def], of id 1 "{}" "{}" demo_env "router_new [] 0 16 demo_store"]
    by (simp add: demo_tcps_steps_small reach_new router_new_routing)
  with s show ?thesis by blast
qed

end
