(* ===== verification/Endpoint_Spec.thy ===== *)
theory Endpoint_Spec
  imports Udp_Server Udp_Client Tcp_Client Tcp_Server Serial Ip_Parse
begin

text \<open>
  The endpoint grammar, \<^verbatim>\<open>src/endpoint/spec/\<close>: the endpoint kinds (\<^verbatim>\<open>endpoint_kinds.rs\<close>), the
  body of each scheme (\<^verbatim>\<open>parse.rs\<close>), the query string (\<^verbatim>\<open>query.rs\<close>) and \<^verbatim>\<open>EndpointSpec\<close> (\<^verbatim>\<open>mod.rs\<close>).
  The edit distance behind the suggestion for an unknown key is code of the \<^verbatim>\<open>strsim\<close> crate and
  a parameter.
\<close>

declare map_of_eq_Some_iff [simp del]

section \<open>Endpoint kinds\<close>

datatype endpoint_kind =
    Kind_Serial serial_endpoint
  | Kind_UdpServer udp_server_endpoint
  | Kind_UdpClient udp_client_endpoint
  | Kind_TcpServer tcp_server_endpoint
  | Kind_TcpClient tcp_client_endpoint

fun kind_scheme :: "endpoint_kind \<Rightarrow> scheme" where
  "kind_scheme (Kind_Serial _) = Scheme_Serial"
| "kind_scheme (Kind_UdpServer _) = Scheme_UdpServer"
| "kind_scheme (Kind_UdpClient _) = Scheme_UdpClient"
| "kind_scheme (Kind_TcpServer _) = Scheme_TcpServer"
| "kind_scheme (Kind_TcpClient _) = Scheme_TcpClient"

fun kind_identity :: "endpoint_kind \<Rightarrow> identity_flags" where
  "kind_identity (Kind_Serial endpoint) = sre_identity endpoint"
| "kind_identity (Kind_UdpServer endpoint) = use_identity endpoint"
| "kind_identity (Kind_UdpClient endpoint) = uce_identity endpoint"
| "kind_identity (Kind_TcpServer endpoint) = tse_identity endpoint"
| "kind_identity (Kind_TcpClient endpoint) = tce_identity endpoint"

fun default_name :: "endpoint_kind \<Rightarrow> string" where
  "default_name (Kind_Serial endpoint) =
     ''serial-'' @ sanitize_for_name (sre_path endpoint) @ ''-'' @ dec_word (sre_baud endpoint)"
| "default_name (Kind_UdpServer endpoint) =
     ''udps-'' @ sanitize_for_name (show_ip (sa_ip (use_bind_addr endpoint))) @ ''-'' @ dec_word (sa_port (use_bind_addr endpoint))"
| "default_name (Kind_UdpClient endpoint) =
     ''udpc-'' @ sanitize_for_name (uce_host endpoint) @ ''-'' @ dec_word (uce_port endpoint)"
| "default_name (Kind_TcpServer endpoint) =
     ''tcps-'' @ sanitize_for_name (show_ip (sa_ip (tse_bind_addr endpoint))) @ ''-'' @ dec_word (sa_port (tse_bind_addr endpoint))"
| "default_name (Kind_TcpClient endpoint) =
     ''tcpc-'' @ sanitize_for_name (tce_host endpoint) @ ''-'' @ dec_word (tce_port endpoint)"

record endpoint_spec =
  ep_kind :: endpoint_kind
  ep_name :: string

section \<open>Bodies\<close>

definition split_body_name_query :: "string \<Rightarrow> string \<times> string option \<times> string option" where
  "split_body_name_query rest =
     (case split_once CHR ''#'' rest of
        Some (body, after_hash) \<Rightarrow>
          (case split_once CHR ''?'' after_hash of
             Some (name, query) \<Rightarrow> (body, Some name, Some query)
           | None \<Rightarrow> (body, Some after_hash, None))
      | None \<Rightarrow>
          (case split_once CHR ''?'' rest of
             Some (body, query) \<Rightarrow> (body, None, Some query)
           | None \<Rightarrow> (rest, None, None)))"

definition SERIAL_GRAMMAR :: string where
  "SERIAL_GRAMMAR = ''expected 'serial:<path>:<baud>' or 'serial:<path>,<baud>', e.g. '' @ quoted ''serial:/dev/ttyUSB0:115200''"

definition parse_serial_body :: "string \<Rightarrow> (spec_error, string \<times> u32) res" where
  "parse_serial_body body =
     (if body = [] then Inl (MalformedBody Scheme_Serial body (''empty body ('' @ SERIAL_GRAMMAR @ '')''))
      else
        let last_colon = rfind CHR '':'' body;
            last_comma = rfind CHR '','' body;
            pos = (case (last_colon, last_comma) of
                     (Some colon, Some comma) \<Rightarrow> Some (max colon comma)
                   | (Some colon, None) \<Rightarrow> Some colon
                   | (None, Some comma) \<Rightarrow> Some comma
                   | (None, None) \<Rightarrow> None)
        in case pos of
             None \<Rightarrow>
               Inl (MalformedBody Scheme_Serial body
                 (''no ':' or ',' separator between path and baud ('' @ SERIAL_GRAMMAR @ '')''))
           | Some pos \<Rightarrow>
               let path = take pos body;
                   baud_str = drop (pos + 1) body
               in if path = [] then
                    Inl (MalformedBody Scheme_Serial body (''empty device path ('' @ SERIAL_GRAMMAR @ '')''))
                  else
                    and_then (ok_or (parse_u32 baud_str)
                      (MalformedBody Scheme_Serial body
                        (''baud '' @ quoted baud_str @ '' is not a valid u32 ('' @ SERIAL_GRAMMAR @ '')'')))
                    (\<lambda>baud.
                      if baud = 0 then
                        Inl (MalformedBody Scheme_Serial body (''baud must be > 0 ('' @ SERIAL_GRAMMAR @ '')''))
                      else Inr (path, baud)))"

fun host_port_grammar :: "scheme \<Rightarrow> string" where
  "host_port_grammar Scheme_UdpServer =
     ''expected '<ip>:<port>', e.g. '0.0.0.0:14550' or '[::]:5760' (hostnames are not resolved for listen-side endpoints)''"
| "host_port_grammar Scheme_TcpServer =
     ''expected '<ip>:<port>', e.g. '0.0.0.0:14550' or '[::]:5760' (hostnames are not resolved for listen-side endpoints)''"
| "host_port_grammar Scheme_UdpClient =
     ''expected '<host>:<port>', e.g. '192.168.1.5:14550' or '' @ quoted ''gcs.example:5760''"
| "host_port_grammar Scheme_TcpClient =
     ''expected '<host>:<port>', e.g. '192.168.1.5:14550' or '' @ quoted ''gcs.example:5760''"
| "host_port_grammar Scheme_Serial = SERIAL_GRAMMAR"

definition parse_host_port :: "string \<Rightarrow> scheme \<Rightarrow> (spec_error, string \<times> u16) res" where
  "parse_host_port body scheme =
     (let grammar = host_port_grammar scheme;
          malformed = (\<lambda>reason. MalformedBody scheme body (reason @ '' ('' @ grammar @ '')''))
      in if body = [] then Inl (malformed ''empty body'')
         else
           and_then
             (case strip_prefix_char CHR ''['' body of
                Some rest \<Rightarrow>
                  (case split_once CHR '']'' rest of
                     None \<Rightarrow> Inl (malformed ''unclosed '[' in IPv6 literal'')
                   | Some (host, after) \<Rightarrow>
                       (case strip_prefix_char CHR '':'' after of
                          None \<Rightarrow> Inl (malformed (''expected ':<port>' after '' @ quoted '']''))
                        | Some port_str \<Rightarrow> Inr (host, port_str)))
              | None \<Rightarrow>
                  (case rsplit_once CHR '':'' body of
                     None \<Rightarrow> Inl (malformed ''no ':' between host and port'')
                   | Some (host, port_str) \<Rightarrow>
                       if CHR '':'' \<in> set host then
                         Inl (malformed (''unbracketed ':' in host '' @ quoted host
                           @ ''; IPv6 literals must be bracketed, e.g. '' @ quoted ''[::1]:<port>''))
                       else Inr (host, port_str)))
             (\<lambda>(host, port_str).
                if host = [] then Inl (malformed ''empty host'')
                else
                  and_then (ok_or (parse_u16 port_str) (malformed (''port '' @ quoted port_str @ '' is not a valid u16'')))
                  (\<lambda>port. Inr (host, port))))"

definition parse_listen_addr :: "string \<Rightarrow> scheme \<Rightarrow> (spec_error, socket_addr) res" where
  "parse_listen_addr body scheme =
     and_then (parse_host_port body scheme) (\<lambda>(host, port).
       and_then (ok_or (parse_ip host)
         (MalformedBody scheme body
           (''listen host '' @ quoted host
            @ '' must be an IP literal (e.g. '0.0.0.0', '[::]', '[::1]'); hostnames are not resolved for ''
            @ scheme_as_str scheme @ '': endpoints'')))
       (\<lambda>ip. Inr (sa_new ip port)))"

section \<open>The query string\<close>

fun known_keys_for :: "scheme \<Rightarrow> string list" where
  "known_keys_for Scheme_Serial = [''flow_control'']"
| "known_keys_for Scheme_UdpServer = [''idle_secs'']"
| "known_keys_for Scheme_UdpClient = [''latch_idle_secs'']"
| "known_keys_for Scheme_TcpServer = []"
| "known_keys_for Scheme_TcpClient = []"

fun query_pairs :: "string list \<Rightarrow> string list \<Rightarrow> (spec_error, (string \<times> string) list) res" where
  "query_pairs [] seen = Inr []"
| "query_pairs (pair # rest) seen =
     (if pair = [] then query_pairs rest seen
      else case split_once CHR ''='' pair of
        None \<Rightarrow> Inl (MalformedQuery (''expected '<key>=<value>' (got '' @ quoted pair @ '')''))
      | Some (key, value) \<Rightarrow>
          if key = [] then Inl (MalformedQuery (''empty key in '' @ quoted pair))
          else
            let key = to_ascii_lowercase key
            in if key \<in> set seen then Inl (DuplicateQueryKey key)
               else and_then (query_pairs rest (key # seen)) (\<lambda>out. Inr ((key, value) # out)))"

definition parse_query_pairs :: "string \<Rightarrow> (spec_error, (string \<times> string) list) res" where
  "parse_query_pairs text = (if text = [] then Inr [] else query_pairs (split_on CHR ''&'' text) [])"

definition parse_flow_control :: "string \<Rightarrow> (spec_error, serial_flow_control) res" where
  "parse_flow_control value =
     (if value = ''none'' then Inr Flow_None
      else if value = ''rtscts'' then Inr Flow_RtsCts
      else Inl (InvalidQueryValue ''flow_control'' (''expected 'none' or 'rtscts', got '' @ quoted value)))"

type_synonym 'a query_applier = "'a \<Rightarrow> string \<Rightarrow> string \<Rightarrow> (spec_error, 'a \<times> bool) res"

definition serial_set :: "serial_endpoint query_applier" where
  "serial_set endpoint key value =
     (if key = ''flow_control'' then
        and_then (parse_flow_control value) (\<lambda>flow. Inr (endpoint\<lparr>sre_flow_control := flow\<rparr>, True))
      else
        and_then (identity_apply key value (sre_identity endpoint)) (\<lambda>(identity, handled).
          Inr (endpoint\<lparr>sre_identity := identity\<rparr>, handled)))"

definition udp_server_set :: "udp_server_endpoint query_applier" where
  "udp_server_set endpoint key value =
     (if key = ''idle_secs'' then
        and_then (parse_u64_value value ''idle_secs'') (\<lambda>secs.
        and_then (check_u64_range secs ''idle_secs'' MIN_IDLE_SECS MAX_IDLE_SECS) (\<lambda>secs.
          Inr (endpoint\<lparr>use_idle_secs := Some secs\<rparr>, True)))
      else
        and_then (identity_apply key value (use_identity endpoint)) (\<lambda>(identity, handled).
          Inr (endpoint\<lparr>use_identity := identity\<rparr>, handled)))"

definition udp_client_set :: "udp_client_endpoint query_applier" where
  "udp_client_set endpoint key value =
     (if key = ''latch_idle_secs'' then
        and_then (parse_u64_value value ''latch_idle_secs'') (\<lambda>secs.
        and_then (check_u64_range secs ''latch_idle_secs'' MIN_LATCH_IDLE_SECS MAX_LATCH_IDLE_SECS) (\<lambda>secs.
          Inr (endpoint\<lparr>uce_latch_idle_secs := Some secs\<rparr>, True)))
      else
        and_then (identity_apply key value (uce_identity endpoint)) (\<lambda>(identity, handled).
          Inr (endpoint\<lparr>uce_identity := identity\<rparr>, handled)))"

definition identity_set :: "identity_flags query_applier" where
  "identity_set identity key value = identity_apply key value identity"

definition suggest_query_key :: "(string \<Rightarrow> string \<Rightarrow> nat) \<Rightarrow> scheme \<Rightarrow> string \<Rightarrow> string option" where
  "suggest_query_key levenshtein scheme unknown =
     (let near = filter (\<lambda>(_, distance). distance \<le> 4)
            (map (\<lambda>key. (key, levenshtein unknown key)) (IDENTITY_KEYS @ FILTER_KEYS @ known_keys_for scheme))
      in map_option (\<lambda>i. fst (near ! i)) (min_index snd near))"

fun apply_pairs ::
  "(string \<Rightarrow> string \<Rightarrow> nat) \<Rightarrow> 'a query_applier \<Rightarrow> scheme \<Rightarrow> (string \<times> string) list \<Rightarrow> 'a \<Rightarrow> (spec_error, 'a) res" where
  "apply_pairs levenshtein applier scheme [] x = Inr x"
| "apply_pairs levenshtein applier scheme ((key, value) # pairs) x =
     and_then (applier x key value) (\<lambda>(x', handled).
       if \<not> handled then Inl (UnknownQueryKey scheme key (suggest_query_key levenshtein scheme key))
       else apply_pairs levenshtein applier scheme pairs x')"

section \<open>The endpoint\<close>

fun parse_kind ::
  "(string \<Rightarrow> string \<Rightarrow> nat) \<Rightarrow> scheme \<Rightarrow> string \<Rightarrow> (string \<times> string) list \<Rightarrow> (spec_error, endpoint_kind) res" where
  "parse_kind levenshtein Scheme_Serial body pairs =
     and_then (parse_serial_body body) (\<lambda>(path, baud).
     and_then (apply_pairs levenshtein serial_set Scheme_Serial pairs
       \<lparr>sre_path = path, sre_baud = baud, sre_flow_control = Flow_None, sre_identity = identity_default\<rparr>)
     (\<lambda>endpoint. Inr (Kind_Serial endpoint)))"
| "parse_kind levenshtein Scheme_UdpServer body pairs =
     and_then (parse_listen_addr body Scheme_UdpServer) (\<lambda>bind_addr.
     and_then (apply_pairs levenshtein udp_server_set Scheme_UdpServer pairs
       \<lparr>use_bind_addr = bind_addr, use_idle_secs = None, use_identity = identity_default\<rparr>)
     (\<lambda>endpoint. Inr (Kind_UdpServer endpoint)))"
| "parse_kind levenshtein Scheme_UdpClient body pairs =
     and_then (parse_host_port body Scheme_UdpClient) (\<lambda>(host, port).
     and_then (apply_pairs levenshtein udp_client_set Scheme_UdpClient pairs
       \<lparr>uce_host = host, uce_port = port, uce_latch_idle_secs = None, uce_identity = identity_default\<rparr>)
     (\<lambda>endpoint. Inr (Kind_UdpClient endpoint)))"
| "parse_kind levenshtein Scheme_TcpServer body pairs =
     and_then (parse_listen_addr body Scheme_TcpServer) (\<lambda>bind_addr.
     and_then (apply_pairs levenshtein identity_set Scheme_TcpServer pairs identity_default)
     (\<lambda>identity. Inr (Kind_TcpServer \<lparr>tse_bind_addr = bind_addr, tse_identity = identity\<rparr>)))"
| "parse_kind levenshtein Scheme_TcpClient body pairs =
     and_then (parse_host_port body Scheme_TcpClient) (\<lambda>(host, port).
     and_then (apply_pairs levenshtein identity_set Scheme_TcpClient pairs identity_default)
     (\<lambda>identity. Inr (Kind_TcpClient \<lparr>tce_host = host, tce_port = port, tce_identity = identity\<rparr>)))"

definition spec_build ::
  "(string \<Rightarrow> string \<Rightarrow> nat) \<Rightarrow> scheme \<Rightarrow> string \<Rightarrow> string option \<Rightarrow> (string \<times> string) list \<Rightarrow> (spec_error, endpoint_spec) res" where
  "spec_build levenshtein scheme body explicit_name pairs =
     and_then (parse_kind levenshtein scheme body pairs) (\<lambda>kind.
     and_then (case explicit_name of
                 Some name \<Rightarrow> and_then (validate_name name) (\<lambda>_. Inr name)
               | None \<Rightarrow> Inr (default_name kind))
     (\<lambda>name. Inr \<lparr>ep_kind = kind, ep_name = name\<rparr>))"

definition spec_parse :: "(string \<Rightarrow> string \<Rightarrow> nat) \<Rightarrow> string \<Rightarrow> (spec_error, endpoint_spec) res" where
  "spec_parse levenshtein input =
     and_then (ok_or (split_once CHR '':'' input) (MissingScheme input)) (\<lambda>(scheme_str, rest).
     if scheme_str = [] then Inl (MissingScheme input)
     else
       let (body, explicit_name, query_str) = split_body_name_query rest
       in if CHR ''?'' \<in> set body then
            Inl (MalformedQuery (quoted ''?'' @ '' must follow '' @ quoted ''#name'' @ '' (got '' @ quoted body @ '')''))
          else
            and_then (parse_query_pairs (case query_str of Some q \<Rightarrow> q | None \<Rightarrow> '''')) (\<lambda>pairs.
            and_then (scheme_from_cli_prefix scheme_str) (\<lambda>scheme.
              spec_build levenshtein scheme body explicit_name pairs)))"

end
