(* ===== verification/Endpoint_Spec_Correct.thy ===== *)
theory Endpoint_Spec_Correct
  imports Endpoint_Spec
begin

text \<open>
  What the endpoint grammar accepts: every accepted endpoint is well-formed, and every
  well-formed endpoint has a text that reads back as it.
\<close>

section \<open>Well-formed endpoints\<close>

definition filters_wf :: "filters \<Rightarrow> bool" where
  "filters_wf f =
     (list_all (list_all (\<lambda>r. mr_lo r \<le> mr_hi r)) [allow_msgid_in f, block_msgid_in f, allow_msgid_out f, block_msgid_out f]
      \<and> list_all (list_all (\<lambda>r. ur_lo r \<le> ur_hi r))
          [allow_src_sys_in f, block_src_sys_in f, allow_src_sys_out f, block_src_sys_out f,
           allow_src_comp_in f, block_src_comp_in f, allow_src_comp_out f, block_src_comp_out f]
      \<and> list_all (list_all name_matches_regex) [allow_src_endpoint_out f, block_src_endpoint_out f])"

definition identity_wf :: "identity_flags \<Rightarrow> bool" where
  "identity_wf i = (filters_wf (if_filters i) \<and> (case if_group i of Some g \<Rightarrow> name_matches_regex g | None \<Rightarrow> True))"

definition secs_wf :: "u64 option \<Rightarrow> bool" where
  "secs_wf n = (case n of Some n \<Rightarrow> 1 \<le> n \<and> n \<le> 86400 | None \<Rightarrow> True)"

text \<open>The loop over the query keeps whatever the applier keeps.\<close>

lemma parse_msgid_ranges_wf: "parse_msgid_ranges value key = Inr rs \<Longrightarrow> list_all (\<lambda>r. mr_lo r \<le> mr_hi r) rs"
  by (auto simp: parse_msgid_ranges_def list_all_iff and_then_eq_Inr Let_def
      dest!: collect_set parse_range_pair_sound split: if_splits)

lemma ucast_le_u8:
  assumes "lo \<le> (hi :: u32)" and "hi \<le> 255"
  shows "(ucast lo :: u8) \<le> ucast hi"
proof -
  have "unat hi < 256" and "unat lo \<le> unat hi"
    using assms by (auto simp: word_le_nat_alt)
  then show ?thesis by (simp add: word_le_nat_alt unsigned_ucast_eq take_bit_nat_eq_self)
qed

lemma parse_u8_ranges_wf: "parse_u8_ranges value key = Inr rs \<Longrightarrow> list_all (\<lambda>r. ur_lo r \<le> ur_hi r) rs"
  by (auto simp: parse_u8_ranges_def list_all_iff and_then_eq_Inr Let_def not_less
      dest!: collect_set parse_range_pair_sound intro!: ucast_le_u8 split: if_splits)

lemma parse_names_wf: "parse_endpoint_name_list value key = Inr rs \<Longrightarrow> list_all name_matches_regex rs"
  by (auto simp: parse_endpoint_name_list_def list_all_iff and_then_eq_Inr Let_def validate_name_value_def
      dest!: collect_set split: if_splits)

lemmas parsed_list_wf = parse_msgid_ranges_wf parse_u8_ranges_wf parse_names_wf

lemma filters_apply_wf:
  assumes "filters_apply key value f = Inr (f', handled)" and "filters_wf f"
  shows "filters_wf f'"
  using assms
  by (auto simp: filters_apply_def and_then_eq_Inr filters_wf_def dest: parsed_list_wf split: if_splits)

lemma identity_apply_wf: "identity_apply key value i = Inr (i', handled) \<Longrightarrow> identity_wf i \<Longrightarrow> identity_wf i'"
  by (auto simp: identity_apply_def identity_wf_def and_then_eq_Inr Let_def validate_name_value_def
      dest: filters_apply_wf split: if_splits)

lemma identity_default_wf [simp]: "identity_wf identity_default"
  by (simp add: identity_wf_def identity_default_def filters_wf_def filters_default_def)

text \<open>A host that the address grammar can produce: an address literal with a colon stood in brackets.\<close>

definition host_wf :: "string \<Rightarrow> bool" where
  "host_wf host = (host \<noteq> [] \<and> (CHR '':'' \<in> set host \<or> hd host = CHR ''['' \<longrightarrow> CHR '']'' \<notin> set host))"

definition addr_wf :: "socket_addr \<Rightarrow> bool" where
  "addr_wf addr = (addr = sa_new (sa_ip addr) (sa_port addr))"

fun kind_wf :: "endpoint_kind \<Rightarrow> bool" where
  "kind_wf (Kind_Serial e) = (sre_path e \<noteq> [] \<and> sre_baud e \<noteq> 0 \<and> identity_wf (sre_identity e))"
| "kind_wf (Kind_UdpServer e) = (addr_wf (use_bind_addr e) \<and> secs_wf (use_idle_secs e) \<and> identity_wf (use_identity e))"
| "kind_wf (Kind_UdpClient e) = (host_wf (uce_host e) \<and> secs_wf (uce_latch_idle_secs e) \<and> identity_wf (uce_identity e))"
| "kind_wf (Kind_TcpServer e) = (addr_wf (tse_bind_addr e) \<and> identity_wf (tse_identity e))"
| "kind_wf (Kind_TcpClient e) = (host_wf (tce_host e) \<and> identity_wf (tce_identity e))"

definition spec_wf :: "endpoint_spec \<Rightarrow> bool" where
  "spec_wf s = (kind_wf (ep_kind s) \<and> name_matches_regex (ep_name s))"

lemma apply_pairs_keeps:
  assumes "\<And>x key value x' handled. applier x key value = Inr (x', handled) \<Longrightarrow> P x \<Longrightarrow> P x'"
  shows "apply_pairs lev applier scheme pairs x = Inr x' \<Longrightarrow> P x \<Longrightarrow> P x'"
proof (induction pairs arbitrary: x)
  case (Cons p pairs)
  then obtain y where "applier x (fst p) (snd p) = Inr (y, True)" and "apply_pairs lev applier scheme pairs y = Inr x'"
    by (cases p) (auto simp: and_then_eq_Inr split: if_splits)
  with Cons show ?case using assms by blast
qed simp

lemma check_range_Inr: "check_u64_range value key lo hi = Inr n \<longleftrightarrow> n = value \<and> lo \<le> value \<and> value \<le> hi"
  by (auto simp: check_u64_range_def not_less split: if_splits)

lemma check_range_in: "lo \<le> value \<Longrightarrow> value \<le> hi \<Longrightarrow> check_u64_range value key lo hi = Inr value"
  by (simp add: check_range_Inr)

lemma serial_set_wf: "serial_set e key value = Inr (e', handled) \<Longrightarrow> kind_wf (Kind_Serial e) \<Longrightarrow> kind_wf (Kind_Serial e')"
  by (auto simp: serial_set_def and_then_eq_Inr dest: identity_apply_wf split: if_splits)

lemma udp_server_set_wf:
  "udp_server_set e key value = Inr (e', handled) \<Longrightarrow> kind_wf (Kind_UdpServer e) \<Longrightarrow> kind_wf (Kind_UdpServer e')"
  by (auto simp: udp_server_set_def and_then_eq_Inr check_range_Inr secs_wf_def MIN_IDLE_SECS_def MAX_IDLE_SECS_def
      dest: identity_apply_wf split: if_splits)

lemma udp_client_set_wf:
  "udp_client_set e key value = Inr (e', handled) \<Longrightarrow> kind_wf (Kind_UdpClient e) \<Longrightarrow> kind_wf (Kind_UdpClient e')"
  by (auto simp: udp_client_set_def and_then_eq_Inr check_range_Inr secs_wf_def MIN_LATCH_IDLE_SECS_def MAX_LATCH_IDLE_SECS_def
      dest: identity_apply_wf split: if_splits)

lemma identity_set_wf: "identity_set i key value = Inr (i', handled) \<Longrightarrow> identity_wf i \<Longrightarrow> identity_wf i'"
  by (auto simp: identity_set_def dest: identity_apply_wf)

text \<open>A text without the two characters that end the body of an endpoint.\<close>

definition plain :: "string \<Rightarrow> bool" where
  "plain s = (CHR ''#'' \<notin> set s \<and> CHR ''?'' \<notin> set s)"

lemma rsplit_once_Some: "rsplit_once c s = Some (a, b) \<Longrightarrow> s = a @ c # b \<and> c \<notin> set b"
  by (induction s arbitrary: a b) (auto simp: rsplit_once_None split: option.splits if_splits)

lemma strip_prefix_Some: "strip_prefix_char c s = Some r \<longleftrightarrow> s = c # r"
  by (auto simp: strip_prefix_char_def split: list.splits)

lemma strip_prefix_None: "strip_prefix_char c s = None \<longleftrightarrow> s = [] \<or> hd s \<noteq> c"
  by (auto simp: strip_prefix_char_def split: list.splits)

lemma parse_host_port_wf:
  assumes "parse_host_port body scheme = Inr (host, port)"
  shows "host_wf host \<and> (plain body \<longrightarrow> plain host)"
proof (cases "strip_prefix_char CHR ''['' body")
  case None
  with assms obtain port_str where "host \<noteq> []" and "CHR '':'' \<notin> set host" and "rsplit_once CHR '':'' body = Some (host, port_str)"
    by (auto simp: parse_host_port_def and_then_eq_Inr Let_def split: if_splits option.splits)
  with None show ?thesis
    by (cases host) (auto simp: host_wf_def plain_def strip_prefix_None dest!: rsplit_once_Some)
next
  case (Some rest)
  with assms obtain after where "host \<noteq> []" and "split_once CHR '']'' rest = Some (host, after)"
    by (auto simp: parse_host_port_def and_then_eq_Inr Let_def split: if_splits option.splits)
  with Some show ?thesis by (auto simp: host_wf_def plain_def strip_prefix_Some split_once_Some)
qed

lemma sa_new_wf [simp]: "addr_wf (sa_new ip port)"
  by (cases ip) (simp_all add: addr_wf_def)

lemma parse_listen_addr_wf: "parse_listen_addr body scheme = Inr addr \<Longrightarrow> addr_wf addr"
  by (auto simp: parse_listen_addr_def and_then_eq_Inr)

lemma parse_serial_body_ne: "parse_serial_body body = Inr (path, baud) \<Longrightarrow> path \<noteq> [] \<and> baud \<noteq> 0 \<and> (plain body \<longrightarrow> plain path)"
  by (auto simp: plain_def dest: in_set_takeD simp: parse_serial_body_def and_then_eq_Inr Let_def split: if_splits option.splits)

lemma pairs_wf:
  "apply_pairs lev serial_set scheme pairs se = Inr se' \<Longrightarrow> kind_wf (Kind_Serial se) \<Longrightarrow> kind_wf (Kind_Serial se')"
  "apply_pairs lev udp_server_set scheme pairs us = Inr us' \<Longrightarrow> kind_wf (Kind_UdpServer us) \<Longrightarrow> kind_wf (Kind_UdpServer us')"
  "apply_pairs lev udp_client_set scheme pairs uc = Inr uc' \<Longrightarrow> kind_wf (Kind_UdpClient uc) \<Longrightarrow> kind_wf (Kind_UdpClient uc')"
  "apply_pairs lev identity_set scheme pairs i = Inr i' \<Longrightarrow> identity_wf i \<Longrightarrow> identity_wf i'"
  subgoal by (rule apply_pairs_keeps [where P = "\<lambda>e. kind_wf (Kind_Serial e)"]) (rule serial_set_wf, assumption+)
  subgoal by (rule apply_pairs_keeps [where P = "\<lambda>e. kind_wf (Kind_UdpServer e)"]) (rule udp_server_set_wf, assumption+)
  subgoal by (rule apply_pairs_keeps [where P = "\<lambda>e. kind_wf (Kind_UdpClient e)"]) (rule udp_client_set_wf, assumption+)
  subgoal by (rule apply_pairs_keeps [where P = identity_wf]) (rule identity_set_wf, assumption+)
  done

lemma fresh_kind_wf:
  "parse_serial_body body = Inr (path, baud) \<Longrightarrow>
     kind_wf (Kind_Serial \<lparr>sre_path = path, sre_baud = baud, sre_flow_control = flow, sre_identity = identity_default\<rparr>)"
  "parse_listen_addr body scheme = Inr addr \<Longrightarrow>
     kind_wf (Kind_UdpServer \<lparr>use_bind_addr = addr, use_idle_secs = None, use_identity = identity_default\<rparr>)"
  "parse_host_port body scheme = Inr (host, port) \<Longrightarrow>
     kind_wf (Kind_UdpClient \<lparr>uce_host = host, uce_port = port, uce_latch_idle_secs = None, uce_identity = identity_default\<rparr>)"
  using parse_serial_body_ne parse_host_port_wf parse_listen_addr_wf by (fastforce simp: secs_wf_def)+

lemma parse_kind_wf: "parse_kind lev scheme body pairs = Inr kind \<Longrightarrow> kind_wf kind \<and> kind_scheme kind = scheme"
proof (induction lev scheme body pairs rule: parse_kind.induct)
  case (4 lev body pairs)
  then show ?case by (auto simp: and_then_eq_Inr dest!: pairs_wf parse_listen_addr_wf)
next
  case (5 lev body pairs)
  then show ?case by (auto simp: and_then_eq_Inr dest!: pairs_wf parse_host_port_wf)
qed (auto simp: and_then_eq_Inr simp del: kind_wf.simps intro: pairs_wf fresh_kind_wf)

lemma regex_append [simp]: "name_matches_regex (a @ b) \<longleftrightarrow> (a = [] \<and> name_matches_regex b) \<or> (name_matches_regex a \<and> (b = [] \<or> name_matches_regex b))"
  by (auto simp: name_matches_regex_def)

lemma sanitize_all: "sanitize_for_name t = [] \<or> name_matches_regex (sanitize_for_name t)"
  using sanitize_matches [of t] by (cases t) (auto simp: sanitize_for_name_def)

lemma dec_word_matches [simp]: "name_matches_regex (dec_word w)"
  using dec_digits [of "unat w"]
  by (auto simp: name_matches_regex_def dec_word_def list_all_iff is_ascii_digit_def is_ascii_alphanumeric_def Let_def)

lemma regex_Cons: "s \<noteq> [] \<Longrightarrow> name_matches_regex (c # s) \<longleftrightarrow> name_matches_regex [c] \<and> name_matches_regex s"
  by (auto simp: name_matches_regex_def)

lemma regex_char:
  "name_matches_regex [CHR ''s'']" "name_matches_regex [CHR ''e'']" "name_matches_regex [CHR ''r'']" "name_matches_regex [CHR ''i'']"
  "name_matches_regex [CHR ''a'']" "name_matches_regex [CHR ''l'']" "name_matches_regex [CHR ''u'']" "name_matches_regex [CHR ''d'']"
  "name_matches_regex [CHR ''p'']" "name_matches_regex [CHR ''c'']" "name_matches_regex [CHR ''t'']" "name_matches_regex [CHR ''-'']"
  by (simp_all add: name_matches_regex_def is_ascii_alphanumeric_def)

lemma dec_word_ne [simp]: "dec_word w \<noteq> []"
  by (simp add: dec_word_def)

lemma default_name_matches: "name_matches_regex (default_name kind)"
proof -
  have rest: "name_matches_regex (sanitize_for_name t @ CHR ''-'' # dec_word (w :: 'w::len word))" for t w
    using sanitize_all [of t] by (auto simp: regex_Cons regex_char)
  show ?thesis
    by (cases kind; simp add: regex_Cons regex_char rest del: regex_append)
qed

section \<open>The text of an endpoint\<close>

text \<open>Optional keys with their values, in order, and the text of a whole endpoint.\<close>

definition present :: "(string \<times> string option) list \<Rightarrow> (string \<times> string) list" where
  "present kvs = List.map_filter (\<lambda>(k, v). map_option (Pair k) v) kvs"

lemma present_simps [simp]:
  "present [] = []"
  "present ((k, None) # kvs) = present kvs"
  "present ((k, Some v) # kvs) = (k, v) # present kvs"
  by (simp_all add: present_def)

lemma present_value: "(k, v) \<in> set (present kvs) \<longleftrightarrow> (k, Some v) \<in> set kvs"
proof (induction kvs)
  case (Cons kv kvs)
  then show ?case by (cases kv; cases "snd kv") auto
qed simp

lemma present_keys: "set (map fst (present kvs)) \<subseteq> set (map fst kvs)"
  by (force simp: present_value)

lemma present_distinct: "distinct (map fst kvs) \<Longrightarrow> distinct (map fst (present kvs))"
proof (induction kvs)
  case (Cons kv kvs)
  then show ?case using present_keys [of kvs] by (cases kv; cases "snd kv") auto
qed simp

definition query_text :: "(string \<times> string) list \<Rightarrow> string" where
  "query_text pairs = join_with CHR ''&'' (map (\<lambda>(k, v). k @ CHR ''='' # v) pairs)"

definition cli_form :: "scheme \<Rightarrow> string \<Rightarrow> string \<Rightarrow> (string \<times> string) list \<Rightarrow> string" where
  "cli_form scheme body name pairs =
     scheme_as_str scheme @ CHR '':'' # body @ CHR ''#'' # name @ CHR ''?'' # query_text pairs"

definition plain_key :: "string \<Rightarrow> bool" where
  "plain_key k = (k \<noteq> [] \<and> CHR ''='' \<notin> set k \<and> CHR ''&'' \<notin> set k \<and> to_ascii_lowercase k = k)"

lemma query_pairs_text:
  assumes "\<forall>(k, v) \<in> set pairs. plain_key k" and "distinct (map fst pairs)" and "set (map fst pairs) \<inter> set seen = {}"
  shows "query_pairs (map (\<lambda>(k, v). k @ CHR ''='' # v) pairs) seen = Inr pairs"
  using assms
  by (induction pairs arbitrary: seen) (auto simp: plain_key_def split_once_append)

lemma parse_query_text:
  assumes "\<forall>(k, v) \<in> set pairs. plain_key k \<and> CHR ''&'' \<notin> set v" and "distinct (map fst pairs)"
  shows "parse_query_pairs (query_text pairs) = Inr pairs"
proof (cases "pairs = []")
  case False
  then have "query_text pairs \<noteq> []"
    by (cases pairs; cases "tl pairs") (auto simp: query_text_def)
  moreover have "split_on CHR ''&'' (query_text pairs) = map (\<lambda>(k, v). k @ CHR ''='' # v) pairs"
    unfolding query_text_def using False assms(1) by (intro split_on_join) (auto simp: plain_key_def)
  ultimately show ?thesis
    using assms query_pairs_text [of pairs "[]"] by (auto simp: parse_query_pairs_def)
qed (simp add: query_text_def parse_query_pairs_def)

lemma scheme_no_colon: "CHR '':'' \<notin> set (scheme_as_str scheme)" "scheme_as_str scheme \<noteq> []"
  by (cases scheme; simp)+

lemma parse_cli_form:
  assumes "plain body" and "CHR ''?'' \<notin> set name"
    and "\<forall>(k, v) \<in> set pairs. plain_key k \<and> CHR ''&'' \<notin> set v" and "distinct (map fst pairs)"
  shows "spec_parse lev (cli_form scheme body name pairs) = spec_build lev scheme body (Some name) pairs"
proof -
  have "split_body_name_query (body @ CHR ''#'' # name @ CHR ''?'' # query_text pairs) = (body, Some name, Some (query_text pairs))"
    using assms(1,2) by (simp add: split_body_name_query_def split_once_append plain_def)
  then show ?thesis
    using assms(1) scheme_no_colon [of scheme] parse_query_text [OF assms(3,4)]
    by (simp add: spec_parse_def cli_form_def split_once_append plain_def scheme_from_cli_prefix_def scheme_round_trip)
qed

section \<open>The text of the identity\<close>

definition text_list :: "('a list \<Rightarrow> string) \<Rightarrow> 'a list \<Rightarrow> string option" where
  "text_list to_text xs = (if xs = [] then None else Some (to_text xs))"

definition show_u8_ranges :: "u8_range list \<Rightarrow> string" where
  "show_u8_ranges rs = show_msgid_ranges (map (\<lambda>r. \<lparr>mr_lo = ucast (ur_lo r), mr_hi = ucast (ur_hi r)\<rparr>) rs)"

definition filter_fields :: "filters \<Rightarrow> (string \<times> string option) list" where
  "filter_fields f =
     [(''allow_msgid_in'', text_list show_msgid_ranges (allow_msgid_in f)),
      (''block_msgid_in'', text_list show_msgid_ranges (block_msgid_in f)),
      (''allow_msgid_out'', text_list show_msgid_ranges (allow_msgid_out f)),
      (''block_msgid_out'', text_list show_msgid_ranges (block_msgid_out f)),
      (''allow_src_sys_in'', text_list show_u8_ranges (allow_src_sys_in f)),
      (''block_src_sys_in'', text_list show_u8_ranges (block_src_sys_in f)),
      (''allow_src_sys_out'', text_list show_u8_ranges (allow_src_sys_out f)),
      (''block_src_sys_out'', text_list show_u8_ranges (block_src_sys_out f)),
      (''allow_src_comp_in'', text_list show_u8_ranges (allow_src_comp_in f)),
      (''block_src_comp_in'', text_list show_u8_ranges (block_src_comp_in f)),
      (''allow_src_comp_out'', text_list show_u8_ranges (allow_src_comp_out f)),
      (''block_src_comp_out'', text_list show_u8_ranges (block_src_comp_out f)),
      (''allow_src_endpoint_out'', text_list (join_with CHR '','') (allow_src_endpoint_out f)),
      (''block_src_endpoint_out'', text_list (join_with CHR '','') (block_src_endpoint_out f))]"

definition identity_fields :: "identity_flags \<Rightarrow> (string \<times> string option) list" where
  "identity_fields i =
     filter_fields (if_filters i)
     @ [(''sniffer'', if if_sniffer i then Some ''true'' else None), (''group'', if_group i)]"

lemma ucast_u8_u32: "(ucast (ucast (a :: u8) :: u32) :: u8) = a" "(ucast (a :: u8) :: u32) \<le> 255"
  "(ucast (a :: u8) :: u32) \<le> ucast b \<longleftrightarrow> a \<le> b"
proof -
  show "(ucast (a :: u8) :: u32) \<le> 255"
    using unsigned_less [of a, where 'a = nat] by (simp add: word_le_nat_alt unsigned_ucast_eq take_bit_nat_eq_self)
  show "(ucast (a :: u8) :: u32) \<le> ucast b \<longleftrightarrow> a \<le> b"
    using unsigned_less [of a, where 'a = nat] unsigned_less [of b, where 'a = nat]
    by (simp add: word_le_nat_alt unsigned_ucast_eq take_bit_nat_eq_self)
  show "(ucast (ucast (a :: u8) :: u32) :: u8) = a"
    using unsigned_less [of a, where 'a = nat] by (simp add: word_unat_eq_iff unsigned_ucast_eq take_bit_nat_eq_self unsigned_take_bit_eq)
qed

lemma parse_show_u8_ranges:
  assumes "rs \<noteq> []" and "list_all (\<lambda>r. ur_lo r \<le> ur_hi r) rs"
  shows "parse_u8_ranges (show_u8_ranges rs) key = Inr rs"
proof -
  let ?w = "\<lambda>r. \<lparr>mr_lo = ucast (ur_lo r), mr_hi = ucast (ur_hi r)\<rparr> :: msgid_range"
  have "CHR '','' \<notin> set (show_msgid_range r)" for r
    using show_range_chars [of "CHR '',''" r] by (auto simp: is_ascii_digit_def)
  then have "split_on CHR '','' (show_u8_ranges rs) = map (\<lambda>r. show_msgid_range (?w r)) rs"
    using assms(1) by (simp add: show_u8_ranges_def show_msgid_ranges_def split_on_join)
  then show ?thesis using assms(2)
    by (simp add: parse_u8_ranges_def, intro collect_map)
      (simp add: parse_show_range Let_def ucast_u8_u32 list_all_iff not_less)
qed

lemma regex_chars: "name_matches_regex s \<Longrightarrow> c \<in> set s \<Longrightarrow> is_ascii_alphanumeric c \<or> c = CHR ''_'' \<or> c = CHR ''-''"
  by (auto simp: name_matches_regex_def list_all_iff)

lemma regex_no:
  assumes "name_matches_regex s"
  shows "CHR '','' \<notin> set s" "CHR ''&'' \<notin> set s" "CHR ''?'' \<notin> set s" "CHR ''#'' \<notin> set s" "trim s = s" "s \<noteq> []"
proof -
  show "CHR '','' \<notin> set s" "CHR ''&'' \<notin> set s" "CHR ''?'' \<notin> set s" "CHR ''#'' \<notin> set s"
    using regex_chars [OF assms, of "CHR '',''"] regex_chars [OF assms, of "CHR ''&''"]
      regex_chars [OF assms, of "CHR ''?''"] regex_chars [OF assms, of "CHR ''#''"]
    by (auto simp: is_ascii_alphanumeric_def)
  show ne: "s \<noteq> []" using assms by (simp add: name_matches_regex_def)
  have "\<not> is_whitespace c" if "c \<in> set s" for c
    using regex_chars [OF assms that] by (auto simp: is_ascii_alphanumeric_def is_whitespace_def Let_def)
  with ne show "trim s = s" by (intro trim_id) simp
qed

lemma parse_show_names:
  assumes "ns \<noteq> []" and "list_all name_matches_regex ns"
  shows "parse_endpoint_name_list (join_with CHR '','' ns) key = Inr ns"
proof -
  have "\<forall>n \<in> set ns. CHR '','' \<notin> set n" using assms(2) by (auto simp: list_all_iff regex_no)
  then have "split_on CHR '','' (join_with CHR '','' ns) = map (\<lambda>n. n) ns"
    using assms(1) by (simp add: split_on_join)
  moreover have "collect (\<lambda>item. let item = trim item in if item = [] then Inl (InvalidQueryValue key (''empty entry in '' @ quoted v))
      else and_then (validate_name_value item key) (\<lambda>_. Inr item)) (map (\<lambda>n. n) ns) = Inr ns" for v
    using assms(2) by (intro collect_map) (auto simp: list_all_iff regex_no validate_name_value_def)
  ultimately show ?thesis by (simp add: parse_endpoint_name_list_def)
qed

lemma filters_apply_key:
  "filters_apply ''allow_msgid_in'' value f = and_then (parse_msgid_ranges value ''allow_msgid_in'') (\<lambda>xs. Inr (f\<lparr>allow_msgid_in := xs\<rparr>, True))"
  "filters_apply ''block_msgid_in'' value f = and_then (parse_msgid_ranges value ''block_msgid_in'') (\<lambda>xs. Inr (f\<lparr>block_msgid_in := xs\<rparr>, True))"
  "filters_apply ''allow_msgid_out'' value f = and_then (parse_msgid_ranges value ''allow_msgid_out'') (\<lambda>xs. Inr (f\<lparr>allow_msgid_out := xs\<rparr>, True))"
  "filters_apply ''block_msgid_out'' value f = and_then (parse_msgid_ranges value ''block_msgid_out'') (\<lambda>xs. Inr (f\<lparr>block_msgid_out := xs\<rparr>, True))"
  "filters_apply ''allow_src_sys_in'' value f = and_then (parse_u8_ranges value ''allow_src_sys_in'') (\<lambda>xs. Inr (f\<lparr>allow_src_sys_in := xs\<rparr>, True))"
  "filters_apply ''block_src_sys_in'' value f = and_then (parse_u8_ranges value ''block_src_sys_in'') (\<lambda>xs. Inr (f\<lparr>block_src_sys_in := xs\<rparr>, True))"
  "filters_apply ''allow_src_sys_out'' value f = and_then (parse_u8_ranges value ''allow_src_sys_out'') (\<lambda>xs. Inr (f\<lparr>allow_src_sys_out := xs\<rparr>, True))"
  "filters_apply ''block_src_sys_out'' value f = and_then (parse_u8_ranges value ''block_src_sys_out'') (\<lambda>xs. Inr (f\<lparr>block_src_sys_out := xs\<rparr>, True))"
  "filters_apply ''allow_src_comp_in'' value f = and_then (parse_u8_ranges value ''allow_src_comp_in'') (\<lambda>xs. Inr (f\<lparr>allow_src_comp_in := xs\<rparr>, True))"
  "filters_apply ''block_src_comp_in'' value f = and_then (parse_u8_ranges value ''block_src_comp_in'') (\<lambda>xs. Inr (f\<lparr>block_src_comp_in := xs\<rparr>, True))"
  "filters_apply ''allow_src_comp_out'' value f = and_then (parse_u8_ranges value ''allow_src_comp_out'') (\<lambda>xs. Inr (f\<lparr>allow_src_comp_out := xs\<rparr>, True))"
  "filters_apply ''block_src_comp_out'' value f = and_then (parse_u8_ranges value ''block_src_comp_out'') (\<lambda>xs. Inr (f\<lparr>block_src_comp_out := xs\<rparr>, True))"
  "filters_apply ''allow_src_endpoint_out'' value f = and_then (parse_endpoint_name_list value ''allow_src_endpoint_out'') (\<lambda>xs. Inr (f\<lparr>allow_src_endpoint_out := xs\<rparr>, True))"
  "filters_apply ''block_src_endpoint_out'' value f = and_then (parse_endpoint_name_list value ''block_src_endpoint_out'') (\<lambda>xs. Inr (f\<lparr>block_src_endpoint_out := xs\<rparr>, True))"
  by (simp_all add: filters_apply_def)

lemma filter_step:
  assumes "xs \<noteq> [] \<Longrightarrow> filters_apply k (to_text xs) (if_filters i) = Inr (put xs (if_filters i), True)"
    and "put [] (if_filters i) = if_filters i"
  shows "apply_pairs lev identity_set scheme (present ((k, text_list to_text xs) # kvs)) i
    = apply_pairs lev identity_set scheme (present kvs) (i\<lparr>if_filters := put xs (if_filters i)\<rparr>)"
  using assms by (cases "xs = []") (simp_all add: text_list_def identity_set_def identity_apply_def)

lemma filters_same:
  "allow_msgid_in f = [] \<Longrightarrow> f\<lparr>allow_msgid_in := []\<rparr> = f"
  "block_msgid_in f = [] \<Longrightarrow> f\<lparr>block_msgid_in := []\<rparr> = f"
  "allow_msgid_out f = [] \<Longrightarrow> f\<lparr>allow_msgid_out := []\<rparr> = f"
  "block_msgid_out f = [] \<Longrightarrow> f\<lparr>block_msgid_out := []\<rparr> = f"
  "allow_src_sys_in f = [] \<Longrightarrow> f\<lparr>allow_src_sys_in := []\<rparr> = f"
  "block_src_sys_in f = [] \<Longrightarrow> f\<lparr>block_src_sys_in := []\<rparr> = f"
  "allow_src_sys_out f = [] \<Longrightarrow> f\<lparr>allow_src_sys_out := []\<rparr> = f"
  "block_src_sys_out f = [] \<Longrightarrow> f\<lparr>block_src_sys_out := []\<rparr> = f"
  "allow_src_comp_in f = [] \<Longrightarrow> f\<lparr>allow_src_comp_in := []\<rparr> = f"
  "block_src_comp_in f = [] \<Longrightarrow> f\<lparr>block_src_comp_in := []\<rparr> = f"
  "allow_src_comp_out f = [] \<Longrightarrow> f\<lparr>allow_src_comp_out := []\<rparr> = f"
  "block_src_comp_out f = [] \<Longrightarrow> f\<lparr>block_src_comp_out := []\<rparr> = f"
  "allow_src_endpoint_out f = [] \<Longrightarrow> f\<lparr>allow_src_endpoint_out := []\<rparr> = f"
  "block_src_endpoint_out f = [] \<Longrightarrow> f\<lparr>block_src_endpoint_out := []\<rparr> = f"
  by (cases f; simp)+

lemma msgid_steps:
  assumes "list_all (\<lambda>r. mr_lo r \<le> mr_hi r) rs"
  shows
  "allow_msgid_in (if_filters i) = [] \<Longrightarrow> apply_pairs lev identity_set scheme (present ((''allow_msgid_in'', text_list show_msgid_ranges rs) # kvs)) i
     = apply_pairs lev identity_set scheme (present kvs) (i\<lparr>if_filters := (if_filters i)\<lparr>allow_msgid_in := rs\<rparr>\<rparr>)"
  "block_msgid_in (if_filters i) = [] \<Longrightarrow> apply_pairs lev identity_set scheme (present ((''block_msgid_in'', text_list show_msgid_ranges rs) # kvs)) i
     = apply_pairs lev identity_set scheme (present kvs) (i\<lparr>if_filters := (if_filters i)\<lparr>block_msgid_in := rs\<rparr>\<rparr>)"
  "allow_msgid_out (if_filters i) = [] \<Longrightarrow> apply_pairs lev identity_set scheme (present ((''allow_msgid_out'', text_list show_msgid_ranges rs) # kvs)) i
     = apply_pairs lev identity_set scheme (present kvs) (i\<lparr>if_filters := (if_filters i)\<lparr>allow_msgid_out := rs\<rparr>\<rparr>)"
  "block_msgid_out (if_filters i) = [] \<Longrightarrow> apply_pairs lev identity_set scheme (present ((''block_msgid_out'', text_list show_msgid_ranges rs) # kvs)) i
     = apply_pairs lev identity_set scheme (present kvs) (i\<lparr>if_filters := (if_filters i)\<lparr>block_msgid_out := rs\<rparr>\<rparr>)"
  using parse_show_ranges [of rs] assms by (intro filter_step; simp add: filters_apply_key filters_same list_all_iff)+

lemma u8_steps:
  assumes "list_all (\<lambda>r. ur_lo r \<le> ur_hi r) us"
  shows
  "allow_src_sys_in (if_filters i) = [] \<Longrightarrow> apply_pairs lev identity_set scheme (present ((''allow_src_sys_in'', text_list show_u8_ranges us) # kvs)) i
     = apply_pairs lev identity_set scheme (present kvs) (i\<lparr>if_filters := (if_filters i)\<lparr>allow_src_sys_in := us\<rparr>\<rparr>)"
  "block_src_sys_in (if_filters i) = [] \<Longrightarrow> apply_pairs lev identity_set scheme (present ((''block_src_sys_in'', text_list show_u8_ranges us) # kvs)) i
     = apply_pairs lev identity_set scheme (present kvs) (i\<lparr>if_filters := (if_filters i)\<lparr>block_src_sys_in := us\<rparr>\<rparr>)"
  "allow_src_sys_out (if_filters i) = [] \<Longrightarrow> apply_pairs lev identity_set scheme (present ((''allow_src_sys_out'', text_list show_u8_ranges us) # kvs)) i
     = apply_pairs lev identity_set scheme (present kvs) (i\<lparr>if_filters := (if_filters i)\<lparr>allow_src_sys_out := us\<rparr>\<rparr>)"
  "block_src_sys_out (if_filters i) = [] \<Longrightarrow> apply_pairs lev identity_set scheme (present ((''block_src_sys_out'', text_list show_u8_ranges us) # kvs)) i
     = apply_pairs lev identity_set scheme (present kvs) (i\<lparr>if_filters := (if_filters i)\<lparr>block_src_sys_out := us\<rparr>\<rparr>)"
  "allow_src_comp_in (if_filters i) = [] \<Longrightarrow> apply_pairs lev identity_set scheme (present ((''allow_src_comp_in'', text_list show_u8_ranges us) # kvs)) i
     = apply_pairs lev identity_set scheme (present kvs) (i\<lparr>if_filters := (if_filters i)\<lparr>allow_src_comp_in := us\<rparr>\<rparr>)"
  "block_src_comp_in (if_filters i) = [] \<Longrightarrow> apply_pairs lev identity_set scheme (present ((''block_src_comp_in'', text_list show_u8_ranges us) # kvs)) i
     = apply_pairs lev identity_set scheme (present kvs) (i\<lparr>if_filters := (if_filters i)\<lparr>block_src_comp_in := us\<rparr>\<rparr>)"
  "allow_src_comp_out (if_filters i) = [] \<Longrightarrow> apply_pairs lev identity_set scheme (present ((''allow_src_comp_out'', text_list show_u8_ranges us) # kvs)) i
     = apply_pairs lev identity_set scheme (present kvs) (i\<lparr>if_filters := (if_filters i)\<lparr>allow_src_comp_out := us\<rparr>\<rparr>)"
  "block_src_comp_out (if_filters i) = [] \<Longrightarrow> apply_pairs lev identity_set scheme (present ((''block_src_comp_out'', text_list show_u8_ranges us) # kvs)) i
     = apply_pairs lev identity_set scheme (present kvs) (i\<lparr>if_filters := (if_filters i)\<lparr>block_src_comp_out := us\<rparr>\<rparr>)"
  using parse_show_u8_ranges [of us] assms by (intro filter_step; simp add: filters_apply_key filters_same)+

lemma name_steps:
  assumes "list_all name_matches_regex ns"
  shows
  "allow_src_endpoint_out (if_filters i) = [] \<Longrightarrow> apply_pairs lev identity_set scheme (present ((''allow_src_endpoint_out'', text_list (join_with CHR '','') ns) # kvs)) i
     = apply_pairs lev identity_set scheme (present kvs) (i\<lparr>if_filters := (if_filters i)\<lparr>allow_src_endpoint_out := ns\<rparr>\<rparr>)"
  "block_src_endpoint_out (if_filters i) = [] \<Longrightarrow> apply_pairs lev identity_set scheme (present ((''block_src_endpoint_out'', text_list (join_with CHR '','') ns) # kvs)) i
     = apply_pairs lev identity_set scheme (present kvs) (i\<lparr>if_filters := (if_filters i)\<lparr>block_src_endpoint_out := ns\<rparr>\<rparr>)"
  using parse_show_names [of ns] assms by (intro filter_step; simp add: filters_apply_key filters_same)+

lemma filters_read_back:
  "filters_wf f \<Longrightarrow> apply_pairs lev identity_set scheme (present (filter_fields f @ kvs)) identity_default
    = apply_pairs lev identity_set scheme (present kvs) \<lparr>if_filters = f, if_sniffer = False, if_group = None\<rparr>"
  by (cases f) (simp add: filter_fields_def msgid_steps u8_steps name_steps filters_wf_def identity_default_def filters_default_def)

lemma identity_reads_back:
  assumes "identity_wf i"
  shows "apply_pairs lev identity_set scheme (present (identity_fields i)) identity_default = Inr i"
  using assms
  by (cases i; cases "if_group i"; cases "if_sniffer i")
    (simp_all add: identity_fields_def filters_read_back identity_wf_def identity_set_def identity_apply_def filters_apply_def
      parse_bool_def validate_name_value_def)

section \<open>Endpoints that carry an identity\<close>

text \<open>
  The applier of a scheme with a key of its own: it treats that key itself and hands every
  other one to the identity it carries, leaving the rest of the endpoint alone.
\<close>

locale identity_carrier =
  fixes applier :: "'a query_applier"
    and extra :: string
    and get :: "'a \<Rightarrow> identity_flags"
    and put :: "identity_flags \<Rightarrow> 'a \<Rightarrow> 'a"
  assumes other_key: "k \<noteq> extra \<Longrightarrow>
      applier x k v = and_then (identity_apply k v (get x)) (\<lambda>(i, handled). Inr (put i x, handled))"
    and get_put: "get (put i x) = i"
    and put_put: "put j (put i x) = put j x"
    and put_get: "put (get x) x = x"
begin

lemma apply_identity:
  "extra \<notin> set (map fst pairs) \<Longrightarrow>
   apply_pairs lev applier scheme pairs x = and_then (apply_pairs lev identity_set scheme pairs (get x)) (\<lambda>i. Inr (put i x))"
proof (induction pairs arbitrary: x)
  case (Cons p pairs)
  obtain k v where p: "p = (k, v)" by (cases p)
  show ?case
  proof (cases "identity_apply k v (get x)")
    case (Inr r)
    with Cons p show ?thesis by (cases r) (auto simp: other_key identity_set_def get_put put_put)
  qed (use Cons p in \<open>auto simp: other_key identity_set_def\<close>)
qed (simp add: put_get)

lemma reads_back:
  assumes "identity_wf i" and "get x = identity_default" and "extra \<notin> set (map fst (identity_fields i))"
  shows "apply_pairs lev applier scheme (present (identity_fields i)) x = Inr (put i x)"
  using assms present_keys [of "identity_fields i"] by (subst apply_identity) (auto simp: identity_reads_back)

end

interpretation serial_id: identity_carrier serial_set "''flow_control''" sre_identity "\<lambda>i e. e\<lparr>sre_identity := i\<rparr>"
  by unfold_locales (simp_all add: serial_set_def)

interpretation udps_id: identity_carrier udp_server_set "''idle_secs''" use_identity "\<lambda>i e. e\<lparr>use_identity := i\<rparr>"
  by unfold_locales (simp_all add: udp_server_set_def)

interpretation udpc_id: identity_carrier udp_client_set "''latch_idle_secs''" uce_identity "\<lambda>i e. e\<lparr>uce_identity := i\<rparr>"
  by unfold_locales (simp_all add: udp_client_set_def)

section \<open>The text of the address\<close>

definition host_text :: "string \<Rightarrow> string" where
  "host_text h = (if CHR '':'' \<in> set h \<or> hd h = CHR ''['' then CHR ''['' # h @ '']'' else h)"

fun kind_body :: "endpoint_kind \<Rightarrow> string" where
  "kind_body (Kind_Serial e) = sre_path e @ CHR '':'' # dec_word (sre_baud e)"
| "kind_body (Kind_UdpServer e) = host_text (show_ip (sa_ip (use_bind_addr e))) @ CHR '':'' # dec_word (sa_port (use_bind_addr e))"
| "kind_body (Kind_UdpClient e) = host_text (uce_host e) @ CHR '':'' # dec_word (uce_port e)"
| "kind_body (Kind_TcpServer e) = host_text (show_ip (sa_ip (tse_bind_addr e))) @ CHR '':'' # dec_word (sa_port (tse_bind_addr e))"
| "kind_body (Kind_TcpClient e) = host_text (tce_host e) @ CHR '':'' # dec_word (tce_port e)"

fun kind_fields :: "endpoint_kind \<Rightarrow> (string \<times> string option) list" where
  "kind_fields (Kind_Serial e) =
     (''flow_control'', case sre_flow_control e of Flow_RtsCts \<Rightarrow> Some ''rtscts'' | Flow_None \<Rightarrow> None) # identity_fields (sre_identity e)"
| "kind_fields (Kind_UdpServer e) = (''idle_secs'', map_option dec_word (use_idle_secs e)) # identity_fields (use_identity e)"
| "kind_fields (Kind_UdpClient e) = (''latch_idle_secs'', map_option dec_word (uce_latch_idle_secs e)) # identity_fields (uce_identity e)"
| "kind_fields (Kind_TcpServer e) = identity_fields (tse_identity e)"
| "kind_fields (Kind_TcpClient e) = identity_fields (tce_identity e)"

definition cli_text :: "endpoint_spec \<Rightarrow> string" where
  "cli_text s = cli_form (kind_scheme (ep_kind s)) (kind_body (ep_kind s)) (ep_name s) (present (kind_fields (ep_kind s)))"

text \<open>A device path or host that does not contain the characters that end a body.\<close>

fun kind_plain :: "endpoint_kind \<Rightarrow> bool" where
  "kind_plain (Kind_Serial e) = plain (sre_path e)"
| "kind_plain (Kind_UdpClient e) = plain (uce_host e)"
| "kind_plain (Kind_TcpClient e) = plain (tce_host e)"
| "kind_plain _ = True"

lemma digit_is_hex: "is_ascii_digit c \<Longrightarrow> to_digit 16 c \<noteq> None"
  by (auto simp: is_ascii_digit_def to_digit_def Let_def)

lemma show_ipv4_chars: "c \<in> set (show_ipv4 ip) \<Longrightarrow> to_digit 16 c \<noteq> None \<or> c = CHR ''.''"
proof (cases ip)
  case (Ipv4 a b d e)
  assume "c \<in> set (show_ipv4 ip)"
  with Ipv4 dec_digits show ?thesis
    by (auto simp: dec_word_def list_all_iff dest!: digit_is_hex)
qed

lemma fmt_subslice_chars: "c \<in> set (fmt_subslice xs) \<Longrightarrow> to_digit 16 c \<noteq> None \<or> c = CHR '':''"
proof (cases xs)
  case (Cons x ys)
  have "c \<in> set (more_groups ys) \<Longrightarrow> to_digit 16 c \<noteq> None \<or> c = CHR '':''" for c ys
    by (induction ys) (auto dest: hex_no)
  moreover assume "c \<in> set (fmt_subslice xs)"
  ultimately show ?thesis using Cons by (auto simp: fmt_subslice_Cons dest: hex_no)
qed (simp add: fmt_subslice_Nil)

lemma show_ip_chars: "c \<in> set (show_ip ip) \<Longrightarrow> to_digit 16 c \<noteq> None \<or> c = CHR ''.'' \<or> c = CHR '':''"
proof (cases ip)
  case (IpV6 a)
  assume "c \<in> set (show_ip ip)"
  moreover have "c \<in> set ''::ffff:'' \<Longrightarrow> to_digit 16 c \<noteq> None \<or> c = CHR '':''"
    by (auto simp: to_digit_def)
  ultimately show ?thesis using IpV6 show_ipv4_chars [of c] fmt_subslice_chars [of c]
    by (auto simp: show_ipv6_def Let_def split: option.splits prod.splits if_splits)
qed (use show_ipv4_chars in auto)

lemma show_ip_host [simp]: "host_wf (show_ip ip)" "plain (show_ip ip)"
proof -
  have no: "c \<notin> set (show_ip ip)" if "to_digit 16 c = None" "c \<noteq> CHR ''.''" "c \<noteq> CHR '':''" for c
    using show_ip_chars [of c ip] that by auto
  have "read_groups (Suc n) 0 [] = ([], False, [])" for n
    by (simp add: read_ipv4_addr_def read_octet_def read_number_def read_separator_def)
  from this [of 7] have "parse_ip [] = None"
    by (simp add: parse_ip_def read_ipv4_addr_def read_octet_def read_number_def read_ipv6_addr_def)
  then have "show_ip ip \<noteq> []" by (metis option.distinct(1) parse_show_ip)
  then show "host_wf (show_ip ip)" "plain (show_ip ip)"
    using no [of "CHR '']''"] no [of "CHR ''#''"] no [of "CHR ''?''"] by (simp_all add: host_wf_def plain_def to_digit_def)
qed

lemma colon_dec_word [simp]: "CHR '':'' \<notin> set (dec_word w)" "CHR '','' \<notin> set (dec_word w)" "CHR ''?'' \<notin> set (dec_word w)" "CHR ''#'' \<notin> set (dec_word w)" "CHR ''&'' \<notin> set (dec_word w)"
  by (simp_all add: dec_word_no)

lemma parse_host_port_text:
  assumes "host_wf h"
  shows "parse_host_port (host_text h @ CHR '':'' # dec_word p) scheme = Inr (h, p)"
proof (cases "CHR '':'' \<in> set h \<or> hd h = CHR ''[''")
  case True
  with assms show ?thesis
    by (auto simp: parse_host_port_def host_text_def host_wf_def strip_prefix_char_def split_once_append parse_dec_word Let_def)
next
  case False
  then have "strip_prefix_char CHR ''['' (h @ CHR '':'' # dec_word p) = None" and "rsplit_once CHR '':'' (h @ CHR '':'' # dec_word p) = Some (h, dec_word p)"
    using assms by (auto simp: strip_prefix_None host_wf_def rsplit_once_append)
  with False assms show ?thesis
    by (simp add: parse_host_port_def host_text_def host_wf_def parse_dec_word)
qed

lemma parse_listen_addr_text:
  assumes "addr_wf a"
  shows "parse_listen_addr (host_text (show_ip (sa_ip a)) @ CHR '':'' # dec_word (sa_port a)) scheme = Inr a"
  using assms by (simp add: parse_listen_addr_def parse_host_port_text addr_wf_def)

lemma rfind_append: "c \<notin> set b \<Longrightarrow> rfind c (a @ c # b) = Some (length a)"
  by (simp add: rfind_def rsplit_once_append)

lemma rfind_less:
  assumes "c \<notin> set b" and "d \<noteq> c"
  shows "rfind c (a @ d # b) = rfind c a"
proof (cases "rsplit_once c a")
  case None
  then have "rsplit_once c (a @ d # b) = None" using assms by (simp add: rsplit_once_None)
  with None show ?thesis by (simp add: rfind_def)
next
  case (Some xy)
  then obtain x y where a: "a = x @ c # y" and "c \<notin> set y" by (cases xy) (auto dest: rsplit_once_Some)
  with assms rfind_append [of c "y @ d # b" x] rfind_append [of c y x] show ?thesis by simp
qed

lemma rfind_bound: "rfind c s = Some n \<Longrightarrow> n < length s"
  by (auto simp: rfind_def dest!: rsplit_once_Some)

lemma parse_serial_text:
  assumes "path \<noteq> []" and "baud \<noteq> 0"
  shows "parse_serial_body (path @ CHR '':'' # dec_word baud) = Inr (path, baud)"
proof (cases "rfind CHR '','' path")
  case None
  with assms show ?thesis by (simp add: parse_serial_body_def rfind_append rfind_less parse_dec_word)
next
  case (Some n)
  then have "max (length path) n = length path" using rfind_bound [of "CHR '',''" path n] by simp
  with Some assms show ?thesis by (simp add: parse_serial_body_def rfind_append rfind_less parse_dec_word)
qed

section \<open>Keys and values of the text\<close>

lemma join_chars: "c \<in> set (join_with d ss) \<Longrightarrow> c = d \<or> (\<exists>s \<in> set ss. c \<in> set s)"
  by (induction d ss rule: join_with.induct) auto

lemma list_texts_plain:
  "CHR ''&'' \<notin> set (show_msgid_ranges rs)" "CHR ''&'' \<notin> set (show_u8_ranges us)"
  "list_all name_matches_regex ns \<Longrightarrow> CHR ''&'' \<notin> set (join_with CHR '','' ns)"
proof -
  show *: "CHR ''&'' \<notin> set (show_msgid_ranges rs)" for rs
    using show_range_chars [of "CHR ''&''"]
    by (auto simp: show_msgid_ranges_def is_ascii_digit_def dest!: join_chars)
  show "CHR ''&'' \<notin> set (show_u8_ranges us)" unfolding show_u8_ranges_def by (rule *)
  show "list_all name_matches_regex ns \<Longrightarrow> CHR ''&'' \<notin> set (join_with CHR '','' ns)"
    by (auto simp: list_all_iff regex_no dest!: join_chars)
qed

lemma text_list_Some: "text_list to_text xs = Some v \<longleftrightarrow> xs \<noteq> [] \<and> v = to_text xs"
  by (auto simp: text_list_def)

lemma identity_values: "identity_wf i \<Longrightarrow> (k, Some v) \<in> set (identity_fields i) \<Longrightarrow> CHR ''&'' \<notin> set v"
  by (auto simp: identity_fields_def filter_fields_def identity_wf_def filters_wf_def text_list_Some eq_commute [of "Some v"]
      list_texts_plain regex_no split: if_splits)

lemma kind_values: "kind_wf kind \<Longrightarrow> (k, v) \<in> set (present (kind_fields kind)) \<Longrightarrow> CHR ''&'' \<notin> set v"
  by (cases kind) (auto simp: present_value eq_commute [of "Some v"] split: serial_flow_control.splits dest: identity_values)

lemma identity_field_keys: "map fst (identity_fields i) =
  [''allow_msgid_in'', ''block_msgid_in'', ''allow_msgid_out'', ''block_msgid_out'',
   ''allow_src_sys_in'', ''block_src_sys_in'', ''allow_src_sys_out'', ''block_src_sys_out'',
   ''allow_src_comp_in'', ''block_src_comp_in'', ''allow_src_comp_out'', ''block_src_comp_out'',
   ''allow_src_endpoint_out'', ''block_src_endpoint_out'', ''sniffer'', ''group'']"
  by (simp add: identity_fields_def filter_fields_def)

definition query_keys :: "string list" where
  "query_keys = [''flow_control'', ''idle_secs'', ''latch_idle_secs'', ''sniffer'', ''group'',
   ''allow_msgid_in'', ''block_msgid_in'', ''allow_msgid_out'', ''block_msgid_out'',
   ''allow_src_sys_in'', ''block_src_sys_in'', ''allow_src_sys_out'', ''block_src_sys_out'',
   ''allow_src_comp_in'', ''block_src_comp_in'', ''allow_src_comp_out'', ''block_src_comp_out'',
   ''allow_src_endpoint_out'', ''block_src_endpoint_out'']"

lemma query_keys_plain: "k \<in> set query_keys \<Longrightarrow> plain_key k"
  by (auto simp: query_keys_def plain_key_def to_ascii_lowercase_def to_ascii_lowercase_char_def)

lemma kind_keys: "distinct (map fst (kind_fields kind)) \<and> set (map fst (kind_fields kind)) \<subseteq> set query_keys"
proof -
  have "set (map fst (identity_fields i)) \<subseteq> set query_keys" "distinct (map fst (identity_fields i))" for i
    unfolding identity_field_keys query_keys_def by simp_all
  moreover have "''flow_control'' \<notin> set (map fst (identity_fields i))" "''idle_secs'' \<notin> set (map fst (identity_fields i))"
    "''latch_idle_secs'' \<notin> set (map fst (identity_fields i))" for i
    unfolding identity_field_keys by simp_all
  moreover have "''flow_control'' \<in> set query_keys" "''idle_secs'' \<in> set query_keys" "''latch_idle_secs'' \<in> set query_keys"
    unfolding query_keys_def by simp_all
  ultimately show ?thesis by (cases kind) auto
qed

lemma identity_extra:
  "''flow_control'' \<notin> set (map fst (identity_fields i))" "''idle_secs'' \<notin> set (map fst (identity_fields i))"
  "''latch_idle_secs'' \<notin> set (map fst (identity_fields i))"
  unfolding identity_field_keys by simp_all

lemma kind_reads_back:
  assumes "kind_wf kind"
  shows "parse_kind lev (kind_scheme kind) (kind_body kind) (present (kind_fields kind)) = Inr kind"
proof (cases kind)
  case (Kind_Serial e)
  with assms show ?thesis
    by (cases e; cases "sre_flow_control e")
      (simp_all add: parse_serial_text serial_set_def [of _ "''flow_control''"] parse_flow_control_def
        serial_id.reads_back [OF _ _ identity_extra(1)])
next
  case (Kind_UdpServer e)
  with assms show ?thesis
    by (cases e; cases "use_idle_secs e")
      (simp_all add: parse_listen_addr_text udp_server_set_def [of _ "''idle_secs''"] parse_u64_value_def parse_dec_word
        check_range_in secs_wf_def MIN_IDLE_SECS_def MAX_IDLE_SECS_def udps_id.reads_back [OF _ _ identity_extra(2)])
next
  case (Kind_UdpClient e)
  with assms show ?thesis
    by (cases e; cases "uce_latch_idle_secs e")
      (simp_all add: parse_host_port_text udp_client_set_def [of _ "''latch_idle_secs''"] parse_u64_value_def parse_dec_word
        check_range_in secs_wf_def MIN_LATCH_IDLE_SECS_def MAX_LATCH_IDLE_SECS_def
        udpc_id.reads_back [OF _ _ identity_extra(3)])
next
  case (Kind_TcpServer e)
  with assms show ?thesis by (simp add: parse_listen_addr_text identity_reads_back)
next
  case (Kind_TcpClient e)
  with assms show ?thesis by (simp add: parse_host_port_text identity_reads_back)
qed

lemma kind_body_plain: "kind_plain kind \<Longrightarrow> plain (kind_body kind)"
  using show_ip_host(2) by (cases kind) (auto simp: plain_def host_text_def)

lemma pairs_keep_address:
  "apply_pairs lev serial_set scheme pairs se = Inr se' \<Longrightarrow> sre_path se = a \<Longrightarrow> sre_path se' = a"
  "apply_pairs lev udp_client_set scheme pairs uc = Inr uc' \<Longrightarrow> uce_host uc = a \<Longrightarrow> uce_host uc' = a"
  subgoal by (rule apply_pairs_keeps [where P = "\<lambda>e. sre_path e = a"]) (auto simp: serial_set_def and_then_eq_Inr split: if_splits)
  subgoal by (rule apply_pairs_keeps [where P = "\<lambda>e. uce_host e = a"]) (auto simp: udp_client_set_def and_then_eq_Inr split: if_splits)
  done

lemma parse_kind_plain: "parse_kind lev scheme body pairs = Inr kind \<Longrightarrow> plain body \<Longrightarrow> kind_plain kind"
  by (induction lev scheme body pairs rule: parse_kind.induct)
    (auto simp: and_then_eq_Inr dest!: pairs_keep_address parse_serial_body_ne parse_host_port_wf)

lemma split_body_plain:
  "split_body_name_query rest = (body, name, query) \<Longrightarrow> CHR ''?'' \<notin> set body \<Longrightarrow> plain body"
  by (auto simp: split_body_name_query_def plain_def split_once_None split_once_Some split: option.splits)

lemma cli_text_reads_back:
  assumes "spec_wf spec" and "kind_plain (ep_kind spec)"
  shows "spec_parse lev (cli_text spec) = Inr spec"
proof -
  have "plain (kind_body (ep_kind spec))" using assms(2) by (rule kind_body_plain)
  moreover have "\<forall>(k, v) \<in> set (present (kind_fields (ep_kind spec))). plain_key k \<and> CHR ''&'' \<notin> set v"
  proof (intro ballI)
    fix kv
    assume kv: "kv \<in> set (present (kind_fields (ep_kind spec)))"
    then have "fst kv \<in> set query_keys"
      using kind_keys [of "ep_kind spec"] present_keys [of "kind_fields (ep_kind spec)"] by auto
    with kv assms(1) show "case kv of (k, v) \<Rightarrow> plain_key k \<and> CHR ''&'' \<notin> set v"
      by (cases kv) (auto simp: spec_wf_def dest: kind_values query_keys_plain)
  qed
  moreover have "distinct (map fst (present (kind_fields (ep_kind spec))))"
    using kind_keys present_distinct by blast
  ultimately have "spec_parse lev (cli_text spec)
    = spec_build lev (kind_scheme (ep_kind spec)) (kind_body (ep_kind spec)) (Some (ep_name spec)) (present (kind_fields (ep_kind spec)))"
    using assms(1) by (simp add: cli_text_def parse_cli_form spec_wf_def regex_no)
  with assms(1) show ?thesis
    by (simp add: spec_build_def kind_reads_back spec_wf_def validate_name_def)
qed

definition demo_spec :: endpoint_spec where
  "demo_spec =
     \<lparr>ep_kind = Kind_UdpServer \<lparr>use_bind_addr = SocketV4 (Ipv4 0 0 0 0) 14550, use_idle_secs = Some 30,
        use_identity = identity_default\<lparr>if_filters := filters_default\<lparr>block_msgid_in := [\<lparr>mr_lo = 33, mr_hi = 33\<rparr>, \<lparr>mr_lo = 100, mr_hi = 150\<rparr>],
          allow_src_endpoint_out := [''fc'']\<rparr>, if_group := Some ''uplink''\<rparr>\<rparr>,
      ep_name = ''bus''\<rparr>"

lemma demo_numbers:
  "dec_word (30 :: u64) = ''30''" "dec_word (14550 :: u16) = ''14550''" "dec_word (0 :: u8) = ''0''"
  "show_msgid_ranges [\<lparr>mr_lo = 33, mr_hi = 33\<rparr>, \<lparr>mr_lo = 100, mr_hi = 150\<rparr>] = ''33,100-150''"
  by (simp_all add: show_msgid_ranges_def show_msgid_range_def dec_word_def dec.simps digit_char_def char_of_eq_iff)

lemma demo_spec_text:
  "cli_text demo_spec = ''udps:0.0.0.0:14550#bus?idle_secs=30&block_msgid_in=33,100-150&allow_src_endpoint_out=fc&group=uplink''"
  by (simp add: cli_text_def cli_form_def demo_spec_def identity_fields_def filter_fields_def text_list_def identity_default_def
      filters_default_def query_text_def host_text_def demo_numbers)

lemma demo_spec_wf: "spec_wf demo_spec" "kind_plain (ep_kind demo_spec)"
  by (simp_all add: spec_wf_def demo_spec_def identity_wf_def filters_wf_def identity_default_def filters_default_def
      secs_wf_def addr_wf_def name_matches_regex_def is_ascii_alphanumeric_def)

section \<open>Properties\<close>

text \<open>
  C18. Every endpoint text the parser accepts denotes a well-formed endpoint of the scheme it
  names: its name, its group and the endpoints its filters name satisfy the naming rule, also
  when the name is derived from the address; every filter range has its bounds in order; the
  idle times lie between a second and a day; the baud rate is not zero; and host and path are
  not empty.
\<close>

theorem accepted_endpoint_is_well_formed:
  assumes "spec_parse lev input = Inr spec"
  shows "spec_wf spec \<and> kind_plain (ep_kind spec) \<and> (\<exists>rest. input = scheme_as_str (kind_scheme (ep_kind spec)) @ CHR '':'' # rest)"
proof -
  obtain scheme_str rest body nm q pairs scheme where split: "split_once CHR '':'' input = Some (scheme_str, rest)"
    and scheme: "scheme_from_cli_prefix scheme_str = Inr scheme"
    and body: "split_body_name_query rest = (body, nm, q)" "CHR ''?'' \<notin> set body"
    and built: "spec_build lev scheme body nm pairs = Inr spec"
    using assms by (auto simp: spec_parse_def and_then_eq_Inr Let_def split: prod.splits if_splits)
  from built obtain kind where kind: "parse_kind lev scheme body pairs = Inr kind" "ep_kind spec = kind"
    and "name_matches_regex (ep_name spec)"
    by (auto simp: spec_build_def and_then_eq_Inr validate_name_def default_name_matches split: option.splits if_splits)
  with parse_kind_wf have "spec_wf spec" and "kind_scheme (ep_kind spec) = scheme" by (auto simp: spec_wf_def)
  moreover have "kind_plain (ep_kind spec)"
    using parse_kind_plain [OF kind(1) split_body_plain [OF body]] kind(2) by simp
  ultimately show ?thesis using split scheme
    by (auto simp: split_once_Some scheme_from_cli_prefix_def scheme_try_from_str_Some)
qed

theorem accepted_endpoint_is_well_formed_witness:
  "spec_parse (\<lambda>_ _. 0) ''udps:0.0.0.0:14550#bus?idle_secs=30&block_msgid_in=33,100-150&allow_src_endpoint_out=fc&group=uplink'' = Inr demo_spec
   \<and> spec_wf demo_spec"
proof -
  have "spec_parse (\<lambda>_ _. 0) ''udps:0.0.0.0:14550#bus?idle_secs=30&block_msgid_in=33,100-150&allow_src_endpoint_out=fc&group=uplink'' = Inr demo_spec"
    using cli_text_reads_back [OF demo_spec_wf] by (simp only: demo_spec_text)
  with accepted_endpoint_is_well_formed [OF this] show ?thesis by simp
qed

text \<open>
  C15. Every well-formed endpoint can be written down: its canonical text, with the address in
  brackets where it holds a colon and a key for everything that differs from the default, is
  accepted and denotes exactly that endpoint, whatever its filters, group and timers are.
\<close>

theorem endpoint_text_round_trip:
  assumes "spec_wf spec" and "kind_plain (ep_kind spec)"
  shows "spec_parse lev (cli_text spec) = Inr spec"
  using assms by (rule cli_text_reads_back)

theorem endpoint_text_round_trip_witness:
  "spec_parse (\<lambda>_ _. 0) ''udps:0.0.0.0:14550#bus?idle_secs=30&block_msgid_in=33,100-150&allow_src_endpoint_out=fc&group=uplink'' = Inr demo_spec"
  using endpoint_text_round_trip [OF demo_spec_wf] by (simp only: demo_spec_text)

end
