(* ===== verification/Toml_Config.thy ===== *)
theory Toml_Config
  imports Endpoint_Spec_Correct
begin

text \<open>
  The errors of the configuration (\<^verbatim>\<open>src/error.rs\<close>) and the TOML source of it
  (\<^verbatim>\<open>src/parsers/toml.rs\<close>). Reading the file and the \<^verbatim>\<open>toml\<close> crate with the schema that serde
  derives are parameters: a text gives the globals and the endpoint table with its entries in
  the order of appearance, an entry gives the typed fields.
\<close>

section \<open>Errors and globals\<close>

datatype ('io, 't) rmr_error =
    SpecInArg nat string spec_error
  | SpecInToml string spec_error
  | DuplicateName string
  | ConfigIo string 'io
  | ConfigParse 't
  | ConfigSchema string string
  | DedupMsTooLarge u64 u64
  | StatsIntervalTooSmall u64 u64
  | FilterReferencesUnknownEndpoint string string string

datatype log_level = Log_Trace | Log_Debug | Log_Info | Log_Warn | Log_Error

datatype log_format = Format_Text | Format_Json

record toml_config =
  tml_log_level :: "log_level option"
  tml_log_format :: "log_format option"
  tml_stats :: "bool option"
  tml_stats_interval_secs :: "u64 option"
  tml_dedup_ms :: "u64 option"
  tml_skip_config_log :: "bool option"
  tml_endpoints :: "endpoint_spec list"

definition toml_config_default :: toml_config where
  "toml_config_default =
     \<lparr>tml_log_level = None, tml_log_format = None, tml_stats = None, tml_stats_interval_secs = None,
      tml_dedup_ms = None, tml_skip_config_log = None, tml_endpoints = []\<rparr>"

definition toml_has_values :: "toml_config \<Rightarrow> bool" where
  "toml_has_values t =
     (tml_log_level t \<noteq> None \<or> tml_log_format t \<noteq> None \<or> tml_stats t \<noteq> None \<or> tml_stats_interval_secs t \<noteq> None
      \<or> tml_dedup_ms t \<noteq> None \<or> tml_skip_config_log t \<noteq> None \<or> tml_endpoints t \<noteq> [])"

section \<open>The schema of the file\<close>

record 'v toml_file =
  tf_log_level :: "log_level option"
  tf_log_format :: "log_format option"
  tf_stats :: "bool option"
  tf_stats_interval_secs :: "u64 option"
  tf_dedup_ms :: "u64 option"
  tf_skip_config_log :: "bool option"
  tf_endpoint :: "(string \<times> 'v) list"

record toml_endpoint =
  te_scheme :: string
  te_path :: "string option"
  te_baud :: "u32 option"
  te_flow_control :: "string option"
  te_bind :: "string option"
  te_host :: "string option"
  te_port :: "u16 option"
  te_idle_secs :: "u64 option"
  te_latch_idle_secs :: "u64 option"
  te_sniffer :: "bool option"
  te_group :: "string option"
  te_allow_msgid_in :: "string option"
  te_block_msgid_in :: "string option"
  te_allow_msgid_out :: "string option"
  te_block_msgid_out :: "string option"
  te_allow_src_sys_in :: "string option"
  te_block_src_sys_in :: "string option"
  te_allow_src_sys_out :: "string option"
  te_block_src_sys_out :: "string option"
  te_allow_src_comp_in :: "string option"
  te_block_src_comp_in :: "string option"
  te_allow_src_comp_out :: "string option"
  te_block_src_comp_out :: "string option"
  te_allow_src_endpoint_out :: "string option"
  te_block_src_endpoint_out :: "string option"

text \<open>Code outside the repository: the edit distance, the file system, and the \<^verbatim>\<open>toml\<close> crate.\<close>

record ('io, 't, 'v) config_env =
  cv_levenshtein :: "string \<Rightarrow> string \<Rightarrow> nat"
  cv_read_to_string :: "string \<Rightarrow> ('io, string) res"
  cv_from_str :: "string \<Rightarrow> ('t, 'v toml_file) res"
  cv_try_into :: "'v \<Rightarrow> ('t, toml_endpoint) res"

fun join_text :: "string \<Rightarrow> string list \<Rightarrow> string" where
  "join_text sep [] = []"
| "join_text sep [s] = s"
| "join_text sep (s # t # ss) = s @ sep @ join_text sep (t # ss)"

section \<open>One entry\<close>

definition missing_field :: "string \<Rightarrow> scheme \<Rightarrow> string \<Rightarrow> ('io, 't) rmr_error" where
  "missing_field name scheme field =
     ConfigSchema name (''type '' @ quoted (scheme_as_str scheme) @ '' requires field '' @ quoted field)"

definition scheme_from_toml_type :: "string \<Rightarrow> string \<Rightarrow> (('io, 't) rmr_error, scheme) res" where
  "scheme_from_toml_type raw name =
     ok_or (scheme_try_from_str raw)
       (ConfigSchema name (''unknown endpoint type '' @ quoted raw @ '' (valid: serial, udps, udpc, tcps, tcpc)''))"

fun allowed_fields :: "scheme \<Rightarrow> string list" where
  "allowed_fields Scheme_Serial = [''path'', ''baud'', ''flow_control'']"
| "allowed_fields Scheme_UdpServer = [''bind'', ''idle_secs'']"
| "allowed_fields Scheme_TcpServer = [''bind'']"
| "allowed_fields Scheme_UdpClient = [''host'', ''port'', ''latch_idle_secs'']"
| "allowed_fields Scheme_TcpClient = [''host'', ''port'']"

definition reject_disallowed_fields :: "toml_endpoint \<Rightarrow> string \<Rightarrow> scheme \<Rightarrow> (('io, 't) rmr_error, unit) res" where
  "reject_disallowed_fields e name scheme =
     (let allowed = allowed_fields scheme;
          provided =
            [(''path'', te_path e \<noteq> None), (''baud'', te_baud e \<noteq> None), (''flow_control'', te_flow_control e \<noteq> None),
             (''bind'', te_bind e \<noteq> None), (''host'', te_host e \<noteq> None), (''port'', te_port e \<noteq> None),
             (''idle_secs'', te_idle_secs e \<noteq> None), (''latch_idle_secs'', te_latch_idle_secs e \<noteq> None)]
      in case find (\<lambda>(field, is_present). is_present \<and> field \<notin> set allowed) provided of
           Some (field, _) \<Rightarrow>
             Inl (ConfigSchema name
               (''field '' @ quoted field @ '' is not valid for type '' @ quoted (scheme_as_str scheme)
                @ '' (allowed fields: '' @ join_text '', '' allowed @ '')''))
         | None \<Rightarrow> Inr ())"

definition dial_body :: "toml_endpoint \<Rightarrow> string \<Rightarrow> scheme \<Rightarrow> (('io, 't) rmr_error, string) res" where
  "dial_body e name scheme =
     and_then (ok_or (te_host e) (missing_field name scheme ''host'')) (\<lambda>host.
     and_then (ok_or (te_port e) (missing_field name scheme ''port'')) (\<lambda>port.
       if CHR '':'' \<in> set host then Inr (''['' @ host @ '']:'' @ dec_word port)
       else Inr (host @ '':'' @ dec_word port)))"

fun synthesize_body :: "toml_endpoint \<Rightarrow> string \<Rightarrow> scheme \<Rightarrow> (('io, 't) rmr_error, string) res" where
  "synthesize_body e name Scheme_Serial =
     and_then (ok_or (te_path e) (missing_field name Scheme_Serial ''path'')) (\<lambda>path.
     and_then (ok_or (te_baud e) (missing_field name Scheme_Serial ''baud'')) (\<lambda>baud.
       Inr (path @ '':'' @ dec_word baud)))"
| "synthesize_body e name Scheme_UdpServer = ok_or (te_bind e) (missing_field name Scheme_UdpServer ''bind'')"
| "synthesize_body e name Scheme_TcpServer = ok_or (te_bind e) (missing_field name Scheme_TcpServer ''bind'')"
| "synthesize_body e name Scheme_UdpClient = dial_body e name Scheme_UdpClient"
| "synthesize_body e name Scheme_TcpClient = dial_body e name Scheme_TcpClient"

definition collect_pairs :: "toml_endpoint \<Rightarrow> (string \<times> string) list" where
  "collect_pairs e = present
     [(''flow_control'', te_flow_control e),
      (''idle_secs'', map_option dec_word (te_idle_secs e)),
      (''latch_idle_secs'', map_option dec_word (te_latch_idle_secs e)),
      (''sniffer'', map_option (\<lambda>b. if b then ''true'' else ''false'') (te_sniffer e)),
      (''group'', te_group e),
      (''allow_msgid_in'', te_allow_msgid_in e),
      (''block_msgid_in'', te_block_msgid_in e),
      (''allow_msgid_out'', te_allow_msgid_out e),
      (''block_msgid_out'', te_block_msgid_out e),
      (''allow_src_sys_in'', te_allow_src_sys_in e),
      (''block_src_sys_in'', te_block_src_sys_in e),
      (''allow_src_sys_out'', te_allow_src_sys_out e),
      (''block_src_sys_out'', te_block_src_sys_out e),
      (''allow_src_comp_in'', te_allow_src_comp_in e),
      (''block_src_comp_in'', te_block_src_comp_in e),
      (''allow_src_comp_out'', te_allow_src_comp_out e),
      (''block_src_comp_out'', te_block_src_comp_out e),
      (''allow_src_endpoint_out'', te_allow_src_endpoint_out e),
      (''block_src_endpoint_out'', te_block_src_endpoint_out e)]"

definition toml_into_spec ::
  "(string \<Rightarrow> string \<Rightarrow> nat) \<Rightarrow> toml_endpoint \<Rightarrow> string \<Rightarrow> (('io, 't) rmr_error, endpoint_spec) res" where
  "toml_into_spec levenshtein e name =
     and_then (scheme_from_toml_type (te_scheme e) name) (\<lambda>scheme.
     and_then (reject_disallowed_fields e name scheme) (\<lambda>_.
     and_then (synthesize_body e name scheme) (\<lambda>body.
       map_err (SpecInToml name) (spec_build levenshtein scheme body (Some name) (collect_pairs e)))))"

section \<open>The file\<close>

definition into_toml_config :: "('io, 't, 'v) config_env \<Rightarrow> 'v toml_file \<Rightarrow> (('io, 't) rmr_error, toml_config) res" where
  "into_toml_config env file =
     and_then (collect (\<lambda>(name, value).
         and_then (map_err ConfigParse (cv_try_into env value)) (\<lambda>entry. toml_into_spec (cv_levenshtein env) entry name))
       (tf_endpoint file))
     (\<lambda>endpoints.
       Inr \<lparr>tml_log_level = tf_log_level file, tml_log_format = tf_log_format file, tml_stats = tf_stats file,
            tml_stats_interval_secs = tf_stats_interval_secs file, tml_dedup_ms = tf_dedup_ms file,
            tml_skip_config_log = tf_skip_config_log file, tml_endpoints = endpoints\<rparr>)"

definition toml_parse_str :: "('io, 't, 'v) config_env \<Rightarrow> string \<Rightarrow> (('io, 't) rmr_error, toml_config) res" where
  "toml_parse_str env s = and_then (map_err ConfigParse (cv_from_str env s)) (into_toml_config env)"

definition toml_from_path :: "('io, 't, 'v) config_env \<Rightarrow> string \<Rightarrow> (('io, 't) rmr_error, toml_config) res" where
  "toml_from_path env path =
     and_then (map_err (ConfigIo path) (cv_read_to_string env path)) (toml_parse_str env)"

section \<open>Lemmas\<close>

lemma spec_build_wf: "spec_build lev scheme body name pairs = Inr spec \<Longrightarrow> spec_wf spec"
  by (cases name) (auto simp: spec_build_def and_then_eq_Inr validate_name_def default_name_matches spec_wf_def
      dest: parse_kind_wf split: if_splits)

lemma toml_into_spec_wf: "toml_into_spec lev e name = Inr spec \<Longrightarrow> spec_wf spec \<and> ep_name spec = name"
  by (auto simp: toml_into_spec_def and_then_eq_Inr dest: spec_build_wf)
    (auto simp: spec_build_def and_then_eq_Inr)

lemma into_toml_config_wf: "into_toml_config env fl = Inr t \<Longrightarrow> list_all spec_wf (tml_endpoints t)"
  by (auto simp: into_toml_config_def list_all_iff and_then_eq_Inr dest!: collect_set toml_into_spec_wf)

lemma toml_from_path_wf: "toml_from_path env path = Inr t \<Longrightarrow> list_all spec_wf (tml_endpoints t)"
  by (auto simp: toml_from_path_def toml_parse_str_def and_then_eq_Inr dest: into_toml_config_wf)

lemma toml_keys: "distinct (map fst (collect_pairs e)) \<and> set (map fst (collect_pairs e)) \<subseteq> set query_keys"
proof -
  let ?kvs = "[(''flow_control'', te_flow_control e),
      (''idle_secs'', map_option dec_word (te_idle_secs e)),
      (''latch_idle_secs'', map_option dec_word (te_latch_idle_secs e)),
      (''sniffer'', map_option (\<lambda>b. if b then ''true'' else ''false'') (te_sniffer e)),
      (''group'', te_group e),
      (''allow_msgid_in'', te_allow_msgid_in e),
      (''block_msgid_in'', te_block_msgid_in e),
      (''allow_msgid_out'', te_allow_msgid_out e),
      (''block_msgid_out'', te_block_msgid_out e),
      (''allow_src_sys_in'', te_allow_src_sys_in e),
      (''block_src_sys_in'', te_block_src_sys_in e),
      (''allow_src_sys_out'', te_allow_src_sys_out e),
      (''block_src_sys_out'', te_block_src_sys_out e),
      (''allow_src_comp_in'', te_allow_src_comp_in e),
      (''block_src_comp_in'', te_block_src_comp_in e),
      (''allow_src_comp_out'', te_allow_src_comp_out e),
      (''block_src_comp_out'', te_block_src_comp_out e),
      (''allow_src_endpoint_out'', te_allow_src_endpoint_out e),
      (''block_src_endpoint_out'', te_block_src_endpoint_out e)]"
  have "map fst ?kvs = query_keys" by (simp add: query_keys_def)
  moreover have "distinct query_keys" by (simp add: query_keys_def)
  ultimately show ?thesis
    using present_distinct [of ?kvs] present_keys [of ?kvs] unfolding collect_pairs_def by argo
qed

definition demo_entry :: toml_endpoint where
  "demo_entry =
     \<lparr>te_scheme = ''udps'', te_path = None, te_baud = None, te_flow_control = None, te_bind = Some ''0.0.0.0:14550'', te_host = None,
      te_port = None, te_idle_secs = Some 30, te_latch_idle_secs = None, te_sniffer = None, te_group = Some ''uplink'',
      te_allow_msgid_in = None, te_block_msgid_in = Some ''33,100-150'', te_allow_msgid_out = None, te_block_msgid_out = None, te_allow_src_sys_in = None, te_block_src_sys_in = None, te_allow_src_sys_out = None, te_block_src_sys_out = None, te_allow_src_comp_in = None, te_block_src_comp_in = None, te_allow_src_comp_out = None, te_block_src_comp_out = None, te_allow_src_endpoint_out = None, te_block_src_endpoint_out = None\<rparr>"

lemma demo_entry_simps:
  "te_scheme demo_entry = ''udps''" "te_bind demo_entry = Some ''0.0.0.0:14550''"
  "scheme_from_toml_type ''udps'' name = Inr Scheme_UdpServer"
  "reject_disallowed_fields demo_entry name Scheme_UdpServer = Inr ()"
  "collect_pairs demo_entry = [(''idle_secs'', ''30''), (''group'', ''uplink''), (''block_msgid_in'', ''33,100-150'')]"
  by (simp_all add: demo_entry_def reject_disallowed_fields_def collect_pairs_def demo_numbers
      scheme_from_toml_type_def scheme_try_from_str_def)

section \<open>Properties\<close>

text \<open>
  C19. The two ways to declare an endpoint agree: an entry of the TOML file whose type and
  fields fit together is read exactly as the command-line text made of the same type, address,
  name and keys, down to the error, which is only tagged with the entry's name. The texts may
  be any that the command-line syntax can carry.
\<close>

theorem toml_and_cli_agree:
  fixes e :: toml_endpoint
  assumes "scheme_from_toml_type (te_scheme e) name = (Inr scheme :: (('io, 't) rmr_error, scheme) res)"
    and "reject_disallowed_fields e name scheme = (Inr () :: (('io, 't) rmr_error, unit) res)"
    and "synthesize_body e name scheme = (Inr body :: (('io, 't) rmr_error, string) res)"
    and "plain body" and "CHR ''?'' \<notin> set name" and "\<forall>(k, v) \<in> set (collect_pairs e). CHR ''&'' \<notin> set v"
  shows "toml_into_spec lev e name =
    map_err (SpecInToml name :: spec_error \<Rightarrow> ('io, 't) rmr_error) (spec_parse lev (cli_form scheme body name (collect_pairs e)))"
proof -
  have "\<forall>(k, v) \<in> set (collect_pairs e). plain_key k \<and> CHR ''&'' \<notin> set v"
    using assms(6) toml_keys [of e] by (auto intro!: query_keys_plain)
  then have "spec_parse lev (cli_form scheme body name (collect_pairs e)) = spec_build lev scheme body (Some name) (collect_pairs e)"
    using assms(4,5) toml_keys [of e] by (intro parse_cli_form) auto
  with assms(1-3) show ?thesis by (simp add: toml_into_spec_def)
qed

theorem toml_and_cli_agree_witness:
  "(toml_into_spec (\<lambda>_ _. 0) demo_entry ''bus'' :: ((unit, unit) rmr_error, endpoint_spec) res) =
     map_err (SpecInToml ''bus'')
       (spec_parse (\<lambda>_ _. 0) ''udps:0.0.0.0:14550#bus?idle_secs=30&group=uplink&block_msgid_in=33,100-150'')"
proof -
  have "cli_form Scheme_UdpServer ''0.0.0.0:14550'' ''bus'' (collect_pairs demo_entry)
      = ''udps:0.0.0.0:14550#bus?idle_secs=30&group=uplink&block_msgid_in=33,100-150''"
    by (simp add: cli_form_def query_text_def demo_entry_simps)
  then show ?thesis
    using toml_and_cli_agree [of demo_entry "''bus''" Scheme_UdpServer "''0.0.0.0:14550''" "\<lambda>_ _. 0"]
    by (simp add: demo_entry_simps plain_def)
qed

end
