(* ===== verification/Config.thy ===== *)
theory Config
  imports Toml_Config
begin

text \<open>
  The command line (\<^verbatim>\<open>src/parsers/cli.rs\<close>), the merge of the two configuration sources and its
  validation (\<^verbatim>\<open>src/config.rs\<close>), and the way from both to a running router in \<^verbatim>\<open>src/main.rs\<close>. What
  \<^verbatim>\<open>clap\<close> makes of the arguments is an input; log output is left out.
\<close>

section \<open>The command line\<close>

record cli =
  arg_config :: "string option"
  arg_log_level :: "log_level option"
  arg_log_format :: "log_format option"
  arg_stats :: bool
  arg_stats_interval_secs :: "u64 option"
  arg_dedup_ms :: "u64 option"
  arg_skip_config_log :: bool
  arg_dry_run :: bool
  arg_endpoints :: "string list"

record cli_config =
  clc_log_level :: "log_level option"
  clc_log_format :: "log_format option"
  clc_stats :: "bool option"
  clc_stats_interval_secs :: "u64 option"
  clc_dedup_ms :: "u64 option"
  clc_skip_config_log :: "bool option"
  clc_endpoints :: "endpoint_spec list"

definition cli_has_values :: "cli_config \<Rightarrow> bool" where
  "cli_has_values c =
     (clc_log_level c \<noteq> None \<or> clc_log_format c \<noteq> None \<or> clc_stats c \<noteq> None \<or> clc_stats_interval_secs c \<noteq> None
      \<or> clc_dedup_ms c \<noteq> None \<or> clc_skip_config_log c \<noteq> None \<or> clc_endpoints c \<noteq> [])"

fun parse_specs_from ::
  "(string \<Rightarrow> string \<Rightarrow> nat) \<Rightarrow> nat \<Rightarrow> string list \<Rightarrow> (('io, 't) rmr_error, endpoint_spec list) res" where
  "parse_specs_from levenshtein index [] = Inr []"
| "parse_specs_from levenshtein index (arg # raw) =
     and_then (map_err (SpecInArg index arg) (spec_parse levenshtein arg)) (\<lambda>spec.
     and_then (parse_specs_from levenshtein (Suc index) raw) (\<lambda>specs. Inr (spec # specs)))"

definition parse_specs :: "(string \<Rightarrow> string \<Rightarrow> nat) \<Rightarrow> string list \<Rightarrow> (('io, 't) rmr_error, endpoint_spec list) res" where
  "parse_specs levenshtein raw = parse_specs_from levenshtein 0 raw"

definition into_cli_config :: "(string \<Rightarrow> string \<Rightarrow> nat) \<Rightarrow> cli \<Rightarrow> (('io, 't) rmr_error, cli_config) res" where
  "into_cli_config levenshtein c =
     and_then (parse_specs levenshtein (arg_endpoints c)) (\<lambda>endpoints.
       Inr \<lparr>clc_log_level = arg_log_level c, clc_log_format = arg_log_format c,
            clc_stats = (if arg_stats c then Some True else None),
            clc_stats_interval_secs = arg_stats_interval_secs c, clc_dedup_ms = arg_dedup_ms c,
            clc_skip_config_log = (if arg_skip_config_log c then Some True else None),
            clc_endpoints = endpoints\<rparr>)"

section \<open>The resolved configuration\<close>

definition DEFAULT_STATS_INTERVAL_SECS :: u64 where
  "DEFAULT_STATS_INTERVAL_SECS = 5"

definition MIN_STATS_INTERVAL_SECS :: u64 where
  "MIN_STATS_INTERVAL_SECS = 1"

definition DEFAULT_DEDUP_MS :: u64 where
  "DEFAULT_DEDUP_MS = 0"

definition MAX_DEDUP_MS :: u64 where
  "MAX_DEDUP_MS = 10000"

record config =
  cfg_log_level :: log_level
  cfg_log_format :: log_format
  cfg_stats :: bool
  cfg_stats_interval_secs :: u64
  cfg_dedup_ms :: u64
  cfg_skip_config_log :: bool
  cfg_endpoints :: "endpoint_spec list"
  cfg_merged :: bool

record merge_outcome =
  mo_config :: config
  mo_overridden_names :: "string list"

fun check_names :: "string list \<Rightarrow> endpoint_spec list \<Rightarrow> (('io, 't) rmr_error, unit) res" where
  "check_names seen [] = Inr ()"
| "check_names seen (endpoint # endpoints) =
     (if ep_name endpoint \<in> set seen then Inl (DuplicateName (ep_name endpoint))
      else check_names (ep_name endpoint # seen) endpoints)"

definition check_unique_names :: "endpoint_spec list \<Rightarrow> (('io, 't) rmr_error, unit) res" where
  "check_unique_names endpoints = check_names [] endpoints"

definition validate_endpoint_references :: "endpoint_spec list \<Rightarrow> (('io, 't) rmr_error, unit) res" where
  "validate_endpoint_references endpoints =
     (let known = map ep_name endpoints;
          entries = concat (map (\<lambda>endpoint. map (\<lambda>(axis, referenced). (ep_name endpoint, axis, referenced))
            (src_endpoint_out_entries (if_filters (kind_identity (ep_kind endpoint))))) endpoints)
      in case find (\<lambda>(name, axis, referenced). referenced \<notin> set known) entries of
           Some (name, axis, referenced) \<Rightarrow> Inl (FilterReferencesUnknownEndpoint name axis referenced)
         | None \<Rightarrow> Inr ())"

definition merge_endpoints :: "endpoint_spec list \<Rightarrow> endpoint_spec list \<Rightarrow> endpoint_spec list \<times> string list" where
  "merge_endpoints toml_endpoints cli_endpoints =
     (let cli_names = map ep_name cli_endpoints
      in (filter (\<lambda>endpoint. ep_name endpoint \<notin> set cli_names) toml_endpoints @ cli_endpoints,
          map ep_name (filter (\<lambda>endpoint. ep_name endpoint \<in> set cli_names) toml_endpoints)))"

definition config_validate :: "config \<Rightarrow> (('io, 't) rmr_error, unit) res" where
  "config_validate c =
     (if cfg_dedup_ms c > MAX_DEDUP_MS then Inl (DedupMsTooLarge (cfg_dedup_ms c) MAX_DEDUP_MS)
      else if cfg_stats_interval_secs c < MIN_STATS_INTERVAL_SECS
      then Inl (StatsIntervalTooSmall (cfg_stats_interval_secs c) MIN_STATS_INTERVAL_SECS)
      else and_then (check_unique_names (cfg_endpoints c)) (\<lambda>_. validate_endpoint_references (cfg_endpoints c)))"

text \<open>\<^verbatim>\<open>Option::or\<close> followed by \<^verbatim>\<open>unwrap_or\<close>.\<close>

definition first_of :: "'a option \<Rightarrow> 'a option \<Rightarrow> 'a \<Rightarrow> 'a" where
  "first_of a b d = (case a of Some x \<Rightarrow> x | None \<Rightarrow> (case b of Some y \<Rightarrow> y | None \<Rightarrow> d))"

definition config_merge :: "toml_config option \<Rightarrow> cli_config \<Rightarrow> (('io, 't) rmr_error, merge_outcome) res" where
  "config_merge toml_opt c =
     (let t = (case toml_opt of Some t \<Rightarrow> t | None \<Rightarrow> toml_config_default)
      in and_then (check_unique_names (tml_endpoints t)) (\<lambda>_.
         and_then (check_unique_names (clc_endpoints c)) (\<lambda>_.
           let merged = (toml_has_values t \<and> cli_has_values c);
               (endpoints, overridden_names) = merge_endpoints (tml_endpoints t) (clc_endpoints c);
               config = \<lparr>cfg_log_level = first_of (clc_log_level c) (tml_log_level t) Log_Info,
                 cfg_log_format = first_of (clc_log_format c) (tml_log_format t) Format_Text,
                 cfg_stats = first_of (clc_stats c) (tml_stats t) False,
                 cfg_stats_interval_secs = first_of (clc_stats_interval_secs c) (tml_stats_interval_secs t) DEFAULT_STATS_INTERVAL_SECS,
                 cfg_dedup_ms = first_of (clc_dedup_ms c) (tml_dedup_ms t) DEFAULT_DEDUP_MS,
                 cfg_skip_config_log = first_of (clc_skip_config_log c) (tml_skip_config_log t) False,
                 cfg_endpoints = endpoints, cfg_merged = merged\<rparr>
           in and_then (config_validate config) (\<lambda>_.
                Inr \<lparr>mo_config = config, mo_overridden_names = overridden_names\<rparr>))))"

section \<open>Start-up\<close>

datatype ('io, 't) startup =
    Refused "('io, 't) rmr_error"
  | No_Endpoint
  | Dry_Run merge_outcome
  | Start merge_outcome

definition main_startup :: "('io, 't, 'v) config_env \<Rightarrow> cli \<Rightarrow> ('io, 't) startup" where
  "main_startup env c =
     (case (case arg_config c of
              Some path \<Rightarrow> and_then (toml_from_path env path) (\<lambda>t. Inr (Some t))
            | None \<Rightarrow> Inr None) of
        Inl err \<Rightarrow> Refused err
      | Inr t \<Rightarrow>
          (case into_cli_config (cv_levenshtein env) c of
             Inl err \<Rightarrow> Refused err
           | Inr cli_cfg \<Rightarrow>
               (case config_merge t cli_cfg of
                  Inl err \<Rightarrow> Refused err
                | Inr outcome \<Rightarrow>
                    if \<not> arg_dry_run c \<and> cfg_endpoints (mo_config outcome) = [] then No_Endpoint
                    else if arg_dry_run c then Dry_Run outcome
                    else Start outcome)))"

section \<open>Lemmas\<close>

lemma parse_specs_from_wf: "parse_specs_from lev i raw = Inr specs \<Longrightarrow> list_all spec_wf specs"
proof (induction raw arbitrary: i specs)
  case (Cons arg raw)
  then show ?case
    by (auto simp: and_then_eq_Inr spec_parse_def Let_def dest: spec_build_wf split: prod.splits if_splits)
qed simp

lemma into_cli_config_wf: "into_cli_config lev c = Inr r \<Longrightarrow> list_all spec_wf (clc_endpoints r)"
  by (auto simp: into_cli_config_def and_then_eq_Inr parse_specs_def dest: parse_specs_from_wf)

lemma check_names_ok:
  "check_names seen es = Inr () \<longleftrightarrow> distinct (map ep_name es) \<and> set (map ep_name es) \<inter> set seen = {}"
  by (induction es arbitrary: seen) auto

lemma check_unique_names_ok: "check_unique_names es = Inr () \<longleftrightarrow> distinct (map ep_name es)"
  by (simp add: check_unique_names_def check_names_ok)

lemma check_unique_names_distinct: "distinct (map ep_name es) \<Longrightarrow> check_unique_names es = Inr ()"
  by (simp add: check_unique_names_ok)

lemma check_unique_names_repeat:
  assumes "\<not> distinct (map ep_name es)"
  obtains err where "check_unique_names es = (Inl err :: (('io, 't) rmr_error, unit) res)"
  using assms by (cases "check_unique_names es :: (('io, 't) rmr_error, unit) res") (auto simp: check_unique_names_ok)

text \<open>The endpoints a configuration's filters name, and whether all of them are declared.\<close>

definition references :: "endpoint_spec set \<Rightarrow> string set" where
  "references es = (\<Union>e \<in> es. let f = if_filters (kind_identity (ep_kind e)) in set (allow_src_endpoint_out f) \<union> set (block_src_endpoint_out f))"

lemma references_entries:
  "references (set es) = (\<Union>e \<in> set es. snd ` set (src_endpoint_out_entries (if_filters (kind_identity (ep_kind e)))))"
  by (simp add: references_def src_endpoint_out_entries_def image_Un image_image Let_def)

lemma references_ok: "validate_endpoint_references es = Inr () \<longleftrightarrow> references (set es) \<subseteq> set (map ep_name es)"
proof -
  let ?entries = "concat (map (\<lambda>e. map (\<lambda>(axis, referenced). (ep_name e, axis, referenced))
            (src_endpoint_out_entries (if_filters (kind_identity (ep_kind e))))) es)"
  let ?bad = "\<lambda>(name :: string, axis :: string, referenced). referenced \<notin> set (map ep_name es)"
  have "validate_endpoint_references es = Inr () \<longleftrightarrow> find ?bad ?entries = None"
    by (auto simp: validate_endpoint_references_def Let_def split: option.splits)
  also have "\<dots> \<longleftrightarrow> (\<forall>x \<in> set ?entries. snd (snd x) \<in> set (map ep_name es))"
  proof -
    have "?bad x \<longleftrightarrow> snd (snd x) \<notin> set (map ep_name es)" for x by (cases x) auto
    then show ?thesis unfolding find_None_iff by blast
  qed
  also have "\<dots> \<longleftrightarrow> references (set es) \<subseteq> set (map ep_name es)"
    unfolding references_entries by (simp add: case_prod_beta UN_subset_iff image_subset_iff)
  finally show ?thesis .
qed

definition by_name :: "endpoint_spec list \<Rightarrow> string \<rightharpoonup> endpoint_spec" where
  "by_name es = map_of (map (\<lambda>e. (ep_name e, e)) es)"

lemma by_name_None: "by_name es n = None \<longleftrightarrow> n \<notin> set (map ep_name es)"
  by (auto simp: by_name_def map_of_eq_None_iff image_iff)

lemma dom_by_name: "dom (by_name es) = set (map ep_name es)"
  using by_name_None by (auto simp: dom_def)

lemma by_name_append:
  assumes "set (map ep_name xs) \<inter> set (map ep_name ys) = {}"
  shows "by_name (xs @ ys) = by_name xs ++ by_name ys"
proof -
  have "by_name (xs @ ys) = by_name ys ++ by_name xs" by (simp add: by_name_def)
  also have "\<dots> = by_name xs ++ by_name ys" using assms by (intro map_add_comm) (auto simp: dom_by_name)
  finally show ?thesis .
qed

lemma by_name_filter: "by_name (filter (\<lambda>e. P (ep_name e)) es) n = (if P n then by_name es n else None)"
  by (induction es) (auto simp: by_name_def)

lemma merge_endpoints_by_name: "by_name (fst (merge_endpoints ts cs)) = by_name ts ++ by_name cs"
proof
  fix n
  have "by_name (fst (merge_endpoints ts cs)) =
    by_name (filter (\<lambda>e. ep_name e \<notin> set (map ep_name cs)) ts) ++ by_name cs"
    unfolding merge_endpoints_def Let_def fst_conv by (rule by_name_append) auto
  then show "by_name (fst (merge_endpoints ts cs)) n = (by_name ts ++ by_name cs) n"
    using by_name_filter [of "\<lambda>m. m \<notin> set (map ep_name cs)" ts n] by_name_None [of cs n]
    by (cases "by_name cs n") (auto simp: map_add_def)
qed

lemma merge_endpoints_distinct:
  "distinct (map ep_name ts) \<Longrightarrow> distinct (map ep_name cs) \<Longrightarrow> distinct (map ep_name (fst (merge_endpoints ts cs)))"
  by (auto simp: merge_endpoints_def Let_def distinct_map_filter)

definition config_ok :: "config \<Rightarrow> bool" where
  "config_ok c =
     (cfg_dedup_ms c \<le> 10000 \<and> cfg_stats_interval_secs c \<noteq> 0 \<and> distinct (map ep_name (cfg_endpoints c))
      \<and> references (set (cfg_endpoints c)) \<subseteq> set (map ep_name (cfg_endpoints c)))"

lemma config_validate_ok: "config_validate c = Inr () \<longleftrightarrow> config_ok c"
  by (auto simp: config_validate_def config_ok_def MAX_DEDUP_MS_def MIN_STATS_INTERVAL_SECS_def and_then_eq_Inr
      check_unique_names_ok references_ok not_less)

lemma ran_by_name: "distinct (map ep_name es) \<Longrightarrow> ran (by_name es) = set es"
  by (simp add: by_name_def ran_distinct comp_def image_image)

section \<open>Properties\<close>

text \<open>The globals of the two sources: the command line first, then the file, then the default.\<close>

definition toml_side :: "toml_config option \<Rightarrow> toml_config" where
  "toml_side t = (case t of Some t \<Rightarrow> t | None \<Rightarrow> toml_config_default)"

definition merged_endpoints :: "toml_config option \<Rightarrow> cli_config \<Rightarrow> string \<rightharpoonup> endpoint_spec" where
  "merged_endpoints t c = by_name (tml_endpoints (toml_side t)) ++ by_name (clc_endpoints c)"

definition merge_accepts :: "toml_config option \<Rightarrow> cli_config \<Rightarrow> bool" where
  "merge_accepts t c =
     (distinct (map ep_name (tml_endpoints (toml_side t))) \<and> distinct (map ep_name (clc_endpoints c))
      \<and> first_of (clc_dedup_ms c) (tml_dedup_ms (toml_side t)) 0 \<le> 10000
      \<and> first_of (clc_stats_interval_secs c) (tml_stats_interval_secs (toml_side t)) 5 \<noteq> 0
      \<and> references (ran (merged_endpoints t c)) \<subseteq> dom (merged_endpoints t c))"

definition merged_config :: "toml_config option \<Rightarrow> cli_config \<Rightarrow> config" where
  "merged_config t c =
     \<lparr>cfg_log_level = first_of (clc_log_level c) (tml_log_level (toml_side t)) Log_Info,
      cfg_log_format = first_of (clc_log_format c) (tml_log_format (toml_side t)) Format_Text,
      cfg_stats = first_of (clc_stats c) (tml_stats (toml_side t)) False,
      cfg_stats_interval_secs = first_of (clc_stats_interval_secs c) (tml_stats_interval_secs (toml_side t)) 5,
      cfg_dedup_ms = first_of (clc_dedup_ms c) (tml_dedup_ms (toml_side t)) 0,
      cfg_skip_config_log = first_of (clc_skip_config_log c) (tml_skip_config_log (toml_side t)) False,
      cfg_endpoints = fst (merge_endpoints (tml_endpoints (toml_side t)) (clc_endpoints c)),
      cfg_merged = (toml_has_values (toml_side t) \<and> cli_has_values c)\<rparr>"

lemma config_merge_unfold:
  "config_merge t c =
     and_then (check_unique_names (tml_endpoints (toml_side t))) (\<lambda>_.
     and_then (check_unique_names (clc_endpoints c)) (\<lambda>_.
     and_then (config_validate (merged_config t c)) (\<lambda>_.
       Inr \<lparr>mo_config = merged_config t c,
            mo_overridden_names = snd (merge_endpoints (tml_endpoints (toml_side t)) (clc_endpoints c))\<rparr>)))"
  by (simp add: config_merge_def Let_def case_prod_beta merged_config_def toml_side_def DEFAULT_DEDUP_MS_def
      DEFAULT_STATS_INTERVAL_SECS_def)

lemma config_ok_merge:
  assumes "distinct (map ep_name (tml_endpoints (toml_side t)))" and "distinct (map ep_name (clc_endpoints c))"
  shows "config_ok (merged_config t c) \<longleftrightarrow> merge_accepts t c"
proof -
  let ?es = "cfg_endpoints (merged_config t c)"
  have named: "by_name ?es = merged_endpoints t c"
    by (simp add: merged_config_def merge_endpoints_by_name merged_endpoints_def)
  have d: "distinct (map ep_name ?es)" using assms by (simp add: merged_config_def merge_endpoints_distinct)
  have "references (set ?es) \<subseteq> set (map ep_name ?es)
    \<longleftrightarrow> references (ran (merged_endpoints t c)) \<subseteq> dom (merged_endpoints t c)"
    unfolding named [symmetric] ran_by_name [OF d] dom_by_name ..
  with assms d show ?thesis by (simp add: config_ok_def merge_accepts_def) (simp add: merged_config_def)
qed

text \<open>
  C14. Merging the two sources meets its specification. It succeeds exactly when no source names
  an endpoint twice, the resolved window and interval are in range and every endpoint named by
  a filter that stays in force is declared. The result maps each name to its command-line
  endpoint if there is one and to its TOML endpoint otherwise, each name once, TOML endpoints
  first and both in their order; every global comes from the command line, else from the file,
  else is the default; and the reported overrides are the names declared in both.
\<close>

theorem config_merge_meets_spec:
  "case config_merge t c :: (('io, 't) rmr_error, merge_outcome) res of
     Inl _ \<Rightarrow> \<not> merge_accepts t c
   | Inr out \<Rightarrow> merge_accepts t c
       \<and> by_name (cfg_endpoints (mo_config out)) = merged_endpoints t c
       \<and> distinct (map ep_name (cfg_endpoints (mo_config out)))
       \<and> (\<exists>kept. subseq kept (tml_endpoints (toml_side t)) \<and> cfg_endpoints (mo_config out) = kept @ clc_endpoints c)
       \<and> set (mo_overridden_names out) = set (map ep_name (tml_endpoints (toml_side t))) \<inter> set (map ep_name (clc_endpoints c))
       \<and> cfg_log_level (mo_config out) = first_of (clc_log_level c) (tml_log_level (toml_side t)) Log_Info
       \<and> cfg_log_format (mo_config out) = first_of (clc_log_format c) (tml_log_format (toml_side t)) Format_Text
       \<and> cfg_stats (mo_config out) = first_of (clc_stats c) (tml_stats (toml_side t)) False
       \<and> cfg_stats_interval_secs (mo_config out) = first_of (clc_stats_interval_secs c) (tml_stats_interval_secs (toml_side t)) 5
       \<and> cfg_dedup_ms (mo_config out) = first_of (clc_dedup_ms c) (tml_dedup_ms (toml_side t)) 0
       \<and> cfg_skip_config_log (mo_config out) = first_of (clc_skip_config_log c) (tml_skip_config_log (toml_side t)) False"
proof (cases "distinct (map ep_name (tml_endpoints (toml_side t))) \<and> distinct (map ep_name (clc_endpoints c))")
  case True
  let ?validated = "config_validate (merged_config t c) :: (('io, 't) rmr_error, unit) res"
  from True have merge: "config_merge t c = and_then ?validated (\<lambda>_.
      Inr \<lparr>mo_config = merged_config t c,
           mo_overridden_names = snd (merge_endpoints (tml_endpoints (toml_side t)) (clc_endpoints c))\<rparr>)"
    by (simp add: config_merge_unfold check_unique_names_distinct)
  show ?thesis
  proof (cases "config_ok (merged_config t c)")
    case False
    then obtain err where "?validated = Inl err"
      using config_validate_ok [of "merged_config t c"] by (cases ?validated) auto
    with False merge config_ok_merge [of t c] True show ?thesis by simp
  next
    case ok: True
    have "subseq (filter (\<lambda>e. ep_name e \<notin> set (map ep_name (clc_endpoints c))) (tml_endpoints (toml_side t))) (tml_endpoints (toml_side t))"
      by (rule subseq_filter_left)
    then have "\<exists>kept. subseq kept (tml_endpoints (toml_side t)) \<and> cfg_endpoints (merged_config t c) = kept @ clc_endpoints c"
      by (auto simp: merged_config_def merge_endpoints_def Let_def)
    moreover have "set (snd (merge_endpoints (tml_endpoints (toml_side t)) (clc_endpoints c)))
      = set (map ep_name (tml_endpoints (toml_side t))) \<inter> set (map ep_name (clc_endpoints c))"
      by (auto simp: merge_endpoints_def Let_def)
    moreover have "?validated = Inr ()" using ok config_validate_ok by blast
    ultimately show ?thesis using ok True config_ok_merge [of t c] unfolding merge
      by (simp add: merged_endpoints_def merge_endpoints_by_name config_ok_def) (simp add: merged_config_def merge_endpoints_by_name)
  qed
next
  case False
  have "\<exists>err. config_merge t c = (Inl err :: (('io, 't) rmr_error, merge_outcome) res)"
  proof (cases "distinct (map ep_name (tml_endpoints (toml_side t)))")
    case True
    with False obtain err where "check_unique_names (clc_endpoints c) = (Inl err :: (('io, 't) rmr_error, unit) res)"
      by (auto elim: check_unique_names_repeat)
    with True show ?thesis by (simp add: config_merge_unfold check_unique_names_distinct)
  next
    case dup: False
    then obtain err where "check_unique_names (tml_endpoints (toml_side t)) = (Inl err :: (('io, 't) rmr_error, unit) res)"
      by (rule check_unique_names_repeat)
    then show ?thesis by (simp add: config_merge_unfold)
  qed
  with False show ?thesis by (auto simp: merge_accepts_def)
qed

lemma config_merge_Inr:
  assumes "config_merge t c = Inr out"
  shows "mo_config out = merged_config t c" and "config_ok (merged_config t c)"
  using assms config_validate_ok [of "merged_config t c"] by (auto simp: config_merge_unfold and_then_eq_Inr)

lemma merged_config_wf:
  "list_all spec_wf (tml_endpoints (toml_side t)) \<Longrightarrow> list_all spec_wf (clc_endpoints c) \<Longrightarrow> list_all spec_wf (cfg_endpoints (merged_config t c))"
  by (auto simp: merged_config_def merge_endpoints_def Let_def list_all_iff)

definition demo_fc :: endpoint_spec where
  "demo_fc =
     \<lparr>ep_kind = Kind_Serial \<lparr>sre_path = ''/dev/ttyUSB0'', sre_baud = 115200, sre_flow_control = Flow_None, sre_identity = identity_default\<rparr>,
      ep_name = ''fc''\<rparr>"

definition demo_cli :: cli where
  "demo_cli =
     \<lparr>arg_config = None, arg_log_level = None, arg_log_format = None, arg_stats = True, arg_stats_interval_secs = Some 10,
      arg_dedup_ms = Some 100, arg_skip_config_log = False, arg_dry_run = False,
      arg_endpoints = [''udps:0.0.0.0:14550#bus?idle_secs=30&block_msgid_in=33,100-150&allow_src_endpoint_out=fc&group=uplink'',
        ''serial:/dev/ttyUSB0:115200#fc?'']\<rparr>"

lemma demo_fc_text: "cli_text demo_fc = ''serial:/dev/ttyUSB0:115200#fc?''"
proof -
  have "dec_word (115200 :: u32) = ''115200''"
    by (simp add: dec_word_def dec.simps digit_char_def char_of_eq_iff)
  then show ?thesis
    by (simp add: cli_text_def cli_form_def demo_fc_def identity_fields_def filter_fields_def text_list_def identity_default_def
        filters_default_def query_text_def)
qed

lemma demo_fc_wf: "spec_wf demo_fc" "kind_plain (ep_kind demo_fc)"
  by (simp_all add: spec_wf_def demo_fc_def name_matches_regex_def is_ascii_alphanumeric_def plain_def)

lemma demo_cli_specs:
  "parse_specs lev (arg_endpoints demo_cli) = Inr [demo_spec, demo_fc]"
  using cli_text_reads_back [OF demo_spec_wf, of lev] cli_text_reads_back [OF demo_fc_wf, of lev]
  unfolding demo_spec_text demo_fc_text by (simp add: demo_cli_def parse_specs_def)

lemma demo_names: "ep_name demo_spec = ''bus''" "ep_name demo_fc = ''fc''"
  "references {demo_spec, demo_fc} = {''fc''}"
  by (simp_all add: demo_spec_def demo_fc_def references_def identity_default_def filters_default_def)

text \<open>
  Whatever the arguments and the file contain, the router is started only with a valid
  configuration: at least one endpoint, every endpoint well-formed, no name twice, every
  endpoint that a filter names declared, a deduplication window of at most ten seconds and a
  stats interval that is not zero. Everything else ends with an error before a socket is opened.
\<close>

theorem main_starts_only_valid_configs:
  fixes env :: "('io, 't, 'v) config_env"
  assumes "main_startup env c = Start out"
  shows "cfg_endpoints (mo_config out) \<noteq> [] \<and> list_all spec_wf (cfg_endpoints (mo_config out)) \<and> config_ok (mo_config out)"
proof -
  obtain t cc where t: "t = None \<or> (\<exists>path f. arg_config c = Some path \<and> toml_from_path env path = Inr f \<and> t = Some f)"
    and cc: "into_cli_config (cv_levenshtein env) c = (Inr cc :: (('io, 't) rmr_error, cli_config) res)"
    and out: "config_merge t cc = (Inr out :: (('io, 't) rmr_error, merge_outcome) res)"
    and ne: "cfg_endpoints (mo_config out) \<noteq> []"
    using assms by (auto simp: main_startup_def and_then_eq_Inr split: sum.splits option.splits if_splits)
  have "list_all spec_wf (tml_endpoints (toml_side t))"
    using t toml_from_path_wf by (auto simp: toml_side_def toml_config_default_def)
  then have "list_all spec_wf (cfg_endpoints (mo_config out))"
    unfolding config_merge_Inr(1) [OF out] using into_cli_config_wf [OF cc] by (rule merged_config_wf)
  with ne config_merge_Inr [OF out] show ?thesis by simp
qed

definition demo_config_env :: "(unit, unit, unit) config_env" where
  "demo_config_env =
     \<lparr>cv_levenshtein = (\<lambda>_ _. 0), cv_read_to_string = (\<lambda>_. Inl ()), cv_from_str = (\<lambda>_. Inl ()), cv_try_into = (\<lambda>_. Inl ())\<rparr>"

definition demo_outcome :: merge_outcome where
  "demo_outcome =
     \<lparr>mo_config = \<lparr>cfg_log_level = Log_Info, cfg_log_format = Format_Text, cfg_stats = True, cfg_stats_interval_secs = 10,
        cfg_dedup_ms = 100, cfg_skip_config_log = False, cfg_endpoints = [demo_spec, demo_fc], cfg_merged = False\<rparr>,
      mo_overridden_names = []\<rparr>"

lemma demo_startup: "main_startup demo_config_env demo_cli = Start demo_outcome"
proof -
  let ?c = "\<lparr>clc_log_level = None, clc_log_format = None, clc_stats = Some True, clc_stats_interval_secs = Some 10,
    clc_dedup_ms = Some 100, clc_skip_config_log = None, clc_endpoints = [demo_spec, demo_fc]\<rparr> :: cli_config"
  have cli: "into_cli_config (cv_levenshtein demo_config_env) demo_cli = (Inr ?c :: ((unit, unit) rmr_error, cli_config) res)"
    by (simp add: into_cli_config_def demo_cli_specs) (simp add: demo_cli_def)
  have merged: "merged_config None ?c = mo_config demo_outcome"
    by (simp add: merged_config_def demo_outcome_def toml_side_def toml_config_default_def first_of_def merge_endpoints_def
        toml_has_values_def)
  have ok: "config_ok (merged_config None ?c)"
    unfolding merged using demo_names by (simp add: config_ok_def demo_outcome_def)
  then have valid: "config_validate (mo_config demo_outcome) = (Inr () :: ((unit, unit) rmr_error, unit) res)"
    unfolding config_validate_ok merged .
  have "config_merge None ?c = (Inr demo_outcome :: ((unit, unit) rmr_error, merge_outcome) res)"
    using valid demo_names by (simp add: config_merge_unfold check_unique_names_distinct toml_side_def toml_config_default_def merged)
      (simp add: demo_outcome_def merge_endpoints_def)
  with cli show ?thesis
    by (simp add: main_startup_def) (simp add: demo_cli_def demo_outcome_def)
qed

theorem main_starts_only_valid_configs_witness:
  "main_startup demo_config_env demo_cli = Start demo_outcome
   \<and> cfg_endpoints (mo_config demo_outcome) \<noteq> [] \<and> list_all spec_wf (cfg_endpoints (mo_config demo_outcome)) \<and> config_ok (mo_config demo_outcome)"
  using demo_startup main_starts_only_valid_configs [OF demo_startup] by blast

end
