(* ===== verification/Startup.thy ===== *)
theory Startup
  imports Config Stats_Task Router_Correct "HOL-Library.Char_ord" "HOL-Library.List_Lexorder"
begin

text \<open>
  The start of the system: \<^verbatim>\<open>src/endpoint/spawn.rs\<close>, which announces every endpoint to the router
  and starts its task with the wiring of \<^verbatim>\<open>src/endpoint/wiring.rs\<close>, and the set-up part of \<^verbatim>\<open>run\<close>
  in \<^verbatim>\<open>src/lib.rs\<close>. A spawned task is recorded with the arguments it is started with; what it
  does from there is the model of its transport. The channels that all tasks share are not
  repeated in each wiring.
\<close>

declare map_of_eq_Some_iff [simp del]

section \<open>Wiring and tasks\<close>

record client_wiring =
  cw_tx_queue :: tx_queue
  cw_stats :: nat
  cw_cancel :: cancel_token

record server_wiring =
  sw_cancel :: cancel_token
  sw_stats :: nat

datatype endpoint_task =
    Task_Serial serial_spec client_wiring
  | Task_TcpClient tcp_client_spec client_wiring
  | Task_UdpClient udp_client_spec client_wiring
  | Task_TcpServer tcp_server_spec server_wiring
  | Task_UdpServer udp_server_spec server_wiring

record ('q, 'e) spawner =
  sp_alloc :: id_allocator
  sp_store :: "'q store"
  sp_event_tx :: 'e
  sp_tasks :: "endpoint_task list"

section \<open>Spawning endpoints\<close>

definition prepare_leaf ::
  "'q array_queue \<Rightarrow> 'e send_event \<Rightarrow> endpoint_id \<Rightarrow> string \<Rightarrow> nat \<Rightarrow> identity_flags \<Rightarrow> ('q, 'e) spawner
   \<Rightarrow> ('q, 'e) spawner \<times> tx_queue option" where
  "prepare_leaf aq send_event i name stats identity s =
     (let (tx_queue, st) = tx_new aq DEFAULT_TX_QUEUE_FRAMES stats (sp_store s);
          (event_tx, ok) = send_event (EndpointAdded i name stats
            (Some \<lparr>ro_tx_queue = tx_queue, ro_identity = identity, ro_endpoint_name = name\<rparr>)) (sp_event_tx s);
          s1 = s\<lparr>sp_store := st, sp_event_tx := event_tx\<rparr>
      in if \<not> ok then (s1, None) else (s1, Some tx_queue))"

definition prepare_parent_listener ::
  "'e send_event \<Rightarrow> endpoint_id \<Rightarrow> string \<Rightarrow> nat \<Rightarrow> ('q, 'e) spawner \<Rightarrow> ('q, 'e) spawner \<times> bool" where
  "prepare_parent_listener send_event i name stats s =
     (let (event_tx, ok) = send_event (EndpointAdded i name stats None) (sp_event_tx s)
      in (s\<lparr>sp_event_tx := event_tx\<rparr>, ok))"

definition spawn_task :: "endpoint_task \<Rightarrow> ('q, 'e) spawner \<Rightarrow> ('q, 'e) spawner" where
  "spawn_task task s = s\<lparr>sp_tasks := sp_tasks s @ [task]\<rparr>"

definition spawn_endpoint ::
  "'q array_queue \<Rightarrow> 'e send_event \<Rightarrow> cancel_token \<Rightarrow> endpoint_spec \<Rightarrow> ('q, 'e) spawner \<Rightarrow> ('q, 'e) spawner" where
  "spawn_endpoint aq send_event cancel spec s =
     (let name = ep_name spec;
          (endpoint_id, alloc) = alloc_id (sp_alloc s);
          (stats, st) = alloc_stats Reconnecting (sp_store s);
          s1 = s\<lparr>sp_alloc := alloc, sp_store := st\<rparr>
      in case ep_kind spec of
           Kind_Serial ep \<Rightarrow>
             let spec = serial_from_endpoint ep endpoint_id name
             in (case prepare_leaf aq send_event endpoint_id name stats (srs_identity spec) s1 of
                   (s2, None) \<Rightarrow> s2
                 | (s2, Some tx_queue) \<Rightarrow>
                     spawn_task (Task_Serial spec \<lparr>cw_tx_queue = tx_queue, cw_stats = stats, cw_cancel = cancel\<rparr>) s2)
         | Kind_TcpClient ep \<Rightarrow>
             let spec = tcp_client_from_endpoint ep endpoint_id name
             in (case prepare_leaf aq send_event endpoint_id name stats (tcs_identity spec) s1 of
                   (s2, None) \<Rightarrow> s2
                 | (s2, Some tx_queue) \<Rightarrow>
                     spawn_task (Task_TcpClient spec \<lparr>cw_tx_queue = tx_queue, cw_stats = stats, cw_cancel = cancel\<rparr>) s2)
         | Kind_UdpClient ep \<Rightarrow>
             let spec = udp_client_from_endpoint ep endpoint_id name
             in (case prepare_leaf aq send_event endpoint_id name stats (ucs_identity spec) s1 of
                   (s2, None) \<Rightarrow> s2
                 | (s2, Some tx_queue) \<Rightarrow>
                     spawn_task (Task_UdpClient spec \<lparr>cw_tx_queue = tx_queue, cw_stats = stats, cw_cancel = cancel\<rparr>) s2)
         | Kind_TcpServer ep \<Rightarrow>
             (case prepare_parent_listener send_event endpoint_id name stats s1 of
                (s2, ok) \<Rightarrow>
                  if \<not> ok then s2
                  else spawn_task (Task_TcpServer (tcp_server_from_endpoint ep endpoint_id name) \<lparr>sw_cancel = cancel, sw_stats = stats\<rparr>) s2)
         | Kind_UdpServer ep \<Rightarrow>
             (case prepare_parent_listener send_event endpoint_id name stats s1 of
                (s2, ok) \<Rightarrow>
                  if \<not> ok then s2
                  else spawn_task (Task_UdpServer (udp_server_from_endpoint ep endpoint_id name) \<lparr>sw_cancel = cancel, sw_stats = stats\<rparr>) s2))"

definition spawn_endpoints ::
  "'q array_queue \<Rightarrow> 'e send_event \<Rightarrow> cancel_token \<Rightarrow> endpoint_spec list \<Rightarrow> 'q store \<Rightarrow> 'e \<Rightarrow> ('q, 'e) spawner" where
  "spawn_endpoints aq send_event cancel specs st event_tx =
     fold (spawn_endpoint aq send_event cancel) specs
       \<lparr>sp_alloc = allocator_new, sp_store = st, sp_event_tx = event_tx, sp_tasks = []\<rparr>"

section \<open>The set-up of a run\<close>

definition INGRESS_QUEUE_FRAMES :: nat where
  "INGRESS_QUEUE_FRAMES = 1024"

definition DEFAULT_TCPS_PEER_BUDGET :: nat where
  "DEFAULT_TCPS_PEER_BUDGET = 64"

text \<open>\<^verbatim>\<open>usize::saturating_add\<close> on a 64-bit target.\<close>

definition usize_saturating_add :: "nat \<Rightarrow> nat \<Rightarrow> nat" where
  "usize_saturating_add a b = min (a + b) (2 ^ 64 - 1)"

fun registry_weight :: "endpoint_kind \<Rightarrow> nat \<Rightarrow> nat" where
  "registry_weight (Kind_UdpServer _) n = usize_saturating_add n DEFAULT_PEER_CAPACITY"
| "registry_weight (Kind_TcpServer _) n = usize_saturating_add n DEFAULT_TCPS_PEER_BUDGET"
| "registry_weight _ n = n"

definition estimate_registry_size :: "endpoint_spec list \<Rightarrow> nat" where
  "estimate_registry_size specs = fold (\<lambda>spec. registry_weight (ep_kind spec)) specs (length specs)"

definition count_member :: "endpoint_spec \<Rightarrow> (string \<times> nat) list \<Rightarrow> (string \<times> nat) list" where
  "count_member spec by_group =
     (let identity = kind_identity (ep_kind spec)
      in if if_sniffer identity then by_group
         else case if_group identity of
           None \<Rightarrow> by_group
         | Some name \<Rightarrow> AList.update name ((case map_of by_group name of Some n \<Rightarrow> n | None \<Rightarrow> 0) + 1) by_group)"

definition groups_needing_dedup_warning :: "endpoint_spec list \<Rightarrow> u64 \<Rightarrow> (string \<times> nat) list" where
  "groups_needing_dedup_warning specs dedup_ms =
     (if dedup_ms > 0 then []
      else sort_key fst (filter (\<lambda>(_, n). n \<ge> 2) (fold count_member specs [])))"

text \<open>
  The state in which \<^verbatim>\<open>run\<close> waits for its token: the router task's state before its first event, over
  the store that the spawned endpoints share with it, the configuration of the stats task and the
  endpoint tasks.
\<close>

record ('q, 'c, 'e) system =
  sy_router :: "('q, 'c) router"
  sy_stats_config :: stats_run_config
  sy_spawner :: "('q, 'e) spawner"
  sy_frame_q_cap :: nat
  sy_event_q_cap :: nat
  sy_stats_q_cap :: nat
  sy_warned :: "(string \<times> nat) list"

definition run_start ::
  "'q array_queue \<Rightarrow> 'e send_event \<Rightarrow> (nat \<Rightarrow> 'e) \<Rightarrow> (nat \<Rightarrow> 'c) \<Rightarrow> 'q store \<Rightarrow> config \<Rightarrow> cancel_token \<Rightarrow> ('q, 'c, 'e) system" where
  "run_start aq send_event event_channel stats_channel st cfg token =
     (let specs = cfg_endpoints cfg;
          registry_estimate = estimate_registry_size specs;
          event_q_cap = max (registry_estimate * 2) 64;
          stats_q_cap = max (registry_estimate * 2) 64;
          spawned = spawn_endpoints aq send_event token specs st (event_channel event_q_cap)
      in \<lparr>sy_router = router_new (stats_channel stats_q_cap) (cfg_dedup_ms cfg) DEFAULT_DEDUP_WINDOW_CAPACITY (sp_store spawned),
          sy_stats_config = \<lparr>cfg_enabled = cfg_stats cfg, cfg_interval = from_secs (cfg_stats_interval_secs cfg),
            cfg_queue_capacity = DEFAULT_STATS_QUEUE_LINES\<rparr>,
          sy_spawner = spawned,
          sy_frame_q_cap = INGRESS_QUEUE_FRAMES, sy_event_q_cap = event_q_cap, sy_stats_q_cap = stats_q_cap,
          sy_warned = groups_needing_dedup_warning specs (cfg_dedup_ms cfg)\<rparr>)"

end
