(* ===== verification/Startup_Correct.thy ===== *)
theory Startup_Correct
  imports Startup
begin

text \<open>
  What the start of the system establishes: every declared endpoint is known to the router
  before its task runs, under its own identifier, queue and counters, and the set-up of \<^verbatim>\<open>run\<close>
  passes on exactly what the configuration says.
\<close>

section \<open>One endpoint\<close>

fun is_listener :: "endpoint_kind \<Rightarrow> bool" where
  "is_listener (Kind_UdpServer _) = True"
| "is_listener (Kind_TcpServer _) = True"
| "is_listener _ = False"

text \<open>The queue, the announcement and the task of an endpoint whose counters are at reference \<^verbatim>\<open>n\<close>.\<close>

definition queue_at :: "nat \<Rightarrow> tx_queue" where
  "queue_at n = \<lparr>tq_inner = n + 1, tq_notify = n + 1, tq_stats = n\<rparr>"

definition announcement :: "endpoint_spec \<Rightarrow> endpoint_id \<Rightarrow> nat \<Rightarrow> endpoint_event" where
  "announcement spec i n = EndpointAdded i (ep_name spec) n
     (if is_listener (ep_kind spec) then None
      else Some \<lparr>ro_tx_queue = queue_at n, ro_identity = kind_identity (ep_kind spec), ro_endpoint_name = ep_name spec\<rparr>)"

fun task_of :: "cancel_token \<Rightarrow> endpoint_kind \<Rightarrow> string \<Rightarrow> endpoint_id \<Rightarrow> nat \<Rightarrow> endpoint_task" where
  "task_of cancel (Kind_Serial e) name i n =
     Task_Serial (serial_from_endpoint e i name) \<lparr>cw_tx_queue = queue_at n, cw_stats = n, cw_cancel = cancel\<rparr>"
| "task_of cancel (Kind_TcpClient e) name i n =
     Task_TcpClient (tcp_client_from_endpoint e i name) \<lparr>cw_tx_queue = queue_at n, cw_stats = n, cw_cancel = cancel\<rparr>"
| "task_of cancel (Kind_UdpClient e) name i n =
     Task_UdpClient (udp_client_from_endpoint e i name) \<lparr>cw_tx_queue = queue_at n, cw_stats = n, cw_cancel = cancel\<rparr>"
| "task_of cancel (Kind_TcpServer e) name i n =
     Task_TcpServer (tcp_server_from_endpoint e i name) \<lparr>sw_cancel = cancel, sw_stats = n\<rparr>"
| "task_of cancel (Kind_UdpServer e) name i n =
     Task_UdpServer (udp_server_from_endpoint e i name) \<lparr>sw_cancel = cancel, sw_stats = n\<rparr>"

definition refs_used :: "endpoint_spec \<Rightarrow> nat" where
  "refs_used spec = (if is_listener (ep_kind spec) then 1 else 2)"

lemma from_endpoint_identity [simp]:
  "srs_identity (serial_from_endpoint se i name) = sre_identity se"
  "tcs_identity (tcp_client_from_endpoint tc i name) = tce_identity tc"
  "ucs_identity (udp_client_from_endpoint uc i name) = uce_identity uc"
  by (simp_all add: serial_from_endpoint_def tcp_client_from_endpoint_def udp_client_from_endpoint_def)

definition store_with :: "'q array_queue \<Rightarrow> endpoint_spec \<Rightarrow> 'q store \<Rightarrow> 'q store" where
  "store_with aq spec st =
     (let st1 = snd (alloc_stats Reconnecting st)
      in if is_listener (ep_kind spec) then st1 else snd (tx_new aq DEFAULT_TX_QUEUE_FRAMES (sto_next st) st1))"

lemma spawn_endpoint_reliable:
  assumes "reliable_events send_event contents"
  obtains e where "spawn_endpoint aq send_event cancel spec s =
      \<lparr>sp_alloc = snd (alloc_id (sp_alloc s)), sp_store = store_with aq spec (sp_store s), sp_event_tx = e,
       sp_tasks = sp_tasks s @ [task_of cancel (ep_kind spec) (ep_name spec) (fst (alloc_id (sp_alloc s))) (sto_next (sp_store s))]\<rparr>"
    and "contents e = contents (sp_event_tx s) @ [announcement spec (fst (alloc_id (sp_alloc s))) (sto_next (sp_store s))]"
proof -
  let ?ev = "announcement spec (fst (alloc_id (sp_alloc s))) (sto_next (sp_store s))"
  obtain e where e: "send_event ?ev (sp_event_tx s) = (e, True)" "contents e = contents (sp_event_tx s) @ [?ev]"
    using assms unfolding reliable_events_def by (metis prod.collapse)
  show ?thesis
  proof (rule that [of e])
    show "spawn_endpoint aq send_event cancel spec s =
      \<lparr>sp_alloc = snd (alloc_id (sp_alloc s)), sp_store = store_with aq spec (sp_store s), sp_event_tx = e,
       sp_tasks = sp_tasks s @ [task_of cancel (ep_kind spec) (ep_name spec) (fst (alloc_id (sp_alloc s))) (sto_next (sp_store s))]\<rparr>"
      using e(1)
      by (cases s; cases "ep_kind spec")
        (simp_all add: spawn_endpoint_def prepare_leaf_def prepare_parent_listener_def spawn_task_def Let_def case_prod_unfold
          announcement_def store_with_def alloc_stats_def tx_new_def queue_at_def)
  qed (rule e(2))
qed

lemma store_with_next: "sto_next (store_with aq spec st) = sto_next st + refs_used spec"
  by (simp add: store_with_def alloc_stats_def tx_new_def Let_def refs_used_def)

lemma store_with_old: "q < sto_next st \<Longrightarrow> sto_queue (store_with aq spec st) q = sto_queue st q"
  by (simp add: store_with_def alloc_stats_def tx_new_def Let_def)

lemma store_with_queue:
  "\<not> is_listener (ep_kind spec) \<Longrightarrow> sto_queue (store_with aq spec st) (sto_next st + 1) = aq_new aq 256"
  by (simp add: store_with_def alloc_stats_def tx_new_def Let_def DEFAULT_TX_QUEUE_FRAMES_def)

section \<open>All endpoints\<close>

fun plan :: "endpoint_spec list \<Rightarrow> endpoint_id \<Rightarrow> nat \<Rightarrow> (endpoint_spec \<times> endpoint_id \<times> nat) list" where
  "plan [] i n = []"
| "plan (spec # specs) i n = (spec, i, n) # plan specs (i + 1) (n + refs_used spec)"

lemma length_plan [simp]: "length (plan specs i n) = length specs"
  by (induction specs arbitrary: i n) auto

lemma map_fst_plan: "map fst (plan specs i n) = specs"
  by (induction specs arbitrary: i n) auto

lemma plan_ids: "map (\<lambda>p. fst (snd p)) (plan specs i n) = map (\<lambda>k. i + of_nat k) [0..<length specs]"
proof (induction specs arbitrary: i n)
  case (Cons spec specs)
  have "map (\<lambda>k. i + of_nat k) [0..<Suc (length specs)] = i # map (\<lambda>k. i + 1 + of_nat k) [0..<length specs]"
    by (simp add: upt_rec [of 0 "Suc (length specs)"] map_Suc_upt [symmetric] algebra_simps del: upt_Suc)
  with Cons show ?case by simp
qed simp

lemma plan_refs: "(spec, i, m) \<in> set (plan specs j n) \<Longrightarrow> n \<le> m"
  by (induction specs arbitrary: j n) (fastforce simp: refs_used_def)+

lemma spawn_all:
  assumes "reliable_events send_event contents"
  shows "\<exists>e st. fold (spawn_endpoint aq send_event cancel) specs s =
      \<lparr>sp_alloc = snd (alloc_ids (length specs) (sp_alloc s)), sp_store = st, sp_event_tx = e,
       sp_tasks = sp_tasks s @ map (\<lambda>(spec, i, n). task_of cancel (ep_kind spec) (ep_name spec) i n)
         (plan specs (ida_next (sp_alloc s)) (sto_next (sp_store s)))\<rparr>
    \<and> contents e = contents (sp_event_tx s) @ map (\<lambda>(spec, i, n). announcement spec i n)
         (plan specs (ida_next (sp_alloc s)) (sto_next (sp_store s)))
    \<and> st = fold (store_with aq) specs (sp_store s)"
proof (induction specs arbitrary: s)
  case (Cons spec specs)
  obtain e where e: "spawn_endpoint aq send_event cancel spec s =
      \<lparr>sp_alloc = snd (alloc_id (sp_alloc s)), sp_store = store_with aq spec (sp_store s), sp_event_tx = e,
       sp_tasks = sp_tasks s @ [task_of cancel (ep_kind spec) (ep_name spec) (fst (alloc_id (sp_alloc s))) (sto_next (sp_store s))]\<rparr>"
    "contents e = contents (sp_event_tx s) @ [announcement spec (fst (alloc_id (sp_alloc s))) (sto_next (sp_store s))]"
    by (rule spawn_endpoint_reliable [OF assms])
  show ?case
    using Cons [of "spawn_endpoint aq send_event cancel spec s"] e
    by (auto simp: store_with_next alloc_id_def case_prod_unfold Let_def)
next
  case Nil
  show ?case by (intro exI [of _ "sp_event_tx s"] exI [of _ "sp_store s"]) (cases s, simp)
qed

lemma plan_queues:
  assumes "(spec, i, m) \<in> set (plan specs j (sto_next st))" and "\<not> is_listener (ep_kind spec)"
  shows "sto_queue (fold (store_with aq) specs st) (m + 1) = aq_new aq 256"
  using assms(1)
proof (induction specs arbitrary: j st)
  case (Cons sp specs)
  have keep: "q < sto_next st' \<Longrightarrow> sto_queue (fold (store_with aq) specs st') q = sto_queue st' q" for q st' and specs :: "endpoint_spec list"
    by (induction specs arbitrary: st') (simp_all add: store_with_next store_with_old)
  show ?case
  proof (cases "(spec, i, m) = (sp, j, sto_next st)")
    case True
    with assms(2) show ?thesis
      using store_with_queue [of sp aq st] by (simp add: keep store_with_next refs_used_def)
  next
    case False
    with Cons.prems Cons.IH [of "j + 1" "store_with aq sp st"] show ?thesis by (auto simp: store_with_next)
  qed
qed simp

section \<open>The registry after the start\<close>

definition entry_of :: "endpoint_spec \<Rightarrow> nat \<Rightarrow> registered_endpoint" where
  "entry_of spec n = \<lparr>re_name = ep_name spec, re_stats = n,
     re_routable = (if is_listener (ep_kind spec) then None
       else Some \<lparr>rs_tx_queue = queue_at n, rs_identity = kind_identity (ep_kind spec), rs_endpoint_name = ep_name spec,
              rs_learn = learn_new LEARN_CAPACITY\<rparr>)\<rparr>"

lemma announce_routing:
  "i \<notin> fst ` set (r_routing r) \<Longrightarrow>
   r_routing (handle_event env (announcement spec i n) r) = r_routing r @ [(i, entry_of spec n)]"
  by (simp add: announcement_def entry_of_def register_routable_def build_routable_state_def update_fresh Let_def
      split: option.split)

lemma queues_of_entry: "endpoint_queue (entry_of spec n) = Some q \<Longrightarrow> q = n + 1"
  by (auto simp: endpoint_queue_def entry_of_def queue_at_def split: if_splits)

lemma collect_of_entry: "q \<in> set (collect_of endpoint_queue [(i, entry_of spec n)]) \<Longrightarrow> q = n + 1"
  by (auto split: option.splits dest: queues_of_entry)

lemma register_plan:
  assumes "router_reach env r" and "\<forall>q \<in> set (collect_of endpoint_queue (r_routing r)). q < n"
    and "distinct (map fst (r_routing r) @ map (\<lambda>p. fst (snd p)) (plan specs i n))"
  shows "router_reach env (fold (handle_event env) (map (\<lambda>(spec, i, n). announcement spec i n) (plan specs i n)) r)
    \<and> r_routing (fold (handle_event env) (map (\<lambda>(spec, i, n). announcement spec i n) (plan specs i n)) r)
        = r_routing r @ map (\<lambda>(spec, i, n). (i, entry_of spec n)) (plan specs i n)"
  using assms
proof (induction specs arbitrary: r i n)
  case (Cons spec specs)
  let ?r = "handle_event env (announcement spec i n) r"
  have new: "i \<notin> fst ` set (r_routing r)" using Cons.prems(3) by auto
  then have routing: "r_routing ?r = r_routing r @ [(i, entry_of spec n)]" by (rule announce_routing)
  have "event_fresh (announcement spec i n) r"
    using new Cons.prems(2) by (auto simp: announcement_def queue_at_def)
  with Cons.prems(1) have "router_reach env ?r" by (rule reach_event)
  moreover have "\<forall>q \<in> set (collect_of endpoint_queue (r_routing ?r)). q < n + refs_used spec"
  proof
    fix q
    assume "q \<in> set (collect_of endpoint_queue (r_routing ?r))"
    then consider "q \<in> set (collect_of endpoint_queue (r_routing r))" | "q \<in> set (collect_of endpoint_queue [(i, entry_of spec n)])"
      by (auto simp only: routing collect_of_append set_append)
    then show "q < n + refs_used spec"
    proof cases
      case 1
      with Cons.prems(2) show ?thesis by (simp add: trans_less_add1)
    next
      case 2
      then have "\<not> is_listener (ep_kind spec)" by (auto simp: entry_of_def endpoint_queue_def split: if_splits)
      with collect_of_entry [OF 2] show ?thesis by (simp add: refs_used_def)
    qed
  qed
  moreover have "distinct (map fst (r_routing ?r) @ map (\<lambda>p. fst (snd p)) (plan specs (i + 1) (n + refs_used spec)))"
    using Cons.prems(3) by (simp add: routing)
  ultimately show ?case using Cons.IH [of ?r "n + refs_used spec" "i + 1"] by (simp add: routing)
qed simp

lemma plan_ids_distinct: "length specs \<le> 2 ^ 64 \<Longrightarrow> distinct (map (\<lambda>p. fst (snd p)) (plan specs i n))"
proof -
  assume "length specs \<le> 2 ^ 64"
  then have "inj_on (\<lambda>k. of_nat k :: u64) {0..<length specs}"
    by (intro inj_onI) (simp add: word_unat_eq_iff unat_of_nat)
  then show ?thesis by (simp add: plan_ids distinct_map inj_on_def)
qed

section \<open>The state after the start\<close>

lemma announce_keeps:
  "r_dedup (handle_event env (announcement spec i n) r) = r_dedup r"
  "r_store (handle_event env (announcement spec i n) r) = r_store r"
  by (simp_all add: announcement_def register_routable_def build_routable_state_def forward_stats_def Let_def case_prod_unfold
      split: option.split try_send_result.split)

lemma announcements_keep:
  "r_dedup (fold (handle_event env) (map (\<lambda>(spec, i, n). announcement spec i n) ps) r) = r_dedup r"
  "r_store (fold (handle_event env) (map (\<lambda>(spec, i, n). announcement spec i n) ps) r) = r_store r"
  by (induction ps arbitrary: r) (auto simp: announce_keeps)

text \<open>
  The router once it has consumed the announcements, and the tasks, by the plan that gives each
  endpoint its identifier and references.
\<close>

lemma run_start_plan:
  assumes "reliable_events send_event contents" and "\<And>cap. contents (event_channel cap) = []"
    and "length (cfg_endpoints cfg) \<le> 2 ^ 64"
    and "sys = run_start aq send_event event_channel stats_channel st cfg cancel" and "s = sy_spawner sys"
    and "r = fold (handle_event env) (contents (sp_event_tx s)) (sy_router sys)"
    and "ps = plan (cfg_endpoints cfg) 0 (sto_next st)"
  shows "sp_tasks s = map (\<lambda>(spec, i, n). task_of cancel (ep_kind spec) (ep_name spec) i n) ps"
    and "sp_store s = fold (store_with aq) (cfg_endpoints cfg) st"
    and "router_reach env r" and "r_routing r = map (\<lambda>(spec, i, n). (i, entry_of spec n)) ps"
    and "r_store r = sp_store s" and "r_dedup r = dedup_new (from_millis (cfg_dedup_ms cfg)) DEFAULT_DEDUP_WINDOW_CAPACITY"
    and "r = fold (handle_event env) (map (\<lambda>(spec, i, n). announcement spec i n) ps) (sy_router sys)" and "r_groups (sy_router sys) = []"
proof -
  let ?chan = "event_channel (max (estimate_registry_size (cfg_endpoints cfg) * 2) 64)"
  have s: "s = fold (spawn_endpoint aq send_event cancel) (cfg_endpoints cfg)
      \<lparr>sp_alloc = allocator_new, sp_store = st, sp_event_tx = ?chan, sp_tasks = []\<rparr>"
    by (simp add: assms(4,5) run_start_def Let_def spawn_endpoints_def)
  show "sp_tasks s = map (\<lambda>(spec, i, n). task_of cancel (ep_kind spec) (ep_name spec) i n) ps"
    and "sp_store s = fold (store_with aq) (cfg_endpoints cfg) st"
    using spawn_all [OF assms(1), of aq cancel "cfg_endpoints cfg" "\<lparr>sp_alloc = allocator_new, sp_store = st, sp_event_tx = ?chan, sp_tasks = []\<rparr>"]
    by (auto simp: s assms(7) allocator_new_def)
  have events: "contents (sp_event_tx s) = map (\<lambda>(spec, i, n). announcement spec i n) ps"
    using spawn_all [OF assms(1), of aq cancel "cfg_endpoints cfg" "\<lparr>sp_alloc = allocator_new, sp_store = st, sp_event_tx = ?chan, sp_tasks = []\<rparr>"]
    by (auto simp: s assms(2,7) allocator_new_def)
  have start: "sy_router sys = router_new (stats_channel (max (estimate_registry_size (cfg_endpoints cfg) * 2) 64)) (cfg_dedup_ms cfg)
      DEFAULT_DEDUP_WINDOW_CAPACITY (sp_store s)"
    by (simp add: assms(4,5) run_start_def Let_def)
  then show "r_groups (sy_router sys) = []" by (simp add: router_new_def)
  show r: "r = fold (handle_event env) (map (\<lambda>(spec, i, n). announcement spec i n) ps) (sy_router sys)"
    unfolding assms(6) events ..
  have "router_reach env r \<and> r_routing r = map (\<lambda>(spec, i, n). (i, entry_of spec n)) ps"
    using register_plan [OF reach_new, where specs = "cfg_endpoints cfg" and i = 0 and n = "sto_next st" and env = env]
      plan_ids_distinct [OF assms(3), of 0 "sto_next st"]
    unfolding r start assms(7) by (simp add: router_new_def)
  then show "router_reach env r" "r_routing r = map (\<lambda>(spec, i, n). (i, entry_of spec n)) ps" by auto
  show "r_store r = sp_store s" "r_dedup r = dedup_new (from_millis (cfg_dedup_ms cfg)) DEFAULT_DEDUP_WINDOW_CAPACITY"
    unfolding r announcements_keep start by (simp_all add: router_new_def)
qed

lemma plan_nth:
  assumes "k < length specs"
  obtains n where "plan specs 0 (sto_next st) ! k = (specs ! k, of_nat k, n)"
    and "\<not> is_listener (ep_kind (specs ! k)) \<Longrightarrow> sto_queue (fold (store_with aq) specs st) (n + 1) = aq_new aq 256"
proof -
  let ?plan = "plan specs 0 (sto_next st)"
  obtain spec i n where p: "?plan ! k = (spec, i, n)" by (cases "?plan ! k")
  have "map fst ?plan ! k = specs ! k" by (simp add: map_fst_plan)
  then have "spec = specs ! k" using p assms by simp
  moreover have "map (\<lambda>p. fst (snd p)) ?plan ! k = of_nat k" using assms by (simp add: plan_ids)
  then have "i = of_nat k" using p assms by simp
  moreover have "(spec, i, n) \<in> set ?plan" using p assms by (metis length_plan nth_mem)
  ultimately show ?thesis
    using that p plan_queues [of spec i n specs 0 st aq] by auto
qed

section \<open>Groups without duplicate suppression\<close>

text \<open>The declared members of a group: the endpoints of that group that are not sniffers.\<close>

definition declared_members :: "string \<Rightarrow> endpoint_spec list \<Rightarrow> endpoint_spec list" where
  "declared_members g specs =
     filter (\<lambda>spec. \<not> if_sniffer (kind_identity (ep_kind spec)) \<and> if_group (kind_identity (ep_kind spec)) = Some g) specs"

lemma count_member_lookup:
  "map_of (count_member spec by_group) g =
     (if declared_members g [spec] = [] then map_of by_group g
      else Some ((case map_of by_group g of Some n \<Rightarrow> n | None \<Rightarrow> 0) + 1))"
  by (auto simp: count_member_def declared_members_def Let_def update_conv' split: option.splits)

lemma count_member_distinct: "distinct (map fst by_group) \<Longrightarrow> distinct (map fst (count_member spec by_group))"
  by (auto simp: count_member_def Let_def distinct_update split: option.split)

lemma declared_members_append [simp]: "declared_members g (xs @ ys) = declared_members g xs @ declared_members g ys"
  by (simp add: declared_members_def)

lemma count_members:
  "distinct (map fst (fold count_member specs []))
   \<and> map_of (fold count_member specs []) g =
       (if declared_members g specs = [] then None else Some (length (declared_members g specs)))"
proof (induction specs rule: rev_induct)
  case Nil
  show ?case by (simp add: declared_members_def)
next
  case (snoc spec specs)
  moreover have "length (declared_members g [spec]) = (if declared_members g [spec] = [] then 0 else 1)"
    by (simp add: declared_members_def)
  ultimately show ?case by (auto simp: count_member_lookup count_member_distinct)
qed

section \<open>Properties\<close>

text \<open>
  C16. After the start, the router knows every declared endpoint, in order and before any task
  runs: the k-th endpoint has identifier k, its declared name and its own counters, and unless
  it is a listener it is a routing destination with its declared identity and an empty queue
  of its own; its task holds the same identifier, queue and counters. The registry is then in
  a state from which everything shown of the router holds.
\<close>

theorem startup_registers_every_endpoint:
  assumes "reliable_events send_event contents" and "\<And>cap. contents (event_channel cap) = []" and "aq_laws aq items capq"
    and "length (cfg_endpoints cfg) \<le> 2 ^ 64"
    and "sys = run_start aq send_event event_channel stats_channel st cfg cancel"
    and "specs = cfg_endpoints cfg" and "s = sy_spawner sys"
    and "r = fold (handle_event env) (contents (sp_event_tx s)) (sy_router sys)"
  shows "router_reach env r \<and> length (r_routing r) = length specs \<and> length (sp_tasks s) = length specs
    \<and> (\<forall>k < length specs. \<exists>n. r_routing r ! k = (of_nat k, entry_of (specs ! k) n)
         \<and> sp_tasks s ! k = task_of cancel (ep_kind (specs ! k)) (ep_name (specs ! k)) (of_nat k) n
         \<and> (\<not> is_listener (ep_kind (specs ! k)) \<longrightarrow> items (sto_queue (sp_store s) (n + 1)) = []))"
proof -
  let ?plan = "plan specs 0 (sto_next st)"
  note start = run_start_plan [OF assms(1,2,4,5,7,8) refl, folded assms(6)]
  have "\<exists>n. ?plan ! k = (specs ! k, of_nat k, n)
      \<and> (\<not> is_listener (ep_kind (specs ! k)) \<longrightarrow> items (sto_queue (sp_store s) (n + 1)) = [])" if "k < length specs" for k
    using plan_nth [OF that, of st aq] aq_lawsD(1) [OF assms(3), of 256] unfolding start(2) by (metis zero_less_numeral)
  with start(1,3,4) show ?thesis by (fastforce simp: case_prod_unfold)
qed

theorem startup_registers_every_endpoint_witness:
  "let sys = run_start list_queue (\<lambda>ev e. (e @ [ev], True)) (\<lambda>_. []) (\<lambda>_. []) demo_store0 (mo_config demo_outcome) None;
       r = fold (handle_event demo_env) (sp_event_tx (sy_spawner sys)) (sy_router sys)
   in router_reach demo_env r \<and> length (r_routing r) = 2"
proof -
  have "reliable_events (\<lambda>ev e. (e @ [ev], True)) id" by (simp add: reliable_events_def)
  moreover have specs: "cfg_endpoints (mo_config demo_outcome) = [demo_spec, demo_fc]" by (simp add: demo_outcome_def)
  ultimately show ?thesis
    using startup_registers_every_endpoint [OF _ _ list_queue_laws _ refl refl refl refl,
        of "\<lambda>ev e. (e @ [ev], True)" id "\<lambda>_. []" "mo_config demo_outcome" demo_env "\<lambda>_. []" demo_store0 None]
    by (simp add: Let_def)
qed

text \<open>
  The warning about groups without duplicate suppression: with the window switched off it
  names exactly the groups with two or more members that are not sniffers, each once, with the
  number of those members, in the order of their names; with a window it names none.
\<close>

theorem dedup_warning_exact:
  "set (groups_needing_dedup_warning specs dedup_ms)
     = {(g, n). dedup_ms = 0 \<and> n = length (declared_members g specs) \<and> 2 \<le> n}
   \<and> sorted (map fst (groups_needing_dedup_warning specs dedup_ms))
   \<and> distinct (map fst (groups_needing_dedup_warning specs dedup_ms))"
proof -
  let ?by_group = "fold count_member specs []"
  have distinct: "distinct (map fst ?by_group)" using count_members by blast
  have "(g, n) \<in> set ?by_group \<longleftrightarrow> declared_members g specs \<noteq> [] \<and> n = length (declared_members g specs)" for g n
    using map_of_eq_Some_iff [OF distinct, of g n] count_members [of specs g] by (auto split: if_splits)
  then have "set (filter (\<lambda>(_, n). n \<ge> 2) ?by_group) = {(g, n). n = length (declared_members g specs) \<and> 2 \<le> n}"
    by auto
  moreover have "distinct (map fst (sort_key fst (filter (\<lambda>(_, n). n \<ge> 2) ?by_group)))"
    using distinct by (simp add: distinct_map inj_on_def)
  ultimately show ?thesis
    by (auto simp: groups_needing_dedup_warning_def word_neq_0_conv [symmetric])
qed

end
