(* ===== verification/Dialect.thy ===== *)
theory Dialect
  imports Mav_Frame Rust_Text
begin

unbundle bit_operations_syntax

text \<open>
  The transforms of the build over parsed message definitions: \<^verbatim>\<open>build_support/crc_extra.rs\<close>,
  \<^verbatim>\<open>build_support/dialect_parse.rs\<close>, and the per-message part of \<^verbatim>\<open>build.rs\<close>. A panic of the build
  is an error value. Texts are ASCII, as the identifiers of the definitions are, so that a
  character is a byte.
\<close>

section \<open>The seed byte of a message\<close>

text \<open>Both copies of the checksum step are modelled; this is the one the build uses.\<close>

definition BUILD_CRC_INIT :: u16 where
  "BUILD_CRC_INIT = 0xFFFF"

definition build_crc16_update :: "u16 \<Rightarrow> u8 \<Rightarrow> u16" where
  "build_crc16_update crc byte =
     (let tmp = byte XOR (ucast (crc AND 0xFF) :: u8);
          tmp = tmp XOR push_bit 4 tmp;
          tmp16 = (ucast tmp :: u16)
      in drop_bit 8 crc XOR push_bit 8 tmp16 XOR push_bit 3 tmp16 XOR drop_bit 4 tmp16)"

datatype parse_array_error = Malformed string | BadLength string | ZeroLength string

datatype merge_error =
    CrcExtraConflict u32 string string u8 u8
  | NameConflict u32 string string

datatype build_panic =
    Unknown_Type
  | Bad_Array parse_array_error
  | Slice_Out_Of_Order
  | Target_Past_U8 string u16
  | Payload_Overflow string
  | Merge_Failed merge_error
  | Bad_Tag
  | Bad_Attribute
  | Bad_Message_Id string
  | Bad_Text
  | Xml_Error
  | No_Parent

record crc_extra_field =
  cef_name :: string
  cef_type_name :: string
  cef_array_length :: u8
  cef_is_extension :: bool

definition type_size :: "string \<Rightarrow> (build_panic, u8) res" where
  "type_size type_name =
     (if type_name \<in> {''char'', ''int8_t'', ''uint8_t'', ''uint8_t_mavlink_version''} then Inr 1
      else if type_name \<in> {''int16_t'', ''uint16_t''} then Inr 2
      else if type_name \<in> {''int32_t'', ''uint32_t'', ''float''} then Inr 4
      else if type_name \<in> {''int64_t'', ''uint64_t'', ''double''} then Inr 8
      else Inl Unknown_Type)"

definition crc_type :: "string \<Rightarrow> string" where
  "crc_type type_name = (if type_name = ''uint8_t_mavlink_version'' then ''uint8_t'' else type_name)"

text \<open>
  \<^verbatim>\<open>sort_by\<close> with the sizes compared in descending order: a stable sort. It compares every element of
  a list of two or more, so an unknown type makes it panic there, and compares nothing in a
  shorter list.
\<close>

definition size_key :: "string \<Rightarrow> int" where
  "size_key type_name = (case type_size type_name of Inr n \<Rightarrow> - uint n | Inl _ \<Rightarrow> 0)"

definition sort_by_size :: "('f \<Rightarrow> string) \<Rightarrow> 'f list \<Rightarrow> (build_panic, 'f list) res" where
  "sort_by_size ty fs =
     (if length fs \<ge> 2 \<and> (\<exists>f \<in> set fs. type_size (ty f) = Inl Unknown_Type) then Inl Unknown_Type
      else Inr (sort_key (\<lambda>f. size_key (ty f)) fs))"

definition as_bytes :: "string \<Rightarrow> bytes" where
  "as_bytes s = map of_char s"

definition crc_text :: "string \<Rightarrow> u16 \<Rightarrow> u16" where
  "crc_text s crc = fold (\<lambda>byte crc. build_crc16_update crc byte) (as_bytes s) crc"

definition crc_field :: "crc_extra_field \<Rightarrow> u16 \<Rightarrow> u16" where
  "crc_field field crc =
     (let type_for_crc = crc_type (cef_type_name field);
          crc = build_crc16_update (crc_text type_for_crc crc) (of_char CHR '' '');
          crc = build_crc16_update (crc_text (cef_name field) crc) (of_char CHR '' '')
      in if cef_array_length field > 0 then build_crc16_update crc (cef_array_length field) else crc)"

definition crc_extra_for_message :: "string \<Rightarrow> crc_extra_field list \<Rightarrow> (build_panic, u8) res" where
  "crc_extra_for_message msg_name fs =
     and_then (sort_by_size cef_type_name (filter (\<lambda>field. \<not> cef_is_extension field) fs)) (\<lambda>base.
       let crc = build_crc16_update (crc_text msg_name BUILD_CRC_INIT) (of_char CHR '' '');
           crc = fold crc_field base crc
       in Inr (ucast ((crc AND 0xFF) XOR drop_bit 8 crc)))"

section \<open>Fields and messages\<close>

record parsed_field =
  pf_name :: string
  pf_type_name :: string
  pf_array_length :: u8
  pf_is_extension :: bool

record parsed_message =
  pm_id :: u32
  pm_name :: string
  pm_fields :: "parsed_field list"

record msg_entry_gen =
  meg_name :: string
  meg_crc_extra :: u8
  meg_target_sys_offset :: "u8 option"
  meg_target_comp_offset :: "u8 option"

definition find_char :: "char \<Rightarrow> string \<Rightarrow> nat option" where
  "find_char c s = map_option (\<lambda>(a, b). length a) (split_once c s)"

text \<open>The outer option is the panic of slicing a text with its ends out of order.\<close>

definition parse_array_suffix :: "string \<Rightarrow> (parse_array_error, string \<times> u8) res option" where
  "parse_array_suffix type_name =
     (case find_char CHR ''['' type_name of
        None \<Rightarrow> Some (Inr (type_name, 0))
      | Some lb \<Rightarrow>
          (case find_char CHR '']'' type_name of
             None \<Rightarrow> Some (Inl (Malformed type_name))
           | Some rb \<Rightarrow>
               if rb < lb + 1 then None
               else Some (and_then (ok_or (parse_u8 (take (rb - (lb + 1)) (drop (lb + 1) type_name))) (BadLength type_name)) (\<lambda>len.
                 if len = 0 then Inl (ZeroLength type_name) else Inr (take lb type_name, len)))))"

text \<open>A hash map is an association list.\<close>

definition merge_entry ::
  "u32 \<Rightarrow> string \<Rightarrow> u8 \<Rightarrow> u8 option \<Rightarrow> u8 option \<Rightarrow> (u32 \<times> msg_entry_gen) list \<Rightarrow> (merge_error, (u32 \<times> msg_entry_gen) list) res" where
  "merge_entry msg_id msg_name extra target_sys target_comp entries =
     (case map_of entries msg_id of
        Some prev \<Rightarrow>
          if meg_crc_extra prev \<noteq> extra then Inl (CrcExtraConflict msg_id (meg_name prev) msg_name (meg_crc_extra prev) extra)
          else if meg_name prev \<noteq> msg_name then Inl (NameConflict msg_id (meg_name prev) msg_name)
          else Inr entries
      | None \<Rightarrow> Inr (AList.update msg_id \<lparr>meg_name = msg_name, meg_crc_extra = extra,
          meg_target_sys_offset = target_sys, meg_target_comp_offset = target_comp\<rparr> entries))"

section \<open>Target offsets\<close>

definition elem_count :: "parsed_field \<Rightarrow> u16" where
  "elem_count field = (if pf_array_length field = 0 then 1 else ucast (pf_array_length field))"

definition note_target :: "parsed_field \<Rightarrow> u16 \<Rightarrow> u8 option \<Rightarrow> u8 option \<Rightarrow> (build_panic, u8 option \<times> u8 option) res" where
  "note_target field off tsys tcomp =
     (if pf_array_length field = 0 \<and> pf_type_name field = ''uint8_t'' then
        (if unat off > 255 then Inl (Target_Past_U8 (pf_name field) off)
         else let target_off = (ucast off :: u8)
              in if pf_name field = ''target_system'' then Inr (Some target_off, tcomp)
                 else if pf_name field = ''target_component'' then Inr (tsys, Some target_off)
                 else Inr (tsys, tcomp))
      else Inr (tsys, tcomp))"

fun offsets_loop :: "parsed_field list \<Rightarrow> u16 \<Rightarrow> u8 option \<Rightarrow> u8 option \<Rightarrow> (build_panic, u8 option \<times> u8 option) res" where
  "offsets_loop [] off tsys tcomp = Inr (tsys, tcomp)"
| "offsets_loop (field # base) off tsys tcomp =
     and_then (note_target field off tsys tcomp) (\<lambda>(tsys, tcomp).
     and_then (type_size (pf_type_name field)) (\<lambda>elem.
       let n = (ucast elem :: u16) * elem_count field
       in if unat off + unat n \<ge> 65536 then Inl (Payload_Overflow (pf_name field))
          else offsets_loop base (off + n) tsys tcomp))"

definition compute_offsets :: "parsed_field list \<Rightarrow> (build_panic, u8 option \<times> u8 option) res" where
  "compute_offsets fs =
     and_then (sort_by_size pf_type_name (filter (\<lambda>field. \<not> pf_is_extension field) fs))
       (\<lambda>base. offsets_loop base 0 None None)"

section \<open>One message\<close>

definition crc_extra_field_of :: "parsed_field \<Rightarrow> crc_extra_field" where
  "crc_extra_field_of field =
     \<lparr>cef_name = pf_name field, cef_type_name = pf_type_name field, cef_array_length = pf_array_length field,
      cef_is_extension = pf_is_extension field\<rparr>"

definition ingest_message ::
  "parsed_message \<Rightarrow> (u32 \<times> msg_entry_gen) list \<Rightarrow> (build_panic, (u32 \<times> msg_entry_gen) list) res" where
  "ingest_message msg entries =
     and_then (crc_extra_for_message (pm_name msg) (map crc_extra_field_of (pm_fields msg))) (\<lambda>extra.
     and_then (compute_offsets (pm_fields msg)) (\<lambda>(target_sys, target_comp).
       map_err Merge_Failed (merge_entry (pm_id msg) (pm_name msg) extra target_sys target_comp entries)))"

section \<open>The checksum step agrees with the one of the router\<close>

lemma build_crc16_update_same: "build_crc16_update = crc16_update"
  by (intro ext) (simp add: build_crc16_update_def crc16_update_def)

lemma crc_text_slice: "crc_text s crc = crc_value (crc_update_slice (Crc16 crc) (as_bytes s))"
proof -
  have "fold (\<lambda>byte crc. build_crc16_update crc byte) bs crc = crc_value (crc_update_slice (Crc16 crc) bs)" for bs
    by (induction bs arbitrary: crc) (simp_all add: build_crc16_update_same crc_update_def)
  then show ?thesis by (simp add: crc_text_def)
qed

section \<open>The layout of a payload\<close>

text \<open>
  What the protocol says of the payload: the fields that are not extensions, the wider types
  first and otherwise in the order of their declaration, each with its size in bytes.
\<close>

definition wire_order :: "parsed_field list \<Rightarrow> parsed_field list" where
  "wire_order fs = sort_key (\<lambda>f. size_key (pf_type_name f)) (filter (\<lambda>f. \<not> pf_is_extension f) fs)"

definition wire_size :: "parsed_field \<Rightarrow> nat" where
  "wire_size f = (case type_size (pf_type_name f) of Inl _ \<Rightarrow> 0 | Inr n \<Rightarrow> unat n * unat (elem_count f))"

definition is_target :: "string \<Rightarrow> parsed_field \<Rightarrow> bool" where
  "is_target name f \<longleftrightarrow> pf_name f = name \<and> pf_type_name f = ''uint8_t'' \<and> pf_array_length f = 0"

fun last_target :: "string \<Rightarrow> parsed_field list \<Rightarrow> nat \<Rightarrow> nat option" where
  "last_target name [] off = None"
| "last_target name (f # base) off =
     (case last_target name base (off + wire_size f) of
        Some o' \<Rightarrow> Some o'
      | None \<Rightarrow> if is_target name f then Some off else None)"

lemma last_target_None: "last_target name base off = None \<longleftrightarrow> (\<forall>f \<in> set base. \<not> is_target name f)"
proof (induction base arbitrary: off)
  case (Cons f base)
  from Cons [of "off + wire_size f"] show ?case by (auto split: option.split)
qed simp

lemma last_target_Some:
  "last_target name base off = Some o' \<Longrightarrow>
   \<exists>pre f post. base = pre @ f # post \<and> is_target name f \<and> (\<forall>g \<in> set post. \<not> is_target name g)
     \<and> o' = off + sum_list (map wire_size pre)"
proof (induction base arbitrary: off o')
  case (Cons f base)
  show ?case
  proof (cases "last_target name base (off + wire_size f)")
    case None
    with Cons.prems show ?thesis by (auto simp: last_target_None split: if_splits intro!: exI [of _ "[]"])
  next
    case (Some o2)
    then obtain pre g post where "base = pre @ g # post" "is_target name g" "\<forall>g \<in> set post. \<not> is_target name g"
      "o2 = off + wire_size f + sum_list (map wire_size pre)"
      using Cons.IH by blast
    with Some Cons.prems show ?thesis by (intro exI [of _ "f # pre"]) auto
  qed
qed simp

lemma type_size_le: "type_size ty = Inr n \<Longrightarrow> unat n \<le> 8"
  by (auto simp: type_size_def split: if_splits)

lemma elem_count_le: "unat (elem_count f) \<le> 255"
  using unat_u8_less [of "pf_array_length f"] by (simp add: elem_count_def unsigned_ucast_eq take_bit_eq_mod)

text \<open>The product of a size and a count never wraps.\<close>

lemma field_bytes:
  assumes "type_size (pf_type_name f) = Inr n"
  shows "unat ((ucast n :: u16) * elem_count f) = wire_size f"
proof -
  have "unat n * unat (elem_count f) \<le> 8 * 255"
    using type_size_le [OF assms] elem_count_le [of f] by (rule mult_le_mono)
  moreover have "unat (ucast n :: u16) = unat n" using unat_u8_less [of n] by (simp add: unsigned_ucast_eq take_bit_eq_mod)
  ultimately show ?thesis using assms by (simp add: wire_size_def unat_word_ariths)
qed

lemma note_target_Inr:
  assumes "note_target f off tsys tcomp = Inr t"
  shows "t = (if is_target ''target_system'' f then Some (ucast off) else tsys,
    if is_target ''target_component'' f then Some (ucast off) else tcomp)"
    and "is_target name f \<Longrightarrow> unat off \<le> 255"
proof -
  show "t = (if is_target ''target_system'' f then Some (ucast off) else tsys,
    if is_target ''target_component'' f then Some (ucast off) else tcomp)"
  proof (cases "pf_array_length f = 0 \<and> pf_type_name f = ''uint8_t''")
    case True
    with assms have "\<not> unat off > 255" by (auto simp: note_target_def)
    with True assms show ?thesis by (cases "pf_name f = ''target_system''") (auto simp: note_target_def is_target_def)
  qed (use assms in \<open>auto simp: note_target_def is_target_def\<close>)
  assume "is_target name f"
  with assms show "unat off \<le> 255" by (auto simp: note_target_def is_target_def split: if_splits)
qed

lemma offsets_loop_step:
  assumes "offsets_loop (f # base) off tsys tcomp = Inr r"
  obtains n where "type_size (pf_type_name f) = Inr n" and "unat off + wire_size f < 65536"
    and "\<And>name. is_target name f \<Longrightarrow> unat off \<le> 255"
    and "offsets_loop base (off + ucast n * elem_count f)
      (if is_target ''target_system'' f then Some (ucast off) else tsys)
      (if is_target ''target_component'' f then Some (ucast off) else tcomp) = Inr r"
proof -
  obtain t n where t: "note_target f off tsys tcomp = Inr t" and n: "type_size (pf_type_name f) = Inr n"
    and fit: "unat off + unat ((ucast n :: u16) * elem_count f) < 65536"
    and rest: "offsets_loop base (off + ucast n * elem_count f) (fst t) (snd t) = Inr r"
    using assms by (auto simp: and_then_eq_Inr Let_def not_le case_prod_unfold split: if_splits)
  show ?thesis
    using that [OF n] note_target_Inr [OF t] rest fit field_bytes [OF n] by simp
qed

lemma offsets_loop_exact:
  "offsets_loop base off tsys tcomp = Inr (tsys', tcomp') \<Longrightarrow>
     tsys' = (case last_target ''target_system'' base (unat off) of None \<Rightarrow> tsys | Some o' \<Rightarrow> Some (of_nat o'))
   \<and> tcomp' = (case last_target ''target_component'' base (unat off) of None \<Rightarrow> tcomp | Some o' \<Rightarrow> Some (of_nat o'))
   \<and> (\<forall>name o'. last_target name base (unat off) = Some o' \<longrightarrow> o' \<le> 255)"
proof (induction base arbitrary: off tsys tcomp)
  case (Cons f base)
  then obtain n where n: "type_size (pf_type_name f) = Inr n" and fit: "unat off + wire_size f < 65536"
    and small: "\<And>name. is_target name f \<Longrightarrow> unat off \<le> 255"
    and rest: "offsets_loop base (off + ucast n * elem_count f)
      (if is_target ''target_system'' f then Some (ucast off) else tsys)
      (if is_target ''target_component'' f then Some (ucast off) else tcomp) = Inr (tsys', tcomp')"
    by (blast elim: offsets_loop_step)
  have off: "unat (off + ucast n * elem_count f) = unat off + wire_size f"
    using fit field_bytes [OF n] by (simp add: unat_word_ariths(1))
  note ih = Cons.IH [OF rest, unfolded off]
  show ?case
  proof (intro conjI allI impI)
    show "tsys' = (case last_target ''target_system'' (f # base) (unat off) of None \<Rightarrow> tsys | Some o' \<Rightarrow> Some (of_nat o'))"
      using ih [THEN conjunct1] by (cases "last_target ''target_system'' base (unat off + wire_size f)") simp_all
    show "tcomp' = (case last_target ''target_component'' (f # base) (unat off) of None \<Rightarrow> tcomp | Some o' \<Rightarrow> Some (of_nat o'))"
      using ih [THEN conjunct2, THEN conjunct1]
      by (cases "last_target ''target_component'' base (unat off + wire_size f)") simp_all
  next
    fix name o'
    assume "last_target name (f # base) (unat off) = Some o'"
    then show "o' \<le> 255"
      using ih [THEN conjunct2, THEN conjunct2] small [of name]
      by (cases "last_target name base (unat off + wire_size f)") (simp_all split: if_splits)
  qed
qed simp

lemma compute_offsets_exact:
  assumes "compute_offsets fs = Inr (tsys, tcomp)"
  shows "tsys = map_option of_nat (last_target ''target_system'' (wire_order fs) 0)"
    and "tcomp = map_option of_nat (last_target ''target_component'' (wire_order fs) 0)"
    and "last_target name (wire_order fs) 0 = Some o' \<Longrightarrow> o' \<le> 255"
proof -
  have loop: "offsets_loop (wire_order fs) 0 None None = Inr (tsys, tcomp)"
    using assms by (auto simp: compute_offsets_def sort_by_size_def wire_order_def and_then_eq_Inr split: if_splits)
  note exact = offsets_loop_exact [OF this, unfolded unat_0]
  show "tsys = map_option of_nat (last_target ''target_system'' (wire_order fs) 0)"
    using exact [THEN conjunct1] by (cases "last_target ''target_system'' (wire_order fs) 0") simp_all
  show "tcomp = map_option of_nat (last_target ''target_component'' (wire_order fs) 0)"
    using exact [THEN conjunct2, THEN conjunct1] by (cases "last_target ''target_component'' (wire_order fs) 0") simp_all
  show "last_target name (wire_order fs) 0 = Some o' \<Longrightarrow> o' \<le> 255"
    using exact [THEN conjunct2, THEN conjunct2] by blast
qed

text \<open>The field a target is read from, and the bytes of a payload, given the bytes of each field.\<close>

definition target_field :: "string \<Rightarrow> parsed_field list \<Rightarrow> parsed_field option" where
  "target_field name fs = find (is_target name) (rev (wire_order fs))"

definition payload_of :: "(parsed_field \<Rightarrow> bytes) \<Rightarrow> parsed_field list \<Rightarrow> bytes" where
  "payload_of enc fs = concat (map enc (wire_order fs))"

lemma is_target_size: "is_target name f \<Longrightarrow> wire_size f = 1"
  by (simp add: is_target_def wire_size_def type_size_def elem_count_def)

lemma target_byte:
  assumes enc: "\<And>f. f \<in> set fs \<Longrightarrow> length (enc f) = wire_size f" and o': "last_target name (wire_order fs) 0 = Some o'"
  obtains f where "target_field name fs = Some f" and "o' < length (payload_of enc fs)" and "payload_of enc fs ! o' = enc f ! 0"
proof -
  obtain pre f post where split: "wire_order fs = pre @ f # post" and f: "is_target name f"
    and post: "\<forall>g \<in> set post. \<not> is_target name g" and o2: "o' = sum_list (map wire_size pre)"
    using last_target_Some [OF o'] by auto
  have "set (wire_order fs) \<subseteq> set fs" by (auto simp: wire_order_def)
  with split have sub: "f \<in> set fs" "set pre \<subseteq> set fs" by auto
  have "length (concat (map enc pre)) = o'"
    unfolding o2 length_concat map_map using sub(2) enc by (intro arg_cong [where f = sum_list] map_cong) auto
  moreover have "length (enc f) = 1" using enc [OF sub(1)] is_target_size [OF f] by simp
  moreover have "find (is_target name) (rev post @ xs) = find (is_target name) xs" for xs
    using post by (induction post arbitrary: xs) auto
  ultimately show ?thesis
    using that [of f] f by (simp add: target_field_def payload_of_def split nth_append)
qed

lemma no_target: "last_target name (wire_order fs) 0 = None \<Longrightarrow> target_field name fs = None"
  by (simp add: last_target_None target_field_def find_None_iff)

section \<open>What a message contributes\<close>

definition entry_for :: "parsed_message \<Rightarrow> (build_panic, msg_entry_gen) res" where
  "entry_for msg =
     and_then (crc_extra_for_message (pm_name msg) (map crc_extra_field_of (pm_fields msg))) (\<lambda>extra.
     and_then (compute_offsets (pm_fields msg)) (\<lambda>(target_sys, target_comp).
       Inr \<lparr>meg_name = pm_name msg, meg_crc_extra = extra, meg_target_sys_offset = target_sys, meg_target_comp_offset = target_comp\<rparr>))"

lemma ingest_message_Inr:
  assumes "ingest_message msg entries = Inr entries'"
  obtains e where "entry_for msg = Inr e"
    and "entries' = (case map_of entries (pm_id msg) of None \<Rightarrow> entries @ [(pm_id msg, e)] | Some _ \<Rightarrow> entries)"
    and "\<And>prev. map_of entries (pm_id msg) = Some prev \<Longrightarrow> meg_name prev = meg_name e \<and> meg_crc_extra prev = meg_crc_extra e"
proof -
  obtain extra ts tc where c: "crc_extra_for_message (pm_name msg) (map crc_extra_field_of (pm_fields msg)) = Inr extra"
    and o: "compute_offsets (pm_fields msg) = Inr (ts, tc)"
    and m: "merge_entry (pm_id msg) (pm_name msg) extra ts tc entries = Inr entries'"
    using assms by (auto simp: ingest_message_def and_then_eq_Inr split: sum.splits)
  have new: "k \<notin> fst ` set al \<Longrightarrow> AList.update k v al = al @ [(k, v)]" for k v and al :: "(u32 \<times> msg_entry_gen) list"
    by (induction al) auto
  show ?thesis
    using that [of "\<lparr>meg_name = pm_name msg, meg_crc_extra = extra, meg_target_sys_offset = ts, meg_target_comp_offset = tc\<rparr>"] c o m
    by (auto simp: entry_for_def merge_entry_def new map_of_eq_None_iff split: option.splits if_splits)
qed

end
