(* ===== verification/Include_Walk.thy ===== *)
theory Include_Walk
  imports Prelude
begin

text \<open>
  The walk over the include graph of the message definitions, \<^verbatim>\<open>build_support/xml_loader.rs\<close>: a
  depth-first search that loads every file once and reports a cycle. The two hash sets are lists
  without repetition; the first keeps the order of loading.
\<close>

section \<open>The walk\<close>

datatype ('k, 'e) walk_error = Walk_Cycle 'k | Walk_LoadFailed 'k 'e

record ('k, 's) walk_state =
  wk_visited :: "'k list"
  wk_in_progress :: "'k list"
  wk_state :: 's

text \<open>
  \<^verbatim>\<open>load\<close> is the closure of the caller, with what it captures by mutable reference as a state. The
  recursion has fuel; running out of it is \<^term>\<open>None\<close>.
\<close>

type_synonym ('k, 's, 'e) loader = "'k \<Rightarrow> 's \<Rightarrow> ('e, 'k list \<times> 's) res"

fun walk_inner :: "nat \<Rightarrow> ('k, 's, 'e) loader \<Rightarrow> 'k \<Rightarrow> ('k, 's) walk_state \<Rightarrow> (('k, 'e) walk_error, ('k, 's) walk_state) res option"
and walk_each :: "nat \<Rightarrow> ('k, 's, 'e) loader \<Rightarrow> 'k list \<Rightarrow> ('k, 's) walk_state \<Rightarrow> (('k, 'e) walk_error, ('k, 's) walk_state) res option" where
  "walk_inner 0 load key w = None"
| "walk_inner (Suc fuel) load key w =
     (if key \<in> set (wk_in_progress w) then Some (Inl (Walk_Cycle key))
      else if key \<in> set (wk_visited w) then Some (Inr w)
      else case load key (wk_state w) of
        Inl reason \<Rightarrow> Some (Inl (Walk_LoadFailed key reason))
      | Inr (incl, s) \<Rightarrow>
          (case walk_each fuel load incl
             \<lparr>wk_visited = wk_visited w @ [key], wk_in_progress = key # wk_in_progress w, wk_state = s\<rparr> of
             None \<Rightarrow> None
           | Some (Inl e) \<Rightarrow> Some (Inl e)
           | Some (Inr w') \<Rightarrow> Some (Inr (w'\<lparr>wk_in_progress := remove1 key (wk_in_progress w')\<rparr>))))"
| "walk_each fuel load [] w = Some (Inr w)"
| "walk_each fuel load (inc # incl) w =
     (case walk_inner fuel load inc w of
        None \<Rightarrow> None
      | Some (Inl e) \<Rightarrow> Some (Inl e)
      | Some (Inr w') \<Rightarrow> walk_each fuel load incl w')"

definition walk_includes :: "nat \<Rightarrow> 'k \<Rightarrow> ('k, 's, 'e) loader \<Rightarrow> 's \<Rightarrow> (('k, 'e) walk_error, 's) res option" where
  "walk_includes fuel root load s =
     map_option (\<lambda>r. and_then r (\<lambda>w. Inr (wk_state w)))
       (walk_inner fuel load root \<lparr>wk_visited = [], wk_in_progress = [], wk_state = s\<rparr>)"

section \<open>What the walk establishes\<close>

text \<open>Loading a list of files one after the other, and the include graph.\<close>

fun load_all :: "('k, 's, 'e) loader \<Rightarrow> 'k list \<Rightarrow> 's \<Rightarrow> ('e, 's) res" where
  "load_all load [] s = Inr s"
| "load_all load (k # ks) s = and_then (load k s) (\<lambda>(_, s'). load_all load ks s')"

lemma load_all_append: "load_all load (ks @ ls) s = and_then (load_all load ks s) (load_all load ls)"
  by (induction ks arbitrary: s) (auto simp: and_then_def split: sum.split)

definition edges :: "('k \<Rightarrow> 'k list) \<Rightarrow> ('k \<times> 'k) set" where
  "edges incl = {(a, b). b \<in> set (incl a)}"

definition finished :: "('k, 's) walk_state \<Rightarrow> 'k set" where
  "finished w = set (wk_visited w) - set (wk_in_progress w)"

text \<open>
  The search keeps the finished files closed under inclusion and free of cycles, and what is in
  progress among the visited.
\<close>

definition walk_ok :: "('k \<Rightarrow> 'k list) \<Rightarrow> ('k, 's) walk_state \<Rightarrow> bool" where
  "walk_ok incl w \<longleftrightarrow> distinct (wk_visited w) \<and> distinct (wk_in_progress w) \<and> set (wk_in_progress w) \<subseteq> set (wk_visited w)
     \<and> (\<forall>x \<in> finished w. set (incl x) \<subseteq> finished w \<and> (x, x) \<notin> (edges incl)\<^sup>+)"

text \<open>A walk from one state to another that loaded files reachable from the given ones.\<close>

definition walked :: "('k, 's, 'e) loader \<Rightarrow> ('k \<Rightarrow> 'k list) \<Rightarrow> 'k set \<Rightarrow> ('k, 's) walk_state \<Rightarrow> ('k, 's) walk_state \<Rightarrow> bool" where
  "walked load incl roots w w' \<longleftrightarrow> walk_ok incl w' \<and> wk_in_progress w' = wk_in_progress w \<and> roots \<subseteq> finished w'
     \<and> (\<exists>new. wk_visited w' = wk_visited w @ new \<and> set new \<subseteq> (edges incl)\<^sup>* `` roots
          \<and> load_all load new (wk_state w) = Inr (wk_state w'))"

fun genuine :: "('k, 's, 'e) loader \<Rightarrow> ('k \<Rightarrow> 'k list) \<Rightarrow> 'k set \<Rightarrow> ('k, 'e) walk_error \<Rightarrow> bool" where
  "genuine load incl roots (Walk_Cycle k) \<longleftrightarrow> k \<in> (edges incl)\<^sup>* `` roots \<and> (k, k) \<in> (edges incl)\<^sup>+"
| "genuine load incl roots (Walk_LoadFailed k reason) \<longleftrightarrow> k \<in> (edges incl)\<^sup>* `` roots \<and> (\<exists>s. load k s = Inl reason)"

lemma genuine_mono:
  "genuine load incl A e \<Longrightarrow> (edges incl)\<^sup>* `` A \<subseteq> (edges incl)\<^sup>* `` B \<Longrightarrow> genuine load incl B e"
  by (cases e) auto

lemma closed_trancl: "(x, y) \<in> (edges incl)\<^sup>+ \<Longrightarrow> walk_ok incl w \<Longrightarrow> x \<in> finished w \<Longrightarrow> y \<in> finished w"
  by (induction rule: trancl_induct) (auto simp: walk_ok_def edges_def)

text \<open>Entering a file: it is visited and in progress. Leaving it: everything it incl is finished, so it lies on no cycle.\<close>

lemma walk_ok_enter:
  assumes "walk_ok incl w" and "key \<notin> set (wk_visited w)"
  shows "walk_ok incl \<lparr>wk_visited = wk_visited w @ [key], wk_in_progress = key # wk_in_progress w, wk_state = s\<rparr>"
proof -
  have "finished \<lparr>wk_visited = wk_visited w @ [key], wk_in_progress = key # wk_in_progress w, wk_state = s\<rparr> = finished w"
    using assms by (auto simp: finished_def)
  with assms show ?thesis by (auto simp: walk_ok_def)
qed

lemma walk_ok_leave:
  assumes ok: "walk_ok incl w" and p: "wk_in_progress w = key # p" and incs: "set (incl key) \<subseteq> finished w"
  shows "walk_ok incl (w\<lparr>wk_in_progress := p\<rparr>)" and "finished (w\<lparr>wk_in_progress := p\<rparr>) = insert key (finished w)"
proof -
  show fin: "finished (w\<lparr>wk_in_progress := p\<rparr>) = insert key (finished w)"
    using ok p by (auto simp: finished_def walk_ok_def)
  have "(key, key) \<notin> (edges incl)\<^sup>+"
  proof
    assume "(key, key) \<in> (edges incl)\<^sup>+"
    then obtain y where "(key, y) \<in> edges incl" "(y, key) \<in> (edges incl)\<^sup>*" by (meson tranclD)
    with incs have "key \<in> finished w"
      using closed_trancl [OF _ ok, of y key] by (auto simp: edges_def rtrancl_eq_or_trancl)
    with p show False by (simp add: finished_def)
  qed
  with ok p incs fin show "walk_ok incl (w\<lparr>wk_in_progress := p\<rparr>)"
    by (auto simp: walk_ok_def)
qed

definition outcome_ok :: "('k, 's, 'e) loader \<Rightarrow> ('k \<Rightarrow> 'k list) \<Rightarrow> 'k set \<Rightarrow> ('k, 's) walk_state
    \<Rightarrow> (('k, 'e) walk_error, ('k, 's) walk_state) res option \<Rightarrow> bool" where
  "outcome_ok load incl roots w r =
     (case r of None \<Rightarrow> True | Some (Inr w') \<Rightarrow> walked load incl roots w w' | Some (Inl e) \<Rightarrow> genuine load incl roots e)"

definition walk_ends :: "('k, 's) walk_state \<Rightarrow> (('k, 'e) walk_error, ('k, 's) walk_state) res option \<Rightarrow> bool" where
  "walk_ends w r \<longleftrightarrow> (\<exists>e. r = Some (Inl e)) \<or> (\<exists>w'. r = Some (Inr w') \<and> wk_in_progress w' = wk_in_progress w)"

text \<open>
  The contract: every file reachable from the root is loaded exactly once and none of them lies
  on a cycle, or the walk reports a file that does, or one that cannot be loaded.
\<close>

definition walk_spec :: "('k, 's, 'e) loader \<Rightarrow> ('k \<Rightarrow> 'k list) \<Rightarrow> 'k \<Rightarrow> 's \<Rightarrow> (('k, 'e) walk_error, 's) res \<Rightarrow> bool" where
  "walk_spec load incl root s r =
     (case r of
        Inl e \<Rightarrow> genuine load incl {root} e
      | Inr s' \<Rightarrow> (\<exists>ks. distinct ks \<and> set ks = (edges incl)\<^sup>* `` {root} \<and> load_all load ks s = Inr s'
          \<and> (\<forall>k \<in> set ks. (k, k) \<notin> (edges incl)\<^sup>+)))"

text \<open>The interface of a loader: which files a file incl does not depend on what was loaded before.\<close>

locale include_graph =
  fixes load :: "('k, 's, 'e) loader"
    and incl :: "'k \<Rightarrow> 'k list"
  assumes load_includes: "load k s = Inr (ks, s') \<Longrightarrow> ks = incl k"
begin

lemma walked_enter:
  assumes w: "walked load incl (set (incl key))
      \<lparr>wk_visited = wk_visited w @ [key], wk_in_progress = key # wk_in_progress w, wk_state = s\<rparr> w'"
    and ld: "load key (wk_state w) = Inr (incl key, s)"
  shows "walked load incl {key} w (w'\<lparr>wk_in_progress := remove1 key (wk_in_progress w')\<rparr>)"
proof -
  obtain new where w': "walk_ok incl w'" "wk_in_progress w' = key # wk_in_progress w" "set (incl key) \<subseteq> finished w'"
    "wk_visited w' = wk_visited w @ key # new" "set new \<subseteq> (edges incl)\<^sup>* `` set (incl key)"
    "load_all load new s = Inr (wk_state w')"
    using w by (auto simp: walked_def)
  have "set (key # new) \<subseteq> (edges incl)\<^sup>* `` {key}"
    using w'(5) by (auto simp: edges_def intro: converse_rtrancl_into_rtrancl)
  moreover have "load_all load (key # new) (wk_state w) = Inr (wk_state w')" using ld w'(6) by simp
  ultimately show ?thesis
    using walk_ok_leave [OF w'(1,2,3)] w'(2,4) by (auto simp: walked_def intro!: exI [of _ "key # new"])
qed

lemma walked_trans:
  assumes "walked load incl A w w'" and "walked load incl B w' w''"
  shows "walked load incl (A \<union> B) w w''"
proof -
  obtain new new' where n: "wk_visited w' = wk_visited w @ new" "wk_visited w'' = wk_visited w' @ new'"
    "set new \<subseteq> (edges incl)\<^sup>* `` A" "set new' \<subseteq> (edges incl)\<^sup>* `` B"
    "load_all load new (wk_state w) = Inr (wk_state w')" "load_all load new' (wk_state w') = Inr (wk_state w'')"
    using assms by (auto simp: walked_def)
  have "finished w' \<subseteq> finished w''" using assms n(2) by (auto simp: walked_def finished_def)
  moreover have "load_all load (new @ new') (wk_state w) = Inr (wk_state w'')" using n(5,6) by (simp add: load_all_append)
  moreover have "set (new @ new') \<subseteq> (edges incl)\<^sup>* `` (A \<union> B)" using n(3,4) by auto
  ultimately show ?thesis
    using assms n(1,2) by (auto simp: walked_def intro!: exI [of _ "new @ new'"])
qed

lemma each_sound:
  assumes inner: "\<And>key w. walk_ok incl w \<Longrightarrow> \<forall>x \<in> set (wk_in_progress w). (x, key) \<in> (edges incl)\<^sup>+ \<Longrightarrow> outcome_ok load incl {key} w (walk_inner fuel load key w)"
  shows "walk_ok incl w \<Longrightarrow> \<forall>x \<in> set (wk_in_progress w). \<forall>k \<in> set ks. (x, k) \<in> (edges incl)\<^sup>+ \<Longrightarrow>
    outcome_ok load incl (set ks) w (walk_each fuel load ks w)"
proof (induction ks arbitrary: w)
  case Nil
  then show ?case by (simp add: outcome_ok_def walked_def)
next
  case (Cons k ks)
  have first: "outcome_ok load incl {k} w (walk_inner fuel load k w)" using inner [OF Cons.prems(1)] Cons.prems(2) by simp
  show ?case
  proof (cases "\<exists>w'. walk_inner fuel load k w = Some (Inr w')")
    case False
    with first show ?thesis
      by (auto simp: outcome_ok_def intro: genuine_mono split: option.splits sum.splits)
  next
    case True
    then obtain w' where w': "walk_inner fuel load k w = Some (Inr w')" by blast
    with first have walked: "walked load incl {k} w w'" by (simp add: outcome_ok_def)
    then have rest: "outcome_ok load incl (set ks) w' (walk_each fuel load ks w')"
      using Cons.IH [of w'] Cons.prems(2) by (auto simp: walked_def)
    with w' walked_trans [OF walked, of "set ks"] show ?thesis
      by (auto simp: outcome_ok_def intro: genuine_mono split: option.splits sum.splits)
  qed
qed

lemma inner_sound:
  "walk_ok incl w \<Longrightarrow> \<forall>x \<in> set (wk_in_progress w). (x, key) \<in> (edges incl)\<^sup>+ \<Longrightarrow> outcome_ok load incl {key} w (walk_inner fuel load key w)"
proof (induction fuel arbitrary: key w)
  case 0
  then show ?case by (simp add: outcome_ok_def)
next
  case (Suc fuel)
  consider "key \<in> set (wk_in_progress w)" | "key \<in> finished w" | "key \<notin> set (wk_visited w)"
    using Suc.prems(1) by (auto simp: finished_def)
  then show ?case
  proof cases
    case 1
    with Suc.prems(2) show ?thesis by (simp add: outcome_ok_def)
  next
    case 2
    with Suc.prems(1) show ?thesis by (simp add: outcome_ok_def walked_def finished_def)
  next
    case 3
    then have new: "key \<notin> set (wk_in_progress w)" using Suc.prems(1) by (auto simp: walk_ok_def)
    show ?thesis
    proof (cases "load key (wk_state w)")
      case (Inl reason)
      with 3 new show ?thesis by (auto simp: outcome_ok_def)
    next
      case (Inr r)
      then obtain s where s: "load key (wk_state w) = Inr (incl key, s)" using load_includes by (cases r) blast
      let ?w = "\<lparr>wk_visited = wk_visited w @ [key], wk_in_progress = key # wk_in_progress w, wk_state = s\<rparr>"
      have "\<forall>x \<in> set (wk_in_progress ?w). \<forall>k \<in> set (incl key). (x, k) \<in> (edges incl)\<^sup>+"
        using Suc.prems(2) by (auto simp: edges_def intro: trancl_into_trancl)
      with each_sound [OF Suc.IH walk_ok_enter [OF Suc.prems(1) 3]]
      have "outcome_ok load incl (set (incl key)) ?w (walk_each fuel load (incl key) ?w)" by blast
      moreover have "(edges incl)\<^sup>* `` set (incl key) \<subseteq> (edges incl)\<^sup>* `` {key}"
        by (auto simp: edges_def intro: converse_rtrancl_into_rtrancl)
      ultimately show ?thesis
        using 3 new s walked_enter [OF _ s] by (auto simp: outcome_ok_def intro: genuine_mono split: option.splits sum.splits)
    qed
  qed
qed

text \<open>Enough fuel: every level of the recursion has one more file in progress.\<close>

lemma each_ends:
  assumes "\<And>key w. key \<in> G \<Longrightarrow> card (G - set (wk_in_progress w)) < fuel \<Longrightarrow> walk_ends w (walk_inner fuel load key w)"
  shows "set ks \<subseteq> G \<Longrightarrow> card (G - set (wk_in_progress w)) < fuel \<Longrightarrow> walk_ends w (walk_each fuel load ks w)"
proof (induction ks arbitrary: w)
  case (Cons k ks)
  then have "walk_ends w (walk_inner fuel load k w)" using assms by simp
  then consider e where "walk_inner fuel load k w = Some (Inl e)"
    | w' where "walk_inner fuel load k w = Some (Inr w')" "wk_in_progress w' = wk_in_progress w"
    by (auto simp: walk_ends_def)
  then show ?case
  proof cases
    case 2
    with Cons.IH [of w'] Cons.prems show ?thesis by (simp add: walk_ends_def)
  qed (simp add: walk_ends_def)
qed (simp add: walk_ends_def)

lemma inner_ends:
  assumes "finite G" and closed: "\<And>k. k \<in> G \<Longrightarrow> set (incl k) \<subseteq> G"
  shows "key \<in> G \<Longrightarrow> card (G - set (wk_in_progress w)) < fuel \<Longrightarrow> walk_ends w (walk_inner fuel load key w)"
proof (induction fuel arbitrary: key w)
  case (Suc fuel)
  have less: "card (G - set (key # wk_in_progress w)) < fuel" if "key \<notin> set (wk_in_progress w)"
  proof -
    have "G - set (key # wk_in_progress w) \<subset> G - set (wk_in_progress w)" using that Suc.prems(1) by auto
    with assms(1) have "card (G - set (key # wk_in_progress w)) < card (G - set (wk_in_progress w))" by (simp add: psubset_card_mono)
    with Suc.prems(2) show ?thesis by simp
  qed
  show ?case
  proof (cases "load key (wk_state w)")
    case (Inr r)
    then obtain s where s: "load key (wk_state w) = Inr (incl key, s)" using load_includes by (cases r) blast
    let ?w = "\<lparr>wk_visited = wk_visited w @ [key], wk_in_progress = key # wk_in_progress w, wk_state = s\<rparr>"
    have "walk_ends ?w (walk_each fuel load (incl key) ?w)" if "key \<notin> set (wk_in_progress w)"
      using each_ends [OF Suc.IH closed [OF Suc.prems(1)], of ?w] less [OF that] by simp
    then show ?thesis
      by (cases "key \<in> set (wk_in_progress w)") (use s in \<open>auto simp: walk_ends_def\<close>)
  qed (simp add: walk_ends_def)
qed simp

lemma walk_includes_ends:
  assumes "finite G" and "root \<in> G" and "\<And>k. k \<in> G \<Longrightarrow> set (incl k) \<subseteq> G" and "card G < fuel"
  shows "walk_includes fuel root load s \<noteq> None"
  using inner_ends [OF assms(1,3,2), of "\<lparr>wk_visited = [], wk_in_progress = [], wk_state = s\<rparr>"] assms(4)
  by (auto simp: walk_includes_def walk_ends_def)

lemma walk_includes_sound:
  assumes "walk_includes fuel root load s = Some r"
  shows "walk_spec load incl root s r"
proof -
  let ?w = "\<lparr>wk_visited = [], wk_in_progress = [], wk_state = s\<rparr>"
  have sound: "outcome_ok load incl {root} ?w (walk_inner fuel load root ?w)"
    by (rule inner_sound) (simp_all add: walk_ok_def finished_def)
  obtain r' where r': "walk_inner fuel load root ?w = Some r'" "r = and_then r' (\<lambda>w. Inr (wk_state w))"
    using assms by (auto simp: walk_includes_def)
  show ?thesis
  proof (cases r')
    case (Inl e)
    with r' sound show ?thesis by (simp add: outcome_ok_def walk_spec_def)
  next
    case (Inr w)
    with r' sound have "walked load incl {root} ?w w" by (simp add: outcome_ok_def)
    then have ok: "walk_ok incl w" and fin: "root \<in> finished w" "finished w = set (wk_visited w)"
      and reach: "set (wk_visited w) \<subseteq> (edges incl)\<^sup>* `` {root}" and all: "load_all load (wk_visited w) s = Inr (wk_state w)"
      by (auto simp: walked_def finished_def)
    have "(edges incl)\<^sup>* `` {root} \<subseteq> finished w"
      using closed_trancl [OF _ ok fin(1)] fin(1) by (auto simp: rtrancl_eq_or_trancl)
    with reach fin(2) have "set (wk_visited w) = (edges incl)\<^sup>* `` {root}" by auto
    with r' Inr ok all fin(2) show ?thesis by (auto simp: walk_spec_def walk_ok_def)
  qed
qed

end

section \<open>Properties\<close>

text \<open>
  C20. The walk over the includes: over finitely many files it returns. When it succeeds, every
  file reachable from the root was loaded exactly once, and none of them includes itself,
  directly or not. When it reports a cycle, the reported file is reachable and does include
  itself; when it reports a failure, that file is reachable and its loading failed.
\<close>

theorem include_walk_exact:
  assumes "\<And>k s ks s'. load k s = Inr (ks, s') \<Longrightarrow> ks = incl k" and "finite G" and "root \<in> G"
    and "\<And>k. k \<in> G \<Longrightarrow> set (incl k) \<subseteq> G" and "card G < fuel"
  shows "\<exists>r. walk_includes fuel root load s = Some r \<and> walk_spec load incl root s r"
proof -
  have graph: "include_graph load incl" by unfold_locales (rule assms(1))
  show ?thesis
    using include_graph.walk_includes_ends [OF graph assms(2-5), of s] include_graph.walk_includes_sound [OF graph, of fuel root s]
    by auto
qed

theorem include_walk_exact_witness:
  "(let load = (\<lambda>k s. Inr (if k < 2 then [Suc k, 2] else [], s @ [k])) :: (nat, nat list, unit) loader;
        incl = (\<lambda>k. if k < 2 then [Suc k, 2] else [])
    in walk_includes 4 0 load [] = Some (Inr [0, 1, 2]) \<and> walk_spec load incl 0 [] (Inr [0, 1, 2]))
   \<and> (let load = (\<lambda>k s. Inr ([(k + 1) mod 2], s)) :: (nat, unit, unit) loader;
          incl = (\<lambda>k. [(k + 1) mod 2])
      in walk_includes 3 0 load () = Some (Inl (Walk_Cycle 0)) \<and> walk_spec load incl 0 () (Inl (Walk_Cycle 0)))"
proof -
  let ?l = "(\<lambda>k s. Inr (if k < 2 then [Suc k, 2] else [], s @ [k])) :: (nat, nat list, unit) loader"
  let ?c = "(\<lambda>k s. Inr ([(k + 1) mod 2], s)) :: (nat, unit, unit) loader"
  have l: "walk_includes 4 0 ?l [] = Some (Inr [0, 1, 2])" by (simp add: walk_includes_def eval_nat_numeral)
  have c: "walk_includes 3 0 ?c () = Some (Inl (Walk_Cycle 0))" by (simp add: walk_includes_def eval_nat_numeral)
  have "walk_spec ?l (\<lambda>k. if k < 2 then [Suc k, 2] else []) 0 [] (Inr [0, 1, 2])"
  proof -
    have closed: "\<And>k. k \<in> {..<3} \<Longrightarrow> set (if k < 2 then [Suc k, 2] else []) \<subseteq> {..<3}" by auto
    show ?thesis using include_walk_exact [where load = ?l and root = 0 and fuel = 4 and s = "[]", OF _ _ _ closed] l by simp
  qed
  moreover have "walk_spec ?c (\<lambda>k. [(k + 1) mod 2]) 0 () (Inl (Walk_Cycle 0))"
    using include_walk_exact [of ?c "\<lambda>k. [(k + 1) mod 2]" "{..<2}" 0 3 "()"] c by auto
  ultimately show ?thesis using l c by (simp add: Let_def)
qed

end
