(* ===== verification/Build.thy ===== *)
theory Build
  imports Dialect Include_Walk Framer_Stream
begin

text \<open>
  The build script, \<^verbatim>\<open>build.rs\<close>: reading the message definitions, walking their includes,
  collecting the messages and emitting the sorted table that \<^verbatim>\<open>src/mavlink/generated.rs\<close>
  includes. The file system and the XML reader are parameters; a file stays the same during the
  build. The table is modelled as the value of the constant that is written out.
\<close>

declare map_of_eq_Some_iff [simp del]

section \<open>Reading one file\<close>

text \<open>
  The events of the reader up to the end of the input. A name, attribute or text is \<^term>\<open>None\<close> when it
  cannot be decoded.
\<close>

type_synonym xml_attrs = "(string \<times> string) option list"

datatype xml_event =
    Ev_Start "string option" xml_attrs
  | Ev_Empty "string option" xml_attrs
  | Ev_Text "string option"
  | Ev_End "string option"
  | Ev_Err
  | Ev_Other

fun msg_attrs_from :: "xml_attrs \<Rightarrow> u32 \<Rightarrow> string \<Rightarrow> (build_panic, u32 \<times> string) res" where
  "msg_attrs_from [] i name = Inr (i, name)"
| "msg_attrs_from (attr # attrs) i name =
     and_then (ok_or attr Bad_Attribute) (\<lambda>(key, val).
       if key = ''id'' then
         and_then (ok_or (parse_u32 (trim val)) (Bad_Message_Id val)) (\<lambda>i. msg_attrs_from attrs i name)
       else if key = ''name'' then msg_attrs_from attrs i val
       else msg_attrs_from attrs i name)"

definition parse_msg_attrs :: "xml_attrs \<Rightarrow> (build_panic, u32 \<times> string) res" where
  "parse_msg_attrs attrs = msg_attrs_from attrs 0 []"

fun field_attrs_from :: "xml_attrs \<Rightarrow> string \<Rightarrow> string \<Rightarrow> (build_panic, string \<times> string) res" where
  "field_attrs_from [] type_name field_name = Inr (type_name, field_name)"
| "field_attrs_from (attr # attrs) type_name field_name =
     and_then (ok_or attr Bad_Attribute) (\<lambda>(key, val).
       if key = ''type'' then field_attrs_from attrs val field_name
       else if key = ''name'' then field_attrs_from attrs type_name val
       else field_attrs_from attrs type_name field_name)"

definition parse_field_attrs :: "xml_attrs \<Rightarrow> (build_panic, string \<times> string) res" where
  "parse_field_attrs attrs = field_attrs_from attrs [] []"

definition push_field :: "xml_attrs \<Rightarrow> parsed_message option \<Rightarrow> bool \<Rightarrow> (build_panic, parsed_message option) res" where
  "push_field attrs current_msg past_extensions =
     (case current_msg of
        None \<Rightarrow> Inr None
      | Some msg \<Rightarrow>
          and_then (parse_field_attrs attrs) (\<lambda>(type_name, field_name).
          and_then (ok_or (parse_array_suffix type_name) Slice_Out_Of_Order) (\<lambda>r.
          and_then (map_err Bad_Array r) (\<lambda>(elem, len).
            Inr (Some (msg\<lparr>pm_fields := pm_fields msg @ [\<lparr>pf_name = field_name, pf_type_name = elem,
              pf_array_length = len, pf_is_extension = past_extensions\<rparr>]\<rparr>))))))"

record xml_state =
  xs_includes :: "string list"
  xs_messages :: "parsed_message list"
  xs_in_include :: bool
  xs_current_msg :: "parsed_message option"
  xs_past_extensions :: bool

definition xml_start :: "string \<Rightarrow> xml_attrs \<Rightarrow> xml_state \<Rightarrow> (build_panic, xml_state) res" where
  "xml_start tag attrs x =
     (if tag = ''include'' then Inr (x\<lparr>xs_in_include := True\<rparr>)
      else if tag = ''message'' then
        and_then (parse_msg_attrs attrs) (\<lambda>(i, name).
          Inr (x\<lparr>xs_current_msg := Some \<lparr>pm_id = i, pm_name = name, pm_fields = []\<rparr>, xs_past_extensions := False\<rparr>))
      else if tag = ''extensions'' then
        Inr (if xs_current_msg x \<noteq> None then x\<lparr>xs_past_extensions := True\<rparr> else x)
      else if tag = ''field'' then
        and_then (push_field attrs (xs_current_msg x) (xs_past_extensions x)) (\<lambda>msg. Inr (x\<lparr>xs_current_msg := msg\<rparr>))
      else Inr x)"

definition xml_empty :: "string \<Rightarrow> xml_attrs \<Rightarrow> xml_state \<Rightarrow> (build_panic, xml_state) res" where
  "xml_empty tag attrs x =
     (if tag = ''extensions'' then
        Inr (if xs_current_msg x \<noteq> None then x\<lparr>xs_past_extensions := True\<rparr> else x)
      else if tag = ''field'' then
        and_then (push_field attrs (xs_current_msg x) (xs_past_extensions x)) (\<lambda>msg. Inr (x\<lparr>xs_current_msg := msg\<rparr>))
      else Inr x)"

definition xml_end :: "string \<Rightarrow> xml_state \<Rightarrow> xml_state" where
  "xml_end tag x =
     (if tag = ''include'' then x\<lparr>xs_in_include := False\<rparr>
      else if tag = ''message'' then
        (case xs_current_msg x of
           Some msg \<Rightarrow> x\<lparr>xs_current_msg := None, xs_messages := xs_messages x @ [msg]\<rparr>
         | None \<Rightarrow> x)
      else x)"

fun xml_step :: "xml_event \<Rightarrow> xml_state \<Rightarrow> (build_panic, xml_state) res" where
  "xml_step (Ev_Start name attrs) x = and_then (ok_or name Bad_Tag) (\<lambda>tag. xml_start tag attrs x)"
| "xml_step (Ev_Empty name attrs) x = and_then (ok_or name Bad_Tag) (\<lambda>tag. xml_empty tag attrs x)"
| "xml_step (Ev_Text content) x =
     (if xs_in_include x then
        and_then (ok_or content Bad_Text) (\<lambda>t. let t = trim t in
          Inr (if t \<noteq> [] then x\<lparr>xs_includes := xs_includes x @ [t]\<rparr> else x))
      else Inr x)"
| "xml_step (Ev_End name) x = and_then (ok_or name Bad_Tag) (\<lambda>tag. Inr (xml_end tag x))"
| "xml_step Ev_Err x = Inl Xml_Error"
| "xml_step Ev_Other x = Inr x"

fun xml_loop :: "xml_event list \<Rightarrow> xml_state \<Rightarrow> (build_panic, xml_state) res" where
  "xml_loop [] x = Inr x"
| "xml_loop (ev # evs) x = and_then (xml_step ev x) (xml_loop evs)"

definition parse_xml :: "xml_event list \<Rightarrow> (build_panic, string list \<times> parsed_message list) res" where
  "parse_xml evs =
     and_then (xml_loop evs \<lparr>xs_includes = [], xs_messages = [], xs_in_include = False, xs_current_msg = None, xs_past_extensions = False\<rparr>)
       (\<lambda>x. Inr (xs_includes x, xs_messages x))"

section \<open>The whole build\<close>

record ('p, 'd) build_env =
  be_read_to_string :: "'p \<Rightarrow> (string, string) res"
  be_events :: "string \<Rightarrow> xml_event list"
  be_parent :: "'p \<Rightarrow> 'd option"
  be_canonicalize :: "'d \<Rightarrow> string \<Rightarrow> (string, 'p) res"
  be_xml_dir :: 'd

datatype load_error = Load_Reason string | Load_Panic build_panic

datatype 'p build_error =
    Dialect_Not_Found string
  | Include_Failed "('p, load_error) walk_error"
  | No_Messages
  | No_Heartbeat

type_synonym entries = "(u32 \<times> msg_entry_gen) list"

fun ingest_all :: "parsed_message list \<Rightarrow> entries \<Rightarrow> (build_panic, entries) res" where
  "ingest_all [] entries = Inr entries"
| "ingest_all (msg # messages) entries = and_then (ingest_message msg entries) (ingest_all messages)"

text \<open>
  The closure given to the walk. A panic inside it ends the build like a failure to load does; it
  is told apart by its constructor.
\<close>

definition load_dialect :: "('p, 'd) build_env \<Rightarrow> ('p, entries, load_error) loader" where
  "load_dialect env canon entries =
     and_then (map_err Load_Reason (be_read_to_string env canon)) (\<lambda>content.
     and_then (map_err Load_Panic (parse_xml (be_events env content))) (\<lambda>(incs, messages).
     and_then (map_err Load_Panic (ingest_all messages entries)) (\<lambda>entries.
     and_then (ok_or (be_parent env canon) (Load_Panic No_Parent)) (\<lambda>dir.
     and_then (map_err Load_Reason (collect (be_canonicalize env dir) incs)) (\<lambda>paths.
       Inr (paths, entries))))))"

definition DIALECTS :: "string list" where
  "DIALECTS = [''common.xml'', ''ardupilotmega.xml'']"

fun build_dialects :: "nat \<Rightarrow> ('p, 'd) build_env \<Rightarrow> string list \<Rightarrow> entries \<Rightarrow> ('p build_error, entries) res option" where
  "build_dialects fuel env [] entries = Some (Inr entries)"
| "build_dialects fuel env (dialect # dialects) entries =
     (case be_canonicalize env (be_xml_dir env) dialect of
        Inl err \<Rightarrow> Some (Inl (Dialect_Not_Found dialect))
      | Inr root \<Rightarrow>
          (case walk_includes fuel root (load_dialect env) entries of
             None \<Rightarrow> None
           | Some (Inl err) \<Rightarrow> Some (Inl (Include_Failed err))
           | Some (Inr entries) \<Rightarrow> build_dialects fuel env dialects entries))"

definition row :: "u32 \<times> msg_entry_gen \<Rightarrow> u32 \<times> msg_entry" where
  "row r = (fst r, \<lparr>crc_extra = meg_crc_extra (snd r), target_sys_offset = meg_target_sys_offset (snd r),
     target_comp_offset = meg_target_comp_offset (snd r)\<rparr>)"

definition build_table :: "nat \<Rightarrow> ('p, 'd) build_env \<Rightarrow> ('p build_error, msg_table) res option" where
  "build_table fuel env =
     map_option (\<lambda>r. and_then r (\<lambda>entries.
         if entries = [] then Inl No_Messages
         else if map_of entries 0 = None then Inl No_Heartbeat
         else Inr (map row (sort_key fst entries))))
       (build_dialects fuel env DIALECTS [])"

section \<open>The version text\<close>

text \<open>
  What the build sees of the repository: the output of a git command with its success, unless it
  could not be run, and the clock as a text, which the \<^verbatim>\<open>time\<close> crate formats.
\<close>

record version_env =
  ve_in_git :: bool
  ve_describe :: "(bool \<times> string) option"
  ve_rev_parse :: "(bool \<times> string) option"
  ve_now :: "string option"

definition head_matches_release_tag :: "version_env \<Rightarrow> string \<Rightarrow> bool" where
  "head_matches_release_tag env pkg_version =
     (let tag = ''v'' @ pkg_version
      in case ve_describe env of None \<Rightarrow> False | Some (success, stdout) \<Rightarrow> success \<and> trim stdout = tag)"

definition git_short_sha :: "version_env \<Rightarrow> string option" where
  "git_short_sha env =
     (case ve_rev_parse env of
        None \<Rightarrow> None
      | Some (success, stdout) \<Rightarrow>
          if \<not> success then None
          else let trimmed = trim stdout in if trimmed = [] then None else Some trimmed)"

definition build_timestamp_utc :: "version_env \<Rightarrow> string" where
  "build_timestamp_utc env = (case ve_now env of None \<Rightarrow> ''unknown'' | Some t \<Rightarrow> t)"

definition emit_version_string :: "version_env \<Rightarrow> string \<Rightarrow> string" where
  "emit_version_string env pkg_version =
     (let tagged = ve_in_git env \<and> head_matches_release_tag env pkg_version
      in if \<not> ve_in_git env \<or> tagged then pkg_version
         else let short_sha = (case git_short_sha env of None \<Rightarrow> ''unknown'' | Some sha \<Rightarrow> sha);
                  built = build_timestamp_utc env
              in pkg_version @ '' (sha '' @ short_sha @ '', built '' @ built @ '')'')"

text \<open>A bare version is a release: any other build of a checkout shows its commit.\<close>

lemma version_is_bare_iff:
  "emit_version_string env pkg_version = pkg_version \<longleftrightarrow> (ve_in_git env \<longrightarrow> head_matches_release_tag env pkg_version)"
  by (simp add: emit_version_string_def Let_def)

end
