(* ===== verification/Build_Correct.thy ===== *)
theory Build_Correct
  imports Build
begin

text \<open>
  What the generated table is: sorted, with one row per message declared in the files reachable
  from the dialects, whose seed and target offsets are those of the declaration; and what this
  means for a frame of such a message.
\<close>

section \<open>What a file contributes\<close>

definition file_content :: "('p, 'd) build_env \<Rightarrow> 'p \<Rightarrow> string list \<times> parsed_message list" where
  "file_content env k =
     (case be_read_to_string env k of
        Inl _ \<Rightarrow> ([], [])
      | Inr content \<Rightarrow> (case parse_xml (be_events env content) of Inl _ \<Rightarrow> ([], []) | Inr c \<Rightarrow> c))"

definition file_messages :: "('p, 'd) build_env \<Rightarrow> 'p \<Rightarrow> parsed_message list" where
  "file_messages env k = snd (file_content env k)"

definition file_includes :: "('p, 'd) build_env \<Rightarrow> 'p \<Rightarrow> 'p list" where
  "file_includes env k =
     (case be_parent env k of
        None \<Rightarrow> []
      | Some dir \<Rightarrow> (case collect (be_canonicalize env dir) (fst (file_content env k)) of Inl _ \<Rightarrow> [] | Inr ks \<Rightarrow> ks))"

lemma load_dialect_Inr:
  assumes "load_dialect env k en = Inr (ks, en')"
  shows "ks = file_includes env k" and "ingest_all (file_messages env k) en = Inr en'"
  using assms
  by (auto simp: load_dialect_def file_includes_def file_messages_def file_content_def and_then_eq_Inr)

interpretation dialects: include_graph "load_dialect env" "file_includes env" for env :: "('p, 'd) build_env"
  by unfold_locales (rule load_dialect_Inr)

lemma ingest_all_append: "ingest_all (ms @ ms') en = and_then (ingest_all ms en) (ingest_all ms')"
  by (induction ms arbitrary: en) (auto simp: and_then_def split: sum.split)

lemma load_all_ingests:
  "load_all (load_dialect env) ks en = Inr en' \<Longrightarrow> ingest_all (concat (map (file_messages env) ks)) en = Inr en'"
  by (induction ks arbitrary: en) (auto simp: and_then_eq_Inr ingest_all_append dest!: load_dialect_Inr(2))

text \<open>The files of the build: what the dialects include, directly or not.\<close>

definition dialect_files :: "('p, 'd) build_env \<Rightarrow> string list \<Rightarrow> 'p set" where
  "dialect_files env ds =
     {k. \<exists>d \<in> set ds. \<exists>root. be_canonicalize env (be_xml_dir env) d = Inr root \<and> (root, k) \<in> (edges (file_includes env))\<^sup>*}"

lemma dialect_files_closed:
  assumes "\<And>d root. d \<in> set ds \<Longrightarrow> be_canonicalize env (be_xml_dir env) d = Inr root \<Longrightarrow> root \<in> G"
    and "\<And>k. k \<in> G \<Longrightarrow> set (file_includes env k) \<subseteq> G"
  shows "dialect_files env ds \<subseteq> G"
proof -
  have "(root, k) \<in> (edges (file_includes env))\<^sup>* \<Longrightarrow> root \<in> G \<Longrightarrow> k \<in> G" for root k
    by (induction rule: rtrancl_induct) (use assms(2) in \<open>auto simp: edges_def\<close>)
  with assms(1) show ?thesis by (auto simp: dialect_files_def)
qed

definition declared :: "('p, 'd) build_env \<Rightarrow> parsed_message set" where
  "declared env = (\<Union>k \<in> dialect_files env DIALECTS. set (file_messages env k))"

lemma build_dialects_ingest:
  "build_dialects fuel env ds en = Some (Inr en') \<Longrightarrow>
   \<exists>ms. ingest_all ms en = Inr en' \<and> set ms = (\<Union>k \<in> dialect_files env ds. set (file_messages env k))"
proof (induction ds arbitrary: en)
  case Nil
  then show ?case by (intro exI [of _ "[]"]) (simp add: dialect_files_def)
next
  case (Cons d ds)
  then obtain root en1 where root: "be_canonicalize env (be_xml_dir env) d = Inr root"
    and walk: "walk_includes fuel root (load_dialect env) en = Some (Inr en1)"
    and rest: "build_dialects fuel env ds en1 = Some (Inr en')"
    by (auto split: sum.splits option.splits)
  obtain ks where ks: "set ks = (edges (file_includes env))\<^sup>* `` {root}" "load_all (load_dialect env) ks en = Inr en1"
    using dialects.walk_includes_sound [OF walk] by (auto simp: walk_spec_def)
  obtain ms where ms: "ingest_all ms en1 = Inr en'" "set ms = (\<Union>k \<in> dialect_files env ds. set (file_messages env k))"
    using Cons.IH [OF rest] by blast
  have "dialect_files env (d # ds) = set ks \<union> dialect_files env ds"
    using root ks(1) by (auto simp: dialect_files_def)
  with ms load_all_ingests [OF ks(2)] show ?case
    by (intro exI [of _ "concat (map (file_messages env) ks) @ ms"]) (auto simp: ingest_all_append)
qed

lemma build_dialects_end:
  assumes "finite G" and "dialect_files env ds \<subseteq> G" and "\<And>k. k \<in> G \<Longrightarrow> set (file_includes env k) \<subseteq> G" and "card G < fuel"
  shows "build_dialects fuel env ds en \<noteq> None"
  using assms(2)
proof (induction ds arbitrary: en)
  case (Cons d ds)
  have sub: "dialect_files env ds \<subseteq> G" using Cons.prems by (auto simp: dialect_files_def)
  have "walk_includes fuel root (load_dialect env) en \<noteq> None" if "be_canonicalize env (be_xml_dir env) d = Inr root" for root
    using dialects.walk_includes_ends [OF assms(1) _ assms(3,4)] Cons.prems that by (force simp: dialect_files_def)
  with Cons.IH [OF sub] show ?case by (auto split: sum.splits option.splits)
qed simp

section \<open>The entries\<close>

definition first_entry :: "parsed_message list \<Rightarrow> u32 \<Rightarrow> msg_entry_gen option" where
  "first_entry ms i =
     (case find (\<lambda>m. pm_id m = i) ms of
        None \<Rightarrow> None
      | Some m \<Rightarrow> (case entry_for m of Inl _ \<Rightarrow> None | Inr e \<Rightarrow> Some e))"

definition collected :: "parsed_message list \<Rightarrow> entries \<Rightarrow> bool" where
  "collected ms en \<longleftrightarrow> distinct (map fst en) \<and> (\<forall>i. map_of en i = first_entry ms i)
     \<and> (\<forall>m \<in> set ms. \<exists>e first. entry_for m = Inr e \<and> map_of en (pm_id m) = Some first
          \<and> meg_name first = meg_name e \<and> meg_crc_extra first = meg_crc_extra e)"

lemma find_Some_mem: "find P xs = Some x \<Longrightarrow> x \<in> set xs \<and> P x"
  by (induction xs) (auto split: if_splits)

lemma find_snoc: "find P (xs @ [x]) = (case find P xs of Some y \<Rightarrow> Some y | None \<Rightarrow> if P x then Some x else None)"
  by (induction xs) auto

lemma ingest_collected:
  assumes "collected ms en" and "ingest_message m en = Inr en'"
  shows "collected (ms @ [m]) en'"
proof -
  obtain e where e: "entry_for m = Inr e"
    and en': "en' = (case map_of en (pm_id m) of None \<Rightarrow> en @ [(pm_id m, e)] | Some _ \<Rightarrow> en)"
    and same: "\<And>prev. map_of en (pm_id m) = Some prev \<Longrightarrow> meg_name prev = meg_name e \<and> meg_crc_extra prev = meg_crc_extra e"
    using ingest_message_Inr [OF assms(2)] by metis
  show ?thesis
  proof (cases "map_of en (pm_id m)")
    case None
    then have new: "pm_id m' \<noteq> pm_id m" if "m' \<in> set ms" for m'
      using assms(1) that by (force simp: collected_def)
    then have "find (\<lambda>m'. pm_id m' = pm_id m) ms = None" by (simp add: find_None_iff)
    then have first: "first_entry (ms @ [m]) i = (if i = pm_id m then Some e else first_entry ms i)" for i
      using e by (simp add: first_entry_def find_snoc split: option.split)
    have en': "en' = en @ [(pm_id m, e)]" using None en' by simp
    have entries: "map_of en' i = (if i = pm_id m then Some e else map_of en i)" for i
      using None en' by (simp add: map_add_def split: option.split)
    have distinct: "distinct (map fst en')" using None en' assms(1) by (auto simp: collected_def map_of_eq_None_iff)
    show ?thesis
      unfolding collected_def
    proof (intro conjI allI ballI)
      show "distinct (map fst en')" by (rule distinct)
      show "map_of en' i = first_entry (ms @ [m]) i" for i using assms(1) by (simp add: first entries collected_def)
      show "\<exists>e first. entry_for m' = Inr e \<and> map_of en' (pm_id m') = Some first
          \<and> meg_name first = meg_name e \<and> meg_crc_extra first = meg_crc_extra e" if "m' \<in> set (ms @ [m])" for m'
        using that new assms(1) e by (auto simp: entries collected_def)
    qed
  next
    case (Some first)
    then obtain m' where "find (\<lambda>m'. pm_id m' = pm_id m) ms = Some m'"
      using assms(1) by (auto simp: collected_def first_entry_def split: option.splits)
    then have first: "first_entry (ms @ [m]) i = first_entry ms i" for i
      by (cases "i = pm_id m") (auto simp: first_entry_def find_snoc split: option.split)
    from Some en' have "en' = en" by simp
    with assms(1) e Some same [OF Some] show ?thesis unfolding collected_def first by auto
  qed
qed

lemma ingest_all_collected: "collected ms en \<Longrightarrow> ingest_all ms' en = Inr en' \<Longrightarrow> collected (ms @ ms') en'"
proof (induction ms' arbitrary: ms en)
  case (Cons m ms')
  then obtain en1 where "ingest_message m en = Inr en1" "ingest_all ms' en1 = Inr en'" by (auto simp: and_then_eq_Inr)
  with Cons.IH [OF ingest_collected [OF Cons.prems(1)]] show ?case by simp
qed simp

lemma build_table_collected:
  assumes "build_table fuel env = Some (Inr tbl)"
  obtains ms en where "set ms = declared env" and "collected ms en" and "tbl = map row (sort_key fst en)"
proof -
  obtain en where en: "build_dialects fuel env DIALECTS [] = Some (Inr en)" "tbl = map row (sort_key fst en)"
    using assms by (auto simp: build_table_def and_then_eq_Inr split: if_splits)
  obtain ms where ms: "ingest_all ms [] = Inr en" "set ms = declared env"
    using build_dialects_ingest [OF en(1)] by (auto simp: declared_def)
  have "collected [] []" by (simp add: collected_def first_entry_def)
  with ms(1) have "collected ms en" using ingest_all_collected by fastforce
  with that ms(2) en(2) show ?thesis by blast
qed

lemma map_of_rows: "map_of (map row en) i = map_option (\<lambda>e. snd (row (i, e))) (map_of en i)"
  by (induction en) (auto simp: row_def)

lemma rows_sorted:
  assumes "distinct (map fst en)"
  shows "table_sorted (map row (sort_key fst en))" and "map_of (sort_key fst en) = map_of en"
proof -
  have d: "distinct (map fst (sort_key fst en))" using assms by (simp add: distinct_map inj_on_def)
  have fst_row: "fst \<circ> row = fst" by (auto simp: row_def)
  have "sorted (map fst (sort_key fst en))" by (rule sorted_sort_key)
  with d show "table_sorted (map row (sort_key fst en))"
    by (simp add: table_sorted_def fst_row strict_sorted_iff)
  show "map_of (sort_key fst en) = map_of en"
    by (rule map_of_eqI) (use assms d in \<open>auto simp: map_of_eq_Some_iff\<close>)
qed

lemma table_lookup:
  assumes "collected ms en"
  shows "msg_lookup (map row (sort_key fst en)) i = map_option (\<lambda>e. snd (row (i, e))) (first_entry ms i)"
proof -
  have d: "distinct (map fst en)" using assms by (simp add: collected_def)
  show ?thesis
    using assms by (simp add: msg_lookup_is_map_of [OF rows_sorted(1) [OF d]] map_of_rows rows_sorted(2) [OF d] collected_def)
qed

section \<open>Targets on the wire\<close>

lemma payload_target:
  assumes "\<And>f. f \<in> set fs \<Longrightarrow> length (enc f) = wire_size f" and small: "\<And>o'. last_target name (wire_order fs) 0 = Some o' \<Longrightarrow> o' \<le> 255"
  shows "payload_at (payload_of enc fs) (map_option of_nat (last_target name (wire_order fs) 0))
    = map_option (\<lambda>f. enc f ! 0) (target_field name fs)"
proof (cases "last_target name (wire_order fs) 0")
  case None
  then show ?thesis by (simp add: payload_at_def no_target)
next
  case (Some o')
  obtain f where "target_field name fs = Some f" "o' < length (payload_of enc fs)" "payload_of enc fs ! o' = enc f ! 0"
    using target_byte [OF assms(1) Some] by blast
  moreover have "unat (of_nat o' :: u8) = o'" using small [OF Some] by (simp add: unat_of_nat)
  ultimately show ?thesis using Some by (simp add: payload_at_def)
qed

lemma entry_for_targets:
  assumes "entry_for m = Inr g" and "\<And>f. f \<in> set (pm_fields m) \<Longrightarrow> length (enc f) = wire_size f"
  shows "payload_at (payload_of enc (pm_fields m)) (meg_target_sys_offset g)
      = map_option (\<lambda>f. enc f ! 0) (target_field ''target_system'' (pm_fields m))"
    and "payload_at (payload_of enc (pm_fields m)) (meg_target_comp_offset g)
      = map_option (\<lambda>f. enc f ! 0) (target_field ''target_component'' (pm_fields m))"
proof -
  have "compute_offsets (pm_fields m) = Inr (meg_target_sys_offset g, meg_target_comp_offset g)"
    using assms(1) by (auto simp: entry_for_def and_then_eq_Inr)
  note exact = compute_offsets_exact [OF this]
  show "payload_at (payload_of enc (pm_fields m)) (meg_target_sys_offset g)
      = map_option (\<lambda>f. enc f ! 0) (target_field ''target_system'' (pm_fields m))"
    unfolding exact(1) by (rule payload_target [OF assms(2) exact(3)])
  show "payload_at (payload_of enc (pm_fields m)) (meg_target_comp_offset g)
      = map_option (\<lambda>f. enc f ! 0) (target_field ''target_component'' (pm_fields m))"
    unfolding exact(2) by (rule payload_target [OF assms(2) exact(3)])
qed

lemma framer_emits:
  assumes "wf_ok w" and "msg_lookup tbl (wf_msgid w) = Some e"
  shows "\<exists>fr. drain_frames tbl (framer_extend framer_new (encode_frame (crc_extra e) w))
    = Some ([(header_of tbl w, encode_frame (crc_extra e) w)], fr)"
proof -
  have "length (encode_frame (crc_extra e) w) < 2 ^ 64"
    using assms(1) by (auto simp: encode_frame_def Let_def wf_body_len wf_ok_def split: version.splits option.splits)
  moreover have "seed_ok tbl (crc_extra e) w" using assms(2) by (simp add: seed_ok_def)
  ultimately show ?thesis
    using drain_frames_scan_all [of "framer_extend framer_new (encode_frame (crc_extra e) w)" tbl]
      scan_all_stream [of "[([], crc_extra e, w)]" tbl "[]"] assms(1)
    by (simp add: noise_def framer_extend_def framer_new_def)
qed

section \<open>An example\<close>

text \<open>Two files, the second including the first; one message with a target.\<close>

definition demo_events :: "string \<Rightarrow> xml_event list" where
  "demo_events content =
     (if content = ''common.xml'' then
        [Ev_Start (Some ''message'') [Some (''id'', ''0''), Some (''name'', ''H'')],
         Ev_Empty (Some ''field'') [Some (''type'', ''uint16_t''), Some (''name'', ''v'')],
         Ev_Empty (Some ''field'') [Some (''type'', ''uint8_t''), Some (''name'', ''target_system'')],
         Ev_End (Some ''message'')]
      else [Ev_Start (Some ''include'') [], Ev_Text (Some ''common.xml''), Ev_End (Some ''include'')])"

definition demo_build :: "(string, unit) build_env" where
  "demo_build = \<lparr>be_read_to_string = Inr, be_events = demo_events, be_parent = (\<lambda>_. Some ()), be_canonicalize = (\<lambda>_ name. Inr name), be_xml_dir = ()\<rparr>"

definition demo_msg :: parsed_message where
  "demo_msg = \<lparr>pm_id = 0, pm_name = ''H'', pm_fields =
     [\<lparr>pf_name = ''v'', pf_type_name = ''uint16_t'', pf_array_length = 0, pf_is_extension = False\<rparr>,
      \<lparr>pf_name = ''target_system'', pf_type_name = ''uint8_t'', pf_array_length = 0, pf_is_extension = False\<rparr>]\<rparr>"

lemma demo_ids: "parse_u32 ''0'' = Some 0"
  by (simp add: parse_u32_def parse_unsigned_def strip_prefix_char_def is_ascii_digit_def digits_val_def digit_val_def)

lemma demo_files:
  "parse_xml (demo_events ''common.xml'') = Inr ([], [demo_msg])"
  "parse_xml (demo_events ''ardupilotmega.xml'') = Inr ([''common.xml''], [])"
  by (simp_all add: demo_events_def parse_xml_def xml_start_def xml_empty_def xml_end_def parse_msg_attrs_def demo_ids push_field_def
      parse_field_attrs_def parse_array_suffix_def find_char_def demo_msg_def Let_def trim_def is_whitespace_def)

lemma demo_entry_for:
  "\<exists>x. entry_for demo_msg = Inr \<lparr>meg_name = ''H'', meg_crc_extra = x, meg_target_sys_offset = Some 2, meg_target_comp_offset = None\<rparr>"
  by (simp add: entry_for_def demo_msg_def crc_extra_for_message_def sort_by_size_def crc_extra_field_of_def type_size_def
      compute_offsets_def size_key_def note_target_def elem_count_def Let_def)

lemma demo_table:
  "\<exists>x. build_table 3 demo_build = Some (Inr [(0, \<lparr>crc_extra = x, target_sys_offset = Some 2, target_comp_offset = None\<rparr>)])"
proof -
  obtain x where x: "entry_for demo_msg = Inr \<lparr>meg_name = ''H'', meg_crc_extra = x, meg_target_sys_offset = Some 2, meg_target_comp_offset = None\<rparr>"
    using demo_entry_for by blast
  let ?e = "\<lparr>meg_name = ''H'', meg_crc_extra = x, meg_target_sys_offset = Some 2, meg_target_comp_offset = None\<rparr>"
  have "pm_id demo_msg = 0" "pm_name demo_msg = ''H''" by (simp_all add: demo_msg_def)
  with x have ingest: "ingest_message demo_msg [] = Inr [(0, ?e)]" "ingest_message demo_msg [(0, ?e)] = Inr [(0, ?e)]"
    by (auto simp: entry_for_def ingest_message_def merge_entry_def and_then_eq_Inr)
  have load: "load_dialect demo_build ''common.xml'' en = and_then (map_err Load_Panic (ingest_message demo_msg en)) (\<lambda>en. Inr ([], en))"
    "load_dialect demo_build ''ardupilotmega.xml'' en = Inr ([''common.xml''], en)" for en
    by (simp_all add: load_dialect_def demo_build_def demo_files) (simp add: and_then_def split: sum.split)
  have "be_canonicalize demo_build d name = Inr name" for d name by (simp add: demo_build_def)
  then show ?thesis
    by (simp add: build_table_def DIALECTS_def walk_includes_def eval_nat_numeral load ingest row_def)
qed

lemma demo_closed:
  "d \<in> set DIALECTS \<Longrightarrow> be_canonicalize demo_build (be_xml_dir demo_build) d = Inr root \<Longrightarrow> root \<in> {''common.xml'', ''ardupilotmega.xml''}"
  "k \<in> {''common.xml'', ''ardupilotmega.xml''} \<Longrightarrow> set (file_includes demo_build k) \<subseteq> {''common.xml'', ''ardupilotmega.xml''}"
  by (auto simp: DIALECTS_def demo_build_def file_includes_def file_content_def demo_files)

lemma demo_declared: "declared demo_build \<subseteq> {demo_msg}"
proof -
  have "dialect_files demo_build DIALECTS \<subseteq> {''common.xml'', ''ardupilotmega.xml''}"
    by (rule dialect_files_closed) (fact demo_closed)+
  moreover have "set (file_messages demo_build k) \<subseteq> {demo_msg}" if "k \<in> {''common.xml'', ''ardupilotmega.xml''}" for k
    using that by (auto simp: file_messages_def file_content_def demo_build_def demo_files)
  ultimately show ?thesis unfolding declared_def by (intro UN_least) (rule, meson subsetD)
qed

section \<open>Properties\<close>

text \<open>
  C12. The build: over finitely many files it returns, and a table it generates is sorted by
  message id, so that the search of the router is exact on it; it has a row for exactly the
  message ids declared in the files that the dialects include, directly or not; the row of a
  message is that of one of its declarations, and its seed is the seed of every one of them.
\<close>

theorem generated_table_is_dialect:
  assumes "finite G" and "\<And>d root. d \<in> set DIALECTS \<Longrightarrow> be_canonicalize env (be_xml_dir env) d = Inr root \<Longrightarrow> root \<in> G"
    and "\<And>k. k \<in> G \<Longrightarrow> set (file_includes env k) \<subseteq> G" and "card G < fuel"
  shows "\<exists>r. build_table fuel env = Some r \<and>
    (\<forall>tbl. r = Inr tbl \<longrightarrow> table_sorted tbl
      \<and> (\<forall>i e. msg_lookup tbl i = Some e \<longrightarrow> (\<exists>m \<in> declared env. \<exists>g. pm_id m = i \<and> entry_for m = Inr g \<and> e = snd (row (i, g))))
      \<and> (\<forall>m \<in> declared env. \<exists>e g. msg_lookup tbl (pm_id m) = Some e \<and> entry_for m = Inr g \<and> crc_extra e = meg_crc_extra g))"
proof -
  have "build_table fuel env \<noteq> None" using build_dialects_end [OF assms(1) dialect_files_closed [OF assms(2,3)] assms(3,4)] by (simp add: build_table_def)
  moreover
  {
    fix tbl
    assume "build_table fuel env = Some (Inr tbl)"
    then obtain ms en where ms: "set ms = declared env" and c: "collected ms en" and tbl: "tbl = map row (sort_key fst en)"
      by (rule build_table_collected)
    have "table_sorted tbl" unfolding tbl using c rows_sorted(1) by (simp add: collected_def)
    moreover have "\<exists>m \<in> declared env. \<exists>g. pm_id m = i \<and> entry_for m = Inr g \<and> e = snd (row (i, g))" if "msg_lookup tbl i = Some e" for i e
      using that ms unfolding tbl table_lookup [OF c]
      by (auto simp: first_entry_def split: option.splits sum.splits dest!: find_Some_mem)
    moreover have "\<exists>e g. msg_lookup tbl (pm_id m) = Some e \<and> entry_for m = Inr g \<and> crc_extra e = meg_crc_extra g" if "m \<in> declared env" for m
      using that c ms unfolding tbl table_lookup [OF c] by (force simp: collected_def row_def)
    ultimately have "table_sorted tbl
      \<and> (\<forall>i e. msg_lookup tbl i = Some e \<longrightarrow> (\<exists>m \<in> declared env. \<exists>g. pm_id m = i \<and> entry_for m = Inr g \<and> e = snd (row (i, g))))
      \<and> (\<forall>m \<in> declared env. \<exists>e g. msg_lookup tbl (pm_id m) = Some e \<and> entry_for m = Inr g \<and> crc_extra e = meg_crc_extra g)"
      by blast
  }
  ultimately show ?thesis by blast
qed

theorem generated_table_is_dialect_witness:
  "\<exists>tbl. build_table 3 demo_build = Some (Inr tbl) \<and> table_sorted tbl \<and> (\<exists>e. msg_lookup tbl 0 = Some e)"
proof -
  obtain x where tbl: "build_table 3 demo_build = Some (Inr [(0, \<lparr>crc_extra = x, target_sys_offset = Some 2, target_comp_offset = None\<rparr>)])"
    using demo_table by blast
  have "card {''common.xml'', ''ardupilotmega.xml''} < 3" by simp
  with generated_table_is_dialect [where fuel = 3, OF _ demo_closed] tbl
  have "table_sorted [(0, \<lparr>crc_extra = x, target_sys_offset = Some 2, target_comp_offset = None\<rparr>)]" by simp
  with tbl show ?thesis by (simp add: msg_lookup_def binary_search_by_key_def bsearch_base.simps)
qed

text \<open>
  C11. From the definitions to the router: with a generated table, a frame of a known message that
  carries the fields of a declaration in the order of the protocol is emitted by the framer
  with the bytes of its target fields as its targets, and with none where the message has none.
\<close>

theorem declared_targets_reach_router:
  assumes "build_table fuel env = Some (Inr tbl)" and "msg_lookup tbl (wf_msgid w) = Some e" and "wf_ok w"
  shows "\<exists>m \<in> declared env. pm_id m = wf_msgid w \<and>
    (\<forall>enc. (\<forall>f \<in> set (pm_fields m). length (enc f) = wire_size f) \<and> wf_payload w = payload_of enc (pm_fields m) \<longrightarrow>
      (\<exists>h fr. drain_frames tbl (framer_extend framer_new (encode_frame (crc_extra e) w)) = Some ([(h, encode_frame (crc_extra e) w)], fr)
        \<and> hdr_target_system h = map_option (\<lambda>f. enc f ! 0) (target_field ''target_system'' (pm_fields m))
        \<and> hdr_target_component h = map_option (\<lambda>f. enc f ! 0) (target_field ''target_component'' (pm_fields m))))"
proof -
  obtain ms en where ms: "set ms = declared env" and c: "collected ms en" and tbl: "tbl = map row (sort_key fst en)"
    by (rule build_table_collected [OF assms(1)])
  obtain m g where m: "m \<in> declared env" "pm_id m = wf_msgid w" "entry_for m = Inr g" "e = snd (row (wf_msgid w, g))"
    using assms(2) ms unfolding tbl table_lookup [OF c]
    by (auto simp: first_entry_def split: option.splits sum.splits dest!: find_Some_mem)
  obtain fr where fr: "drain_frames tbl (framer_extend framer_new (encode_frame (crc_extra e) w))
      = Some ([(header_of tbl w, encode_frame (crc_extra e) w)], fr)"
    using framer_emits [OF assms(3,2)] by blast
  have "hdr_target_system (header_of tbl w) = map_option (\<lambda>f. enc f ! 0) (target_field ''target_system'' (pm_fields m))
      \<and> hdr_target_component (header_of tbl w) = map_option (\<lambda>f. enc f ! 0) (target_field ''target_component'' (pm_fields m))"
    if "\<forall>f \<in> set (pm_fields m). length (enc f) = wire_size f" "wf_payload w = payload_of enc (pm_fields m)" for enc
    using entry_for_targets [OF m(3), of enc] that assms(2) m(4) by (simp add: header_of_def Let_def row_def)
  with m(1,2) fr show ?thesis by blast
qed

theorem declared_targets_reach_router_witness:
  "\<exists>tbl x h fr. build_table 3 demo_build = Some (Inr tbl)
     \<and> drain_frames tbl (framer_extend framer_new (encode_frame x \<lparr>wf_version = Version_V2, wf_compat = 0, wf_seq = 3,
         wf_source = node_new 1 1, wf_msgid = 0, wf_payload = [7, 0, 9], wf_signature = None\<rparr>)) = Some ([h], fr)
     \<and> hdr_target_system (fst h) = Some 9 \<and> hdr_target_component (fst h) = None"
proof -
  let ?w = "\<lparr>wf_version = Version_V2, wf_compat = 0, wf_seq = 3, wf_source = node_new 1 1, wf_msgid = 0,
    wf_payload = [7, 0, 9], wf_signature = None\<rparr>"
  let ?enc = "\<lambda>f. if pf_name f = ''v'' then [7, 0] else [9 :: u8]"
  obtain x where tbl: "build_table 3 demo_build = Some (Inr [(0, \<lparr>crc_extra = x, target_sys_offset = Some 2, target_comp_offset = None\<rparr>)])"
    using demo_table by blast
  let ?tbl = "[(0, \<lparr>crc_extra = x, target_sys_offset = Some 2, target_comp_offset = None\<rparr>)]"
  have e: "msg_lookup [(0, \<lparr>crc_extra = x, target_sys_offset = Some 2, target_comp_offset = None\<rparr>)] (wf_msgid ?w)
      = Some \<lparr>crc_extra = x, target_sys_offset = Some 2, target_comp_offset = None\<rparr>"
    by (simp add: msg_lookup_def binary_search_by_key_def bsearch_base.simps)
  have ok: "wf_ok ?w" by (simp add: wf_ok_def)
  have order: "wire_order (pm_fields demo_msg) = pm_fields demo_msg"
    by (simp add: wire_order_def demo_msg_def size_key_def type_size_def)
  have "\<forall>f \<in> set (pm_fields demo_msg). length (?enc f) = wire_size f"
    by (simp add: demo_msg_def wire_size_def type_size_def elem_count_def)
  moreover have "wf_payload ?w = payload_of ?enc (pm_fields demo_msg)" by (simp add: payload_of_def order) (simp add: demo_msg_def)
  moreover have "target_field ''target_system'' (pm_fields demo_msg) = Some (pm_fields demo_msg ! 1)"
    "target_field ''target_component'' (pm_fields demo_msg) = None"
    by (simp_all add: target_field_def order) (simp_all add: demo_msg_def is_target_def)
  moreover have "?enc (pm_fields demo_msg ! 1) = [9]" by (simp add: demo_msg_def)
  moreover obtain m where m: "m \<in> declared demo_build"
    and targets: "\<And>enc. (\<forall>f \<in> set (pm_fields m). length (enc f) = wire_size f) \<and> wf_payload ?w = payload_of enc (pm_fields m) \<Longrightarrow>
      (\<exists>h fr. drain_frames ?tbl (framer_extend framer_new (encode_frame x ?w)) = Some ([(h, encode_frame x ?w)], fr)
        \<and> hdr_target_system h = map_option (\<lambda>f. enc f ! 0) (target_field ''target_system'' (pm_fields m))
        \<and> hdr_target_component h = map_option (\<lambda>f. enc f ! 0) (target_field ''target_component'' (pm_fields m)))"
    using declared_targets_reach_router [OF tbl e ok] by auto
  moreover have "m = demo_msg" using m demo_declared by blast
  ultimately obtain h fr where "drain_frames ?tbl (framer_extend framer_new (encode_frame x ?w)) = Some ([(h, encode_frame x ?w)], fr)"
    "hdr_target_system h = Some 9" "hdr_target_component h = None"
    using targets [of ?enc] by auto
  with tbl show ?thesis by (intro exI [of _ ?tbl] exI [of _ x] exI [of _ "(h, encode_frame x ?w)"] exI [of _ fr]) simp
qed

end
