(* ===== verification/Shutdown.thy ===== *)
theory Shutdown
  imports Backoff
begin

text \<open>
  The end of the system, \<^verbatim>\<open>src/shutdown.rs\<close>: the watcher that turns a signal into the cancellation
  of the shared token, and the two-tier drain of the running tasks. Instants are nanoseconds;
  what the tasks do is an input, and so is how late the timers of the runtime fire.
\<close>

section \<open>The signal watcher\<close>

text \<open>
  The handler of a signal cannot be installed, or the signal arrives at some instant, or never.
  A handler that cannot be installed leaves a future that never resolves.
\<close>

datatype signal_source = Handler_Failed | Signal_At instant | No_Signal

fun resolves :: "signal_source \<Rightarrow> instant option" where
  "resolves (Signal_At t) = Some t"
| "resolves Handler_Failed = None"
| "resolves No_Signal = None"

definition earlier :: "instant option \<Rightarrow> instant option \<Rightarrow> instant option" where
  "earlier a b = (case (a, b) of (Some x, Some y) \<Rightarrow> Some (min x y) | (Some x, None) \<Rightarrow> Some x | (None, y) \<Rightarrow> y)"

definition wait_for_terminate :: "signal_source \<Rightarrow> instant option" where
  "wait_for_terminate sigterm = resolves sigterm"

text \<open>
  The select over the two signals and the token itself. A signal cancels the token at its own
  instant; the result is the token as everyone else sees it.
\<close>

definition watch_for_shutdown_signal :: "signal_source \<Rightarrow> signal_source \<Rightarrow> cancel_token \<Rightarrow> cancel_token" where
  "watch_for_shutdown_signal ctrl_c sigterm token =
     (case earlier (resolves ctrl_c) (wait_for_terminate sigterm) of
        None \<Rightarrow> token
      | Some signal \<Rightarrow> if is_cancelled token signal then token else Some signal)"

section \<open>The drain\<close>

definition PER_TASK_DRAIN :: duration where
  "PER_TASK_DRAIN = from_secs 2"

definition SHUTDOWN_GRACE :: duration where
  "SHUTDOWN_GRACE = from_secs 5"

text \<open>
  A task of the set: when it returns by itself, if it does, and when it ends if it is aborted at an
  instant, if it does: an abort lands when the task next yields.
\<close>

record task =
  tk_returns :: "instant option"
  tk_aborted :: "instant \<Rightarrow> instant option"

text \<open>The instant at which the last of some futures is done.\<close>

fun all_done :: "instant \<Rightarrow> instant option list \<Rightarrow> instant option" where
  "all_done now [] = Some now"
| "all_done now (t # ts) = (case t of None \<Rightarrow> None | Some d \<Rightarrow> all_done (max now d) ts)"

text \<open>
  \<^verbatim>\<open>tokio::time::timeout\<close>: the future if it is done by the deadline, and otherwise an error at the
  deadline, or as much later as the timer fires.
\<close>

definition timeout :: "duration \<Rightarrow> instant option \<Rightarrow> duration \<Rightarrow> instant \<Rightarrow> (instant, instant) res" where
  "timeout budget done late now =
     (case done of
        Some t \<Rightarrow> if t \<le> now + budget then Inr t else Inl (now + budget + late)
      | None \<Rightarrow> Inl (now + budget + late))"

record shutdown_outcome =
  so_returned :: instant
  so_aborted :: "task list"
  so_left :: "task list"

definition is_done :: "instant option \<Rightarrow> instant \<Rightarrow> bool" where
  "is_done t now = (case t of None \<Rightarrow> False | Some d \<Rightarrow> d \<le> now)"

definition after_abort :: "instant \<Rightarrow> task \<Rightarrow> instant option" where
  "after_abort at t = earlier (tk_returns t) (tk_aborted t at)"

definition shutdown :: "task list \<Rightarrow> duration \<Rightarrow> duration \<Rightarrow> duration \<Rightarrow> instant \<Rightarrow> shutdown_outcome" where
  "shutdown tasks wall_clock late_drain late_abort start =
     (if tasks = [] then \<lparr>so_returned = start, so_aborted = [], so_left = []\<rparr>
      else
        let drain_budget = min PER_TASK_DRAIN wall_clock
        in case timeout drain_budget (all_done start (map tk_returns tasks)) late_drain start of
          Inr t \<Rightarrow> \<lparr>so_returned = t, so_aborted = [], so_left = []\<rparr>
        | Inl now \<Rightarrow>
            let remaining = filter (\<lambda>t. \<not> is_done (tk_returns t) now) tasks;
                abort_budget = wall_clock - (now - start)
            in (case timeout abort_budget (all_done now (map (after_abort now) remaining)) late_abort now of
                  Inr t \<Rightarrow> \<lparr>so_returned = t, so_aborted = remaining, so_left = []\<rparr>
                | Inl t \<Rightarrow> \<lparr>so_returned = t, so_aborted = remaining,
                    so_left = filter (\<lambda>k. \<not> is_done (after_abort now k) t) remaining\<rparr>))"

text \<open>The end of \<^verbatim>\<open>run\<close> in \<^verbatim>\<open>src/lib.rs\<close>: once the tasks run, wait for the token, then drain them.\<close>

definition run_stop :: "task list \<Rightarrow> cancel_token \<Rightarrow> duration \<Rightarrow> duration \<Rightarrow> instant \<Rightarrow> shutdown_outcome option" where
  "run_stop tasks token late_drain late_abort now =
     (case token of
        None \<Rightarrow> None
      | Some c \<Rightarrow> Some (shutdown tasks SHUTDOWN_GRACE late_drain late_abort (max now c)))"

section \<open>Lemmas\<close>

lemma earlier_is_done: "is_done (earlier a b) now \<longleftrightarrow> is_done a now \<or> is_done b now"
  by (cases a; cases b) (auto simp: earlier_def is_done_def)

lemma all_done_iff: "all_done now ts = Some t \<Longrightarrow> now \<le> t \<and> (\<forall>d \<in> set ts. is_done d t)"
  by (induction ts arbitrary: now) (fastforce simp: is_done_def split: option.splits)+

lemma all_done_by: "now \<le> b \<Longrightarrow> \<forall>d \<in> set ts. is_done d b \<Longrightarrow> \<exists>t \<le> b. all_done now ts = Some t"
  by (induction ts arbitrary: now) (auto simp: is_done_def split: option.splits)

lemma timeout_cases:
  "timeout budget d late now = Inr t \<Longrightarrow> d = Some t \<and> t \<le> now + budget"
  "timeout budget d late now = Inl t \<Longrightarrow> t = now + budget + late \<and> \<not> is_done d (now + budget)"
  by (auto simp: timeout_def is_done_def split: option.splits if_splits)

lemma shutdown_bounded:
  "so_returned (shutdown tasks wall_clock late_drain late_abort start) \<le> start + wall_clock + late_drain + late_abort"
proof (cases "timeout (min PER_TASK_DRAIN wall_clock) (all_done start (map tk_returns tasks)) late_drain start")
  case (Inr t)
  with timeout_cases(1) [OF Inr] show ?thesis by (auto simp: shutdown_def Let_def)
next
  case (Inl now)
  have "start \<le> now" "now \<le> start + wall_clock + late_drain" using timeout_cases(2) [OF Inl] by auto
  then have "now + (wall_clock - (now - start)) \<le> start + wall_clock + late_drain" by arith
  moreover have "so_returned (shutdown tasks wall_clock late_drain late_abort start) \<le> now + (wall_clock - (now - start)) + late_abort \<or> tasks = []"
    using Inl by (auto simp: shutdown_def Let_def split: sum.split dest: timeout_cases)
  ultimately show ?thesis by (auto simp: shutdown_def)
qed

lemma shutdown_gentle:
  assumes "t \<in> set (so_aborted (shutdown tasks wall_clock late_drain late_abort start))"
  shows "\<not> is_done (tk_returns t) (start + min PER_TASK_DRAIN wall_clock)"
proof -
  obtain now where now: "timeout (min PER_TASK_DRAIN wall_clock) (all_done start (map tk_returns tasks)) late_drain start = Inl now"
    and t: "\<not> is_done (tk_returns t) now"
    using assms by (auto simp: shutdown_def Let_def split: if_splits sum.splits)
  have "start + min PER_TASK_DRAIN wall_clock \<le> now" using timeout_cases(2) [OF now] by simp
  with t show ?thesis by (auto simp: is_done_def split: option.splits)
qed

lemma shutdown_complete:
  assumes "t \<in> set tasks" and "out = shutdown tasks wall_clock late_drain late_abort start"
  shows "is_done (tk_returns t) (so_returned out) \<or> t \<in> set (so_aborted out)"
proof (cases "timeout (min PER_TASK_DRAIN wall_clock) (all_done start (map tk_returns tasks)) late_drain start")
  case (Inr u)
  with timeout_cases(1) [OF Inr] all_done_iff assms show ?thesis by (fastforce simp: shutdown_def Let_def)
next
  case (Inl now)
  have "now \<le> so_returned out"
    using Inl assms all_done_iff
    by (fastforce simp: shutdown_def Let_def dest: timeout_cases split: sum.splits)
  with Inl assms show ?thesis
    by (cases "is_done (tk_returns t) now") (auto simp: shutdown_def Let_def is_done_def split: sum.splits option.splits)
qed

lemma watch_earliest: "watch_for_shutdown_signal ctrl_c sigterm token = earlier (earlier (resolves ctrl_c) (resolves sigterm)) token"
  by (auto simp: watch_for_shutdown_signal_def wait_for_terminate_def earlier_def is_cancelled_def split: option.splits)

section \<open>Properties\<close>

text \<open>
  C17. A signal ends the system: when a watched signal arrives, the drain starts at once, however
  the token would have fired, and it returns within the five seconds of grace and the lateness
  of its two timers. A task that returns within the first two seconds is never aborted; every
  other task has returned by itself or was aborted.
\<close>

theorem signal_ends_the_system:
  assumes "resolves ctrl_c = Some t \<or> resolves sigterm = Some t"
  shows "\<exists>out c. watch_for_shutdown_signal ctrl_c sigterm token = Some c \<and> c \<le> t
    \<and> run_stop tasks (watch_for_shutdown_signal ctrl_c sigterm token) late_drain late_abort now = Some out
    \<and> so_returned out \<le> max now t + 5000000000 + late_drain + late_abort
    \<and> (\<forall>k \<in> set tasks. is_done (tk_returns k) (max now c + 2000000000) \<longrightarrow> k \<notin> set (so_aborted out))
    \<and> (\<forall>k \<in> set tasks. is_done (tk_returns k) (so_returned out) \<or> k \<in> set (so_aborted out))"
proof -
  obtain c where c: "watch_for_shutdown_signal ctrl_c sigterm token = Some c" "c \<le> t"
  proof -
    have "is_done (watch_for_shutdown_signal ctrl_c sigterm token) t"
      using assms unfolding watch_earliest earlier_is_done by (auto simp: is_done_def)
    then show thesis using that by (auto simp: is_done_def split: option.splits)
  qed
  let ?out = "shutdown tasks SHUTDOWN_GRACE late_drain late_abort (max now c)"
  have budgets: "SHUTDOWN_GRACE = 5000000000" "PER_TASK_DRAIN = 2000000000"
    by (simp_all add: SHUTDOWN_GRACE_def PER_TASK_DRAIN_def from_secs_def)
  have "so_returned ?out \<le> max now c + 5000000000 + late_drain + late_abort"
    using shutdown_bounded [of tasks SHUTDOWN_GRACE late_drain late_abort "max now c"] by (simp add: budgets)
  with c(2) have "so_returned ?out \<le> max now t + 5000000000 + late_drain + late_abort" by linarith
  moreover have "\<forall>k \<in> set tasks. is_done (tk_returns k) (max now c + 2000000000) \<longrightarrow> k \<notin> set (so_aborted ?out)"
    using shutdown_gentle [of _ tasks SHUTDOWN_GRACE late_drain late_abort "max now c"] by (auto simp: budgets)
  moreover have "\<forall>k \<in> set tasks. is_done (tk_returns k) (so_returned ?out) \<or> k \<in> set (so_aborted ?out)"
    using shutdown_complete [OF _ refl] by blast
  ultimately show ?thesis using c by (auto simp: run_stop_def)
qed

theorem signal_ends_the_system_witness:
  "\<exists>out. run_stop [\<lparr>tk_returns = Some 1000000010, tk_aborted = (\<lambda>t. None)\<rparr>, \<lparr>tk_returns = None, tk_aborted = (\<lambda>t. Some (t + 7))\<rparr>]
     (watch_for_shutdown_signal No_Signal (Signal_At 10) None) 0 0 0 = Some out
   \<and> so_returned out \<le> 5000000010 \<and> so_returned out = 2000000017 \<and> length (so_aborted out) = 1"
  using signal_ends_the_system [of No_Signal 10 "Signal_At 10" None
      "[\<lparr>tk_returns = Some 1000000010, tk_aborted = (\<lambda>t. None)\<rparr>, \<lparr>tk_returns = None, tk_aborted = (\<lambda>t. Some (t + 7))\<rparr>]" 0 0 0]
  by (auto simp: run_stop_def watch_earliest earlier_def shutdown_def timeout_def SHUTDOWN_GRACE_def PER_TASK_DRAIN_def from_secs_def
      is_done_def after_abort_def Let_def)

end
