(* ===== verification/System.thy ===== *)
theory System
  imports Startup_Correct Build_Correct Shutdown
begin

text \<open>
  The parts put together: what a frame meets on its way through a started system, from the bytes
  one endpoint reads to the queue of another.
\<close>

declare map_of_eq_Some_iff [simp del]

section \<open>A session that reads one stream and ends\<close>

lemma session_forwards:
  assumes "reliable send contents" and "list_all steady is" and "ends_with i = Some outcome"
    and "length (received is) < 2 ^ 64" and "scan_all tbl (received is) = (fs, skipped, bad_crc, residue)"
  shows "\<exists>s. run_session tbl send aq ctx tq (is @ i # rest) (session_new ch st) = Some (s, Some outcome)
    \<and> contents (se_chan s) = contents ch @ forwarded ctx fs"
proof -
  from session_after_steady [OF assms(1) session_after_new [of tbl contents ctx ch st] assms(2), where aq = aq and tq = tq and rest = "i # rest"] assms(4)
  obtain s where s: "run_session tbl send aq ctx tq (is @ i # rest) (session_new ch st) = run_session tbl send aq ctx tq (i # rest) s"
    "session_after tbl contents ctx (session_new ch st) (received is) s" by fastforce
  with assms(5) show ?thesis
    by (simp add: ends_round [OF assms(3)] session_after_def session_new_def)
qed

section \<open>Nothing is known before the first frame\<close>

definition quiet :: "group_registry \<Rightarrow> bool" where
  "quiet gs \<longleftrightarrow> (\<forall>(g, e) \<in> set gs. learned (gl_learn e) = {})"

lemma quiet_join: "quiet gs \<Longrightarrow> quiet (fst (group_join g c gs))"
proof -
  assume quiet: "quiet gs"
  have "set (AList.update k v al) \<subseteq> insert (k, v) (set al)" for k v and al :: "(string \<times> group_learn) list"
    by (induction al) auto
  with quiet show ?thesis
    by (fastforce simp: quiet_def group_join_def Let_def learned_new split: option.split dest: map_of_SomeD)
qed

lemma quiet_announce: "quiet (r_groups r) \<Longrightarrow> quiet (r_groups (handle_event env (announcement spec i n) r))"
  by (auto simp: announcement_def register_routable_def build_routable_state_def forward_stats_def Let_def case_prod_unfold quiet_join
      split: option.split try_send_result.split)

lemma quiet_announcements:
  "quiet (r_groups r) \<Longrightarrow> quiet (r_groups (fold (handle_event env) (map (\<lambda>(spec, i, n). announcement spec i n) ps) r))"
  by (induction ps arbitrary: r) (auto simp: quiet_announce)

lemma quiet_heard:
  assumes "quiet (r_groups r)" and "learned (rs_learn rs) = {}"
  shows "heard r rs = {}"
proof (cases "if_group (rs_identity rs)")
  case (Some g)
  have "learned (gl_learn e) = {}" if "map_of (r_groups r) g = Some e" for e
    using map_of_SomeD [OF that] assms(1) by (auto simp: quiet_def)
  with Some show ?thesis by (simp add: heard_def effective_learn_def group_get_def split: option.split)
qed (use assms(2) in \<open>simp add: heard_def effective_learn_def\<close>)

lemma first_frame_fresh: "\<not> snd (check_and_insert hash_of frame now (dedup_new ttl c))"
  by (simp add: check_and_insert_def dedup_new_def expire_stale_def Let_def)

text \<open>A frame teaches the router about the group of its source only.\<close>

lemma heard_after_frame:
  assumes ok: "router_ok r" and src: "map_of (r_routing r) (rf_endpoint_id f) = Some sep" "re_routable sep = Some srs"
    and fresh: "\<not> snd (check_and_insert (env_hash env) (rf_frame f) now (r_dedup r))"
    and other: "if_group (rs_identity srs) = None \<or> if_group (rs_identity srs) \<noteq> if_group (rs_identity rs)"
  shows "heard (handle_frame env f now r) rs = heard r rs"
proof -
  let ?r = "r\<lparr>r_dedup := fst (check_and_insert (env_hash env) (rf_frame f) now (r_dedup r))\<rparr>"
  let ?l = "learn_from sep srs (hdr_source (rf_header f)) now (rf_endpoint_id f) ?r"
  obtain r1 where r1: "r1 = ?l\<lparr>r_store := r_store r1\<rparr>"
    "handle_frame env f now r = dispatch_to_destinations env (rf_endpoint_id f) (rf_frame f) (rf_header f) (rs_endpoint_name srs) r1"
    using handle_frame_admitted [OF ok src fresh] by metis
  have "heard (handle_frame env f now r) rs = heard ?l rs"
    by (rule heard_cong) (subst r1(2), subst r1(1), simp)
  also have "\<dots> = heard r rs"
  proof (cases "if_group (rs_identity srs)")
    case None
    then show ?thesis by (simp add: heard_def learn_from_def)
  next
    case (Some g)
    from effective_learn_Some [OF ok src] obtain t where t: "effective_learn (r_groups ?r) srs = Some t" by auto
    have "heard ?r rs = heard r rs" by (rule heard_cong) simp
    with heard_learn_from_group [OF Some t, of sep "hdr_source (rf_header f)" now "rf_endpoint_id f" rs] Some other
    show ?thesis by auto
  qed
  finally show ?thesis .
qed

section \<open>The entries of a started system\<close>

lemma started_entry:
  assumes "router_reach env r" and "r_routing r = map (\<lambda>(spec, i, n). (i, entry_of spec n)) (plan specs 0 m)"
    and "k < length specs" and "plan specs 0 m ! k = (specs ! k, of_nat k, n)"
  shows "map_of (r_routing r) (of_nat k) = Some (entry_of (specs ! k) n)"
proof -
  have "distinct (map fst (r_routing r))" using router_reach_ok [OF assms(1)] by (simp add: router_ok_def)
  moreover have "(of_nat k, entry_of (specs ! k) n) \<in> set (r_routing r)"
    using nth_mem [of k "plan specs 0 m"] assms(3,4) by (force simp: assms(2))
  ultimately show ?thesis by (simp add: map_of_eq_Some_iff)
qed

text \<open>
  A broadcast frame in a freshly started system: every other leaf endpoint outside the group of the
  source whose egress filter passes it is queued the frame.
\<close>

lemma first_broadcast_queued:
  assumes reach: "router_reach env r" and routing: "r_routing r = map (\<lambda>(spec, i, n). (i, entry_of spec n)) (plan specs 0 m)"
    and quiet: "quiet (r_groups r)" and dedup: "r_dedup r = dedup_new ttl c"
    and laws: "aq_laws (env_queue env) items capq"
    and a: "a < length specs" "plan specs 0 m ! a = (specs ! a, of_nat a, na)" "\<not> is_listener (ep_kind (specs ! a))"
    and b: "b < length specs" "plan specs 0 m ! b = (specs ! b, of_nat b, nb)" "\<not> is_listener (ep_kind (specs ! b))"
    and queue: "sto_queue (r_store r) (nb + 1) = aq_new (env_queue env) 256"
    and ids: "(of_nat a :: endpoint_id) \<noteq> of_nat b"
    and groups: "if_group (kind_identity (ep_kind (specs ! a))) = None
      \<or> if_group (kind_identity (ep_kind (specs ! a))) \<noteq> if_group (kind_identity (ep_kind (specs ! b)))"
    and f: "rf_endpoint_id f = of_nat a" "addressees (rf_header f) = None"
    and out: "passes_out_filter (if_filters (kind_identity (ep_kind (specs ! b)))) (hdr_msgid (rf_header f)) (hdr_source (rf_header f)) (ep_name (specs ! a))"
  shows "items (sto_queue (r_store (handle_frame env f now r)) (nb + 1)) = [rf_frame f]"
proof -
  let ?state = "\<lambda>k n. \<lparr>rs_tx_queue = queue_at n, rs_identity = kind_identity (ep_kind (specs ! k)),
    rs_endpoint_name = ep_name (specs ! k), rs_learn = learn_new LEARN_CAPACITY\<rparr>"
  have src: "map_of (r_routing r) (rf_endpoint_id f) = Some (entry_of (specs ! a) na)" "re_routable (entry_of (specs ! a) na) = Some (?state a na)"
    using started_entry [OF reach routing a(1,2)] a(3) by (simp_all add: f(1) entry_of_def)
  have dest: "map_of (r_routing r) (of_nat b) = Some (entry_of (specs ! b) nb)" "re_routable (entry_of (specs ! b) nb) = Some (?state b nb)"
    using started_entry [OF reach routing b(1,2)] b(3) by (simp_all add: entry_of_def)
  have fresh: "\<not> snd (check_and_insert (env_hash env) (rf_frame f) now (r_dedup r))" unfolding dedup by (rule first_frame_fresh)
  note ok = router_reach_ok [OF reach]
  have "heard (handle_frame env f now r) (?state b nb) = {}"
    using heard_after_frame [OF ok src fresh, of "?state b nb"] quiet_heard [OF quiet, of "?state b nb"] groups by (simp add: learned_new)
  then have "wants (heard (handle_frame env f now r) (?state b nb)) (rs_identity (?state b nb)) (rf_header f) (rs_endpoint_name (?state a na))"
    using out f(2) by (simp add: wants_def)
  with deliver_queue [OF ok src fresh dest] ids
  have "sto_queue (r_store (handle_frame env f now r)) (nb + 1) = fst (aq_force_push (env_queue env) (rf_frame f) (aq_new (env_queue env) 256))"
    using queue f(1) by (simp add: queue_at_def)
  then show ?thesis
    using aq_lawsD(1,2) [OF laws, of 256] aq_lawsD(4) [OF laws, of "aq_new (env_queue env) 256" "rf_frame f"] by simp
qed

section \<open>An example\<close>

definition demo_pair :: config where
  "demo_pair = (mo_config demo_outcome)\<lparr>cfg_endpoints := [demo_fc, demo_fc\<lparr>ep_name := ''gcs''\<rparr>]\<rparr>"

definition demo_broadcast :: wire_frame where
  "demo_broadcast = \<lparr>wf_version = Version_V2, wf_compat = 0, wf_seq = 3, wf_source = node_new 1 1, wf_msgid = 0,
     wf_payload = [9, 8], wf_signature = None\<rparr>"

definition demo_visit :: "bytes \<Rightarrow> session_input" where
  "demo_visit data = \<lparr>sn_cancelled = False, sn_read = Some (Read_Ok data), sn_write_ok = True, sn_now = 0, sn_pushed = []\<rparr>"

lemma demo_broadcast_facts:
  "wf_ok demo_broadcast" "seed_ok [] x demo_broadcast" "addressees (header_of [] demo_broadcast) = None"
  "encode_frame x demo_broadcast \<noteq> []"
  by (simp_all add: demo_broadcast_def wf_ok_def seed_ok_def header_of_def addressees_def msg_lookup_def binary_search_by_key_def
      encode_frame_def Let_def)

lemma demo_pair_facts:
  "cfg_endpoints demo_pair = [demo_fc, demo_fc\<lparr>ep_name := ''gcs''\<rparr>]" "kind_identity (ep_kind demo_fc) = identity_default"
  "\<not> is_listener (ep_kind demo_fc)" "if_group identity_default = None" "if_filters identity_default = filters_default"
  "passes_in_filter filters_default m n" "passes_out_filter filters_default m n name"
  by (simp_all add: demo_pair_def demo_fc_def identity_default_def filters_default_def passes_in_filter_def passes_out_filter_def
      pass_msgid_axis_def pass_u8_axis_def pass_src_endpoint_axis_def)

end
