(* ===== verification/Spec2Isabelle.thy ===== *)
theory Spec2Isabelle
  imports Stats_Task Udp_Server_Correct Tcp_Client Serial Tcp_Server_Correct System
begin

text \<open>
  A verification development for \<^verbatim>\<open>mavlink-router-rs\<close>, a router that forwards MAVLink frames
  between serial, UDP and TCP endpoints.

  \<^bold>\<open>The program.\<close> \<^verbatim>\<open>main\<close> reads a command line and an optional TOML file, merges and validates
  them, and starts \<^verbatim>\<open>run\<close>: a router task, a stats task and one task per endpoint. A stream endpoint
  (serial, TCP client, each client of a TCP listener) runs a session that frames the bytes it
  reads, filters the frames and sends them to the router over a channel; a UDP endpoint does the
  same per datagram. The router learns which nodes were heard where, suppresses duplicates,
  decides per destination and pushes the frame into bounded queues, which the writers of the
  endpoints drain. Listeners announce and remove their peers by events on a second channel, and
  the router passes what it knows to the stats task on a third. A build script generates
  the table of message seeds and target offsets from XML definitions.

  \<^bold>\<open>How it is modelled.\<close> Machine integers are words of their width, a wrap or a saturation is
  written out. A fallible function returns a sum with the error on the left, a panic is
  \<^term>\<open>None\<close> or an error value. Queues, counters and notifiers that tasks share by reference live in
  an explicit store (\<^verbatim>\<open>Tx_Queue.store\<close>). A task is a function of what the outside gives it: the
  results of reads, writes, accepts and name lookups, with the time they take; tasks that
  interleave are sequences of steps of either. Hash maps are association lists in an unspecified
  order. Code that is not in the repository is a parameter with its documented behaviour as a
  hypothesis: the lock-free queue (\<^verbatim>\<open>aq_laws\<close>), the channels (\<^verbatim>\<open>reliable\<close>, \<^verbatim>\<open>reliable_events\<close>), the frame hash, the
  resolver, the serial library, the TOML library, the XML reader, the edit distance, JSON output and the clock.
  Each hypothesis is met by a concrete instance in the witness of every property that has it.

  \<^bold>\<open>The theories\<close>, in the order of the program.
  \<^item> Prelude, Rust_Text, Lru: integers, results and vectors; Rust texts and numbers; and the
    locale \<^verbatim>\<open>lru_table\<close> of tables with least-recently-used eviction.
  \<^item> Mav_Crc, Mav_Frame (\<^verbatim>\<open>mavlink/crc.rs\<close>, \<^verbatim>\<open>frame.rs\<close>, \<^verbatim>\<open>msgid_table.rs\<close>): the checksum is the
    bit-serial CRC and detects every one-byte error; the binary search is exact on a sorted table.
  \<^item> Framer, Framer_Scan, Framer_Stream (\<^verbatim>\<open>mavlink/framer.rs\<close>): the framer refines a scanner
    that looks at one byte at a time; it never panics, does not depend on how reads are cut, loses
    no byte, and reads back every encoded stream.
  \<^item> Include_Walk, Dialect, Build, Build_Correct (\<^verbatim>\<open>build.rs\<close>, \<^verbatim>\<open>build_support/\<close>): the walk over the
    includes is exact (locale \<^verbatim>\<open>include_graph\<close>); the generated table is sorted and is that of the
    declarations; the target bytes the router reads are those of the declared fields.
  \<^item> Learn, Dedup, Group_Registry, Decide, Router, Router_Correct (\<^verbatim>\<open>router/\<close>): the learn
    table, the duplicate window and the groups (locale \<^verbatim>\<open>refcounts\<close>) against their specifications; registry invariant, exact
    delivery, loop prevention, suppression and shutdown of the router task.
  \<^item> Endpoint_Stats, Tx_Queue, Seq_Tracker, Session (\<^verbatim>\<open>endpoint/stats.rs\<close>, \<^verbatim>\<open>tx_queue.rs\<close>,
    \<^verbatim>\<open>seq_tracker.rs\<close>, \<^verbatim>\<open>session.rs\<close>): every frame is accounted for; the loss estimate is exact; a
    session forwards exactly the valid frames and writes in order.
  \<^item> Backoff, Stream_Client, Tcp_Client, Serial (\<^verbatim>\<open>endpoint/backoff.rs\<close>, \<^verbatim>\<open>tcp/client.rs\<close>,
    \<^verbatim>\<open>serial.rs\<close>): delays and their jitter; the locales \<^verbatim>\<open>reconnecting\<close> and \<^verbatim>\<open>reconnecting_timed\<close> of
    endpoints that connect again; only fresh frames are sent, and the tasks end with their token.
  \<^item> Net_Addr, Ip_Parse, Lifecycle, Udp_Client, Udp_Server, Udp_Server_Correct, Tcp_Server,
    Tcp_Server_Correct (\<^verbatim>\<open>endpoint/mod.rs\<close>, \<^verbatim>\<open>udp/\<close>, \<^verbatim>\<open>tcp/server.rs\<close>): names of peers, the contract between a
    listener and the router (locale \<^verbatim>\<open>peer_listener\<close>, met by both listeners), the latching of the
    UDP client, and the isolation of TCP clients under every interleaving.
  \<^item> Filters, Spec_Error, Endpoint_Spec, Endpoint_Spec_Correct, Toml_Config, Config
    (\<^verbatim>\<open>endpoint/filters.rs\<close>, \<^verbatim>\<open>identity_flags.rs\<close>, \<^verbatim>\<open>endpoint/spec/\<close>, \<^verbatim>\<open>parsers/\<close>, \<^verbatim>\<open>config.rs\<close>, \<^verbatim>\<open>main.rs\<close>): what is accepted is
    well-formed and every well-formed endpoint can be written; file and command line agree; the
    merge and the validation against a specification.
  \<^item> Stats_Task (\<^verbatim>\<open>stats.rs\<close>): the lines written are exact while the output is open.
  \<^item> Startup, Startup_Correct, Shutdown, System (\<^verbatim>\<open>endpoint/spawn.rs\<close>, \<^verbatim>\<open>wiring.rs\<close>, \<^verbatim>\<open>lib.rs\<close>,
    \<^verbatim>\<open>shutdown.rs\<close>): every endpoint is registered before its task runs; a signal ends the system in
    bounded time; and the way of a frame through a started system, with the two properties below.

  \<^bold>\<open>Bounds and fuel.\<close> Recursions that the source writes as a loop over its inputs are structural on
  the list of these inputs. \<^verbatim>\<open>bind_with_backoff\<close> has fuel for its attempts; more than the milliseconds
  until its token fires is enough, as every delay is at least one. \<^verbatim>\<open>pop_all\<close>, the drain of a queue,
  has fuel for the frames it discards; the queue's length plus one is enough and is what
  \<^verbatim>\<open>drain_and_discard\<close> gives it. \<^verbatim>\<open>walk_inner\<close> has fuel for its depth; more than the number of files is
  enough, as each level has one more file in progress. The framer and the binary search terminate
  by a measure. Buffers are taken to be shorter than \<^verbatim>\<open>2^64\<close> bytes and endpoints to be no more than
  \<^verbatim>\<open>2^64\<close>, the range of the counters and identifiers.

  \<^bold>\<open>Not modelled.\<close> Socket creation and options (\<^verbatim>\<open>endpoint/socket.rs\<close>) and the log subscriber
  (\<^verbatim>\<open>log.rs\<close>), which only call the operating system and a library; log lines and spans everywhere;
  the start-up log of the configuration and the Display of a parsed endpoint that feeds it; the
  argument library and its help text, whose result is the record \<^verbatim>\<open>cli\<close>; the texts of the errors of
  \<^verbatim>\<open>error.rs\<close> and of the build; the variants of the signal handler for platforms other than Unix; memory
  ordering of the atomic counters, which are read and written one operation at a time;
  and the scheduler: which ready branch an unbiased select takes is left open by the inputs.
\<close>

section \<open>Properties of the whole system\<close>

text \<open>
  C13. From the command line to the registry: when \<^verbatim>\<open>main\<close> starts the system, then, once the router
  has taken in the announcements, its registry holds exactly the configured endpoints in their
  order, under distinct names; every endpoint is well-formed, and every endpoint a filter refers
  to is registered.
\<close>

theorem started_system_serves_configuration:
  assumes "main_startup cenv cli = Start outcome" and "cfg = mo_config outcome"
    and "reliable_events send_event contents" and "\<And>cap. contents (event_channel cap) = []"
    and "length (cfg_endpoints cfg) \<le> 2 ^ 64"
    and "sys = run_start aq send_event event_channel stats_channel st cfg cancel"
    and "r = fold (handle_event env) (contents (sp_event_tx (sy_spawner sys))) (sy_router sys)"
  shows "router_reach env r \<and> r_routing r \<noteq> [] \<and> list_all spec_wf (cfg_endpoints cfg)
    \<and> map (re_name \<circ> snd) (r_routing r) = map ep_name (cfg_endpoints cfg)
    \<and> distinct (map (re_name \<circ> snd) (r_routing r))
    \<and> references (set (cfg_endpoints cfg)) \<subseteq> set (map (re_name \<circ> snd) (r_routing r))"
proof -
  note valid = main_starts_only_valid_configs [OF assms(1), folded assms(2)]
  note start = run_start_plan [OF assms(3-6) refl assms(7) refl]
  have "map (re_name \<circ> snd) (r_routing r) = map ep_name (map fst (plan (cfg_endpoints cfg) 0 (sto_next st)))"
    unfolding start(4) by (auto simp: entry_of_def)
  then have "map (re_name \<circ> snd) (r_routing r) = map ep_name (cfg_endpoints cfg)" by (simp add: map_fst_plan)
  with valid start(3) show ?thesis by (auto simp: config_ok_def)
qed

theorem started_system_serves_configuration_witness:
  "let sys = run_start list_queue (\<lambda>ev e. (e @ [ev], True)) (\<lambda>_. []) (\<lambda>_. []) demo_store0 (mo_config demo_outcome) None;
       r = fold (handle_event demo_env) (sp_event_tx (sy_spawner sys)) (sy_router sys)
   in main_startup demo_config_env demo_cli = Start demo_outcome \<and> map (re_name \<circ> snd) (r_routing r) = [''bus'', ''fc'']"
proof -
  have "reliable_events (\<lambda>ev e. (e @ [ev], True)) id" by (simp add: reliable_events_def)
  moreover have "cfg_endpoints (mo_config demo_outcome) = [demo_spec, demo_fc]" by (simp add: demo_outcome_def)
  ultimately show ?thesis
    using started_system_serves_configuration [OF demo_startup refl, of "\<lambda>ev e. (e @ [ev], True)" id "\<lambda>_. []" _ list_queue
        "\<lambda>_. []" demo_store0 None _ demo_env] demo_names demo_startup
    by (simp add: Let_def)
qed

text \<open>
  C3. From the bytes of one endpoint to the queue of another: in a freshly started system, a
  session of one endpoint that reads a valid broadcast frame, split over reads in any way, hands the
  router exactly that frame, if the inbound filters pass it; and the router queues it, unchanged
  and as the only frame, for every other leaf endpoint whose outbound filters pass it, unless
  both share a group.
\<close>

theorem broadcast_crosses_the_system:
  assumes "reliable_events send_event contents" and "\<And>cap. contents (event_channel cap) = []"
    and "aq_laws (env_queue env) items capq" and "length (cfg_endpoints cfg) \<le> 2 ^ 64"
    and "sys = run_start (env_queue env) send_event event_channel stats_channel st cfg cancel"
    and "specs = cfg_endpoints cfg" and "s = sy_spawner sys"
    and "r = fold (handle_event env) (contents (sp_event_tx s)) (sy_router sys)"
    and "a < length specs" and "b < length specs" and "a \<noteq> b"
    and "\<not> is_listener (ep_kind (specs ! a))" and "\<not> is_listener (ep_kind (specs ! b))"
    and "if_group (kind_identity (ep_kind (specs ! a))) = None
      \<or> if_group (kind_identity (ep_kind (specs ! a))) \<noteq> if_group (kind_identity (ep_kind (specs ! b)))"
    and "wf_ok w" and "seed_ok tbl x w" and "addressees (header_of tbl w) = None"
    and "passes_in_filter (if_filters (kind_identity (ep_kind (specs ! a)))) (wf_msgid w) (wf_source w)"
    and "passes_out_filter (if_filters (kind_identity (ep_kind (specs ! b)))) (wf_msgid w) (wf_source w) (ep_name (specs ! a))"
    and "sc_endpoint_id ctx = of_nat a" and "sc_filters ctx = if_filters (kind_identity (ep_kind (specs ! a)))"
    and "reliable send frames" and "frames ch = []"
    and "list_all steady rounds" and "received rounds = encode_frame x w" and "ends_with i = Some ending"
  shows "\<exists>sess f n. run_session tbl send aq ctx tq (rounds @ i # rest) (session_new ch st') = Some (sess, Some ending)
    \<and> frames (se_chan sess) = [f]
    \<and> r_routing r ! b = (of_nat b, entry_of (specs ! b) n)
    \<and> items (sto_queue (r_store (handle_frame env f now r)) (n + 1)) = [encode_frame x w]"
proof -
  let ?f = "\<lparr>rf_endpoint_id = of_nat a, rf_frame = encode_frame x w, rf_header = header_of tbl w\<rparr>"
  have "length (encode_frame x w) < 2 ^ 64"
    using assms(15) by (auto simp: encode_frame_def Let_def wf_body_len wf_ok_def split: version.splits option.splits)
  moreover have "scan_all tbl (encode_frame x w) = ([(header_of tbl w, encode_frame x w)], 0, 0, [])"
    using scan_all_stream [of "[([], x, w)]" tbl "[]"] assms(15,16) by (simp add: noise_def)
  ultimately obtain sess where sess: "run_session tbl send aq ctx tq (rounds @ i # rest) (session_new ch st') = Some (sess, Some ending)"
    "frames (se_chan sess) = frames ch @ forwarded ctx [(header_of tbl w, encode_frame x w)]"
    using session_forwards [OF assms(22,24,26), of tbl _ 0 0 "[]" aq ctx tq rest ch st'] assms(25) by metis
  have one: "frames (se_chan sess) = [?f]"
    using sess(2) assms(18,20,21,23) by (simp add: forwarded_def header_of_def Let_def)
  note start = run_start_plan [OF assms(1,2,4,5,7,8) refl, folded assms(6)]
  obtain na where na: "plan specs 0 (sto_next st) ! a = (specs ! a, of_nat a, na)" using plan_nth [OF assms(9)] by blast
  obtain nb where nb: "plan specs 0 (sto_next st) ! b = (specs ! b, of_nat b, nb)"
    "sto_queue (fold (store_with (env_queue env)) specs st) (nb + 1) = aq_new (env_queue env) 256"
    using plan_nth [OF assms(10)] assms(13) by blast
  have "(of_nat a :: endpoint_id) \<noteq> of_nat b"
    using assms(4,6,9-11) by (simp add: word_unat_eq_iff unat_of_nat)
  moreover have "quiet (r_groups r)" unfolding start(7) by (rule quiet_announcements) (simp add: start(8) quiet_def)
  moreover have "sto_queue (r_store r) (nb + 1) = aq_new (env_queue env) 256" using nb(2) by (simp add: start(2,5))
  ultimately have "items (sto_queue (r_store (handle_frame env ?f now r)) (nb + 1)) = [rf_frame ?f]"
    using first_broadcast_queued [OF start(3,4) _ start(6) assms(3,9) na assms(12,10) nb(1) assms(13) _ _ assms(14), of ?f now] assms(17,19)
    by (simp add: header_of_def Let_def)
  moreover have "r_routing r ! b = (of_nat b, entry_of (specs ! b) nb)" using nb(1) assms(10) by (simp add: start(4))
  ultimately show ?thesis using sess(1) one by auto
qed

theorem broadcast_crosses_the_system_witness:
  "let sys = run_start list_queue (\<lambda>ev e. (e @ [ev], True)) (\<lambda>_. []) (\<lambda>_. []) demo_store0 demo_pair None;
       r = fold (handle_event demo_env) (sp_event_tx (sy_spawner sys)) (sy_router sys)
   in \<exists>sess f n. run_session [] (\<lambda>f c. (c @ [f], True)) list_queue \<lparr>sc_endpoint_id = 0, sc_stats = 0, sc_filters = filters_default\<rparr>
        \<lparr>tq_inner = 0, tq_notify = 0, tq_stats = 0\<rparr> ([demo_visit (encode_frame 50 demo_broadcast)] @ demo_visit [] # [])
        (session_new [] demo_store0) = Some (sess, Some Disconnected)
      \<and> se_chan sess = [f]
      \<and> snd (sto_queue (r_store (handle_frame demo_env f 0 r)) (n + 1)) = [encode_frame 50 demo_broadcast]"
proof -
  have "reliable_events (\<lambda>ev e. (e @ [ev], True)) id" "reliable (\<lambda>f c. (c @ [f], True)) id"
    by (simp_all add: reliable_events_def reliable_def)
  moreover have "env_queue demo_env = list_queue" by (simp add: demo_env_def)
  moreover have "list_all steady [demo_visit (encode_frame 50 demo_broadcast)]" "received [demo_visit (encode_frame 50 demo_broadcast)] = encode_frame 50 demo_broadcast"
    "ends_with (demo_visit []) = Some Disconnected"
    using demo_broadcast_facts(4) by (simp_all add: demo_visit_def steady_def ends_with_def)
  ultimately show ?thesis
    using broadcast_crosses_the_system [where env = demo_env and items = snd and capq = fst and cfg = demo_pair and a = 0 and b = 1
        and send_event = "\<lambda>ev e. (e @ [ev], True)" and contents = id and event_channel = "\<lambda>_. []" and stats_channel = "\<lambda>_. []"
        and st = demo_store0 and cancel = None and w = demo_broadcast and x = 50 and tbl = "[]" and now = 0
        and send = "\<lambda>f c. (c @ [f], True)" and frames = id and ch = "[]" and i = "demo_visit []" and rest = "[]"
        and rounds = "[demo_visit (encode_frame 50 demo_broadcast)]" and aq = list_queue and st' = demo_store0
        and ctx = "\<lparr>sc_endpoint_id = 0, sc_stats = 0, sc_filters = filters_default\<rparr>" and tq = "\<lparr>tq_inner = 0, tq_notify = 0, tq_stats = 0\<rparr>",
        OF _ _ _ _ refl refl refl refl]
      list_queue_laws demo_broadcast_facts demo_pair_facts
    unfolding Let_def by simp blast
qed

end
